(* ===== verification/Kernel_Prelude.thy ===== *)
theory Kernel_Prelude
  imports Main "HOL-Library.Word" "HOL-Library.AList"
begin

text \<open>
  Shared vocabulary of the development: the widths of the machine integers, the collections of
  rewrite rules the component theories feed, small facts about lists and association lists, and
  the interfaces that more than one component provides (a byte codec for the atomic cells, a
  one-way latch, a gap-based failure window, a system with an invariant).
\<close>

section \<open>Machine integers\<close>

type_synonym u8 = "8 word"
type_synonym u32 = "32 word"
type_synonym u64 = "64 word"
type_synonym i64 = "64 word"
type_synonym u128 = "128 word"

text \<open>
  Rust's \<open>saturating_mul\<close> and \<open>saturating_add\<close> on an unsigned type: the exact result when it
  fits, the largest value of the type otherwise.
\<close>

definition saturating_mul :: "'a::len word \<Rightarrow> 'a word \<Rightarrow> 'a word" where
  "saturating_mul a b = (if unat a * unat b < 2 ^ LENGTH('a) then a * b else - 1)"

definition saturating_add :: "'a::len word \<Rightarrow> 'a word \<Rightarrow> 'a word" where
  "saturating_add a b = (if unat a + unat b < 2 ^ LENGTH('a) then a + b else - 1)"

lemma unat_saturating_mul:
  "unat (saturating_mul a (b :: 'a::len word)) = min (unat a * unat b) (2 ^ LENGTH('a) - 1)"
proof (cases "unat a * unat b < 2 ^ LENGTH('a)")
  case True
  then show ?thesis
    by (simp add: saturating_mul_def unat_word_ariths)
next
  case False
  then have "2 ^ LENGTH('a) - 1 \<le> unat a * unat b"
    by simp
  with False show ?thesis
    by (simp only: saturating_mul_def if_False unsigned_minus_1_eq_mask mask_eq_exp_minus_1 min_absorb2)
qed

lemma unat_saturating_add:
  "unat (saturating_add a (b :: 'a::len word)) = min (unat a + unat b) (2 ^ LENGTH('a) - 1)"
proof (cases "unat a + unat b < 2 ^ LENGTH('a)")
  case True
  then show ?thesis
    by (simp add: saturating_add_def unat_word_ariths)
next
  case False
  then have "2 ^ LENGTH('a) - 1 \<le> unat a + unat b"
    by simp
  with False show ?thesis
    by (simp only: saturating_add_def if_False unsigned_minus_1_eq_mask mask_eq_exp_minus_1 min_absorb2)
qed

text \<open>An increment that does not wrap.\<close>

lemma unat_plus_one: "(n :: 'a::len word) \<noteq> - 1 \<Longrightarrow> unat (n + 1) = Suc (unat n)"
proof -
  assume "n \<noteq> - 1"
  then have "unat n \<noteq> 2 ^ LENGTH('a) - 1"
    by (metis unsigned_minus_1_eq_mask mask_eq_exp_minus_1 unsigned_word_eqI)
  moreover have "unat n < 2 ^ LENGTH('a)"
    by (rule unsigned_less)
  ultimately have "Suc (unat n) < 2 ^ LENGTH('a)"
    by linarith
  then show ?thesis
    by (simp add: unat_word_ariths)
qed

lemma unat_Suc_fits: "Suc (unat (n :: 'a::len word)) < 2 ^ LENGTH('a) \<Longrightarrow> unat (n + 1) = Suc (unat n)"
  by (simp add: unat_word_ariths)

lemma less_plus_one: "(n :: 'a::len word) \<noteq> - 1 \<Longrightarrow> n < n + 1"
  by (simp add: word_less_nat_alt unat_plus_one)

section \<open>Collections of rewrite rules\<close>

named_theorems enum_simps \<open>definitions of the small functions on enumerations\<close>
named_theorems cell_simps \<open>loads from and stores to the atomic cells\<close>
named_theorems step_simps \<open>definitions of the operations of a component\<close>

section \<open>Lists and association lists\<close>

text \<open>
  A \<open>HashMap\<close> that the code iterates over is an association list: \<open>AList.update\<close> is
  \<open>insert\<close>, \<open>map_of\<close> is \<open>get\<close>, \<open>AList.delete\<close> is \<open>remove\<close>, \<open>map snd\<close> lists the values.
\<close>

abbreviation keys :: "('k \<times> 'v) list \<Rightarrow> 'k list" where
  "keys m \<equiv> map fst m"

abbreviation vals :: "('k \<times> 'v) list \<Rightarrow> 'v list" where
  "vals m \<equiv> map snd m"

lemma map_of_update [simp]: "map_of (AList.update k v m) = (map_of m)(k \<mapsto> v)"
  by (simp add: update_conv')

lemma distinct_keys_update [simp]: "distinct (keys (AList.update k v m)) = distinct (keys m)"
  by (induction m) (auto simp: dom_update)

lemma set_keys_update [simp]: "set (keys (AList.update k v m)) = insert k (set (keys m))"
  by (simp add: dom_update)

lemma set_vals_map_of: "distinct (keys m) \<Longrightarrow> v \<in> set (vals m) \<longleftrightarrow> (\<exists>k. map_of m k = Some v)"
  by (force simp: image_iff)

lemma map_of_keys_None: "k \<notin> set (keys m) \<Longrightarrow> map_of m k = None"
  by (simp add: map_of_eq_None_iff)

text \<open>\<open>Iterator::position\<close> and \<open>Vec::remove\<close>.\<close>

primrec position :: "('a \<Rightarrow> bool) \<Rightarrow> 'a list \<Rightarrow> nat option" where
  "position P [] = None"
| "position P (x # xs) = (if P x then Some 0 else map_option Suc (position P xs))"

definition remove_at :: "nat \<Rightarrow> 'a list \<Rightarrow> 'a list" where
  "remove_at n xs = take n xs @ drop (Suc n) xs"

lemma position_None_iff: "position P xs = None \<longleftrightarrow> (\<forall>x \<in> set xs. \<not> P x)"
  by (induction xs) auto

text \<open>Removing the first match removes the only one when keys are distinct.\<close>

lemma remove_at_position:
  "distinct (map f xs) \<Longrightarrow> position (\<lambda>x. f x = k) xs = Some n \<Longrightarrow>
   remove_at n xs = filter (\<lambda>x. f x \<noteq> k) xs"
proof (induction xs arbitrary: n)
  case (Cons x xs)
  show ?case
  proof (cases "f x = k")
    case True
    then have "filter (\<lambda>y. f y \<noteq> k) xs = xs"
      using Cons.prems(1) by (intro filter_True) (force simp: image_iff)
    with True Cons.prems(2) show ?thesis
      by (simp add: remove_at_def)
  next
    case False
    with Cons show ?thesis
      by (auto simp: remove_at_def)
  qed
qed simp

text \<open>Where an element of one half of a list splits the whole.\<close>

lemma split_left:
  "zs @ ws = xs @ y # ys \<Longrightarrow> y \<notin> set ws \<Longrightarrow> \<exists>us. zs = xs @ y # us"
  by (auto simp: append_eq_append_conv2 append_eq_Cons_conv)

lemma split_right:
  "zs @ ws = xs @ y # ys \<Longrightarrow> y \<notin> set zs \<Longrightarrow> \<exists>us. xs = zs @ us \<and> ws = us @ y # ys"
  by (auto simp: append_eq_append_conv2 append_eq_Cons_conv)

section \<open>Interfaces shared by the components\<close>

subsection \<open>Byte codecs\<close>

text \<open>
  An enumeration kept in an \<open>AtomicU8\<close>: the cell holds \<open>enc x\<close> and is read with \<open>dec\<close>. The
  provider promises that decoding undoes encoding, so a load returns what was stored last.
\<close>

locale u8_codec =
  fixes enc :: "'a \<Rightarrow> u8"
    and dec :: "u8 \<Rightarrow> 'a"
  assumes dec_enc: "dec (enc x) = x"
begin

lemma enc_inj: "enc x = enc y \<longleftrightarrow> x = y"
  by (metis dec_enc)

lemma load_store: "dec (enc x) = y \<longleftrightarrow> x = y"
  by (simp add: dec_enc)

end

subsection \<open>Systems with an invariant\<close>

locale invariant_system =
  fixes start :: "'s \<Rightarrow> bool"
    and step :: "'s \<Rightarrow> 's \<Rightarrow> bool"
    and inv :: "'s \<Rightarrow> bool"
  assumes inv_start: "start s \<Longrightarrow> inv s"
    and inv_step: "inv s \<Longrightarrow> step s t \<Longrightarrow> inv t"
begin

lemma inv_steps: "step\<^sup>*\<^sup>* s t \<Longrightarrow> inv s \<Longrightarrow> inv t"
  by (induction rule: rtranclp_induct) (auto intro: inv_step)

lemma inv_reachable: "start s \<Longrightarrow> step\<^sup>*\<^sup>* s t \<Longrightarrow> inv t"
  by (auto intro: inv_steps inv_start)

end

text \<open>A component driven by operations, one after the other.\<close>

locale operation_machine =
  fixes exec :: "'o \<Rightarrow> 's \<Rightarrow> 's"
    and inv :: "'s \<Rightarrow> bool"
  assumes inv_exec: "inv s \<Longrightarrow> inv (exec p s)"

sublocale operation_machine \<subseteq> ops: invariant_system inv "\<lambda>s t. \<exists>p. t = exec p s" inv
  by unfold_locales (auto intro: inv_exec)

context operation_machine
begin

lemma inv_fold: "inv s \<Longrightarrow> inv (fold exec ps s)"
  by (induction ps arbitrary: s) (auto intro: inv_exec)

end

subsection \<open>One-way latches\<close>

text \<open>
  A flag that is raised and never lowered: \<open>ShutdownInner::signal\<close>, a cancellation token. The
  second law is about the whole component that owns the flag: none of its steps lowers it.
\<close>

locale latch =
  fixes raise :: "'s \<Rightarrow> 's"
    and is_raised :: "'s \<Rightarrow> bool"
  assumes raise_raises: "is_raised (raise s)"
    and raise_again: "is_raised s \<Longrightarrow> raise s = s"
begin

lemma raise_idem: "raise (raise s) = raise s"
  by (simp add: raise_again raise_raises)

lemma raise_iterate: "(raise ^^ Suc n) s = raise s"
  by (induction n) (simp_all add: raise_idem)

end

locale latch_system = latch raise is_raised
  for raise :: "'s \<Rightarrow> 's" and is_raised :: "'s \<Rightarrow> bool" +
  fixes step :: "'s \<Rightarrow> 's \<Rightarrow> bool"
  assumes step_keeps: "is_raised s \<Longrightarrow> step s t \<Longrightarrow> is_raised t"
begin

lemma raised_forever: "step\<^sup>*\<^sup>* s t \<Longrightarrow> is_raised s \<Longrightarrow> is_raised t"
  by (induction rule: rtranclp_induct) (auto intro: step_keeps)

lemma raised_after_raise: "step\<^sup>*\<^sup>* (raise s) t \<Longrightarrow> is_raised t"
  by (blast intro: raised_forever raise_raises)

end

subsection \<open>Gap-based failure windows\<close>

text \<open>
  A failure counter that restarts from one when the previous failure is further back than
  \<open>gap\<close>, and counts on otherwise. The circuit breaker and the worker handle each keep one;
  \<open>valid\<close> are the clock values the provider accepts and \<open>cap\<close> the bound below which its
  counter does not wrap.
\<close>

locale failure_window =
  fixes bump :: "int \<Rightarrow> 's \<Rightarrow> nat \<times> 's"
    and count :: "'s \<Rightarrow> nat"
    and latest :: "'s \<Rightarrow> int option"
    and valid :: "int \<Rightarrow> bool"
    and gap :: int
    and cap :: nat
  assumes bump_within: "valid now \<Longrightarrow> valid t \<Longrightarrow> latest s = Some t \<Longrightarrow> now - t \<le> gap \<Longrightarrow>
      Suc (count s) < cap \<Longrightarrow> fst (bump now s) = Suc (count s)"
    and bump_beyond: "valid now \<Longrightarrow> valid t \<Longrightarrow> latest s = Some t \<Longrightarrow> gap < now - t \<Longrightarrow>
      fst (bump now s) = 1"
    and bump_first: "valid now \<Longrightarrow> latest s = None \<Longrightarrow> fst (bump now s) = 1"
    and count_bump: "count (snd (bump now s)) = fst (bump now s)"
    and latest_bump: "valid now \<Longrightarrow> latest (snd (bump now s)) = Some now"
begin

lemma burst_from:
  "valid t \<Longrightarrow> latest s = Some t \<Longrightarrow> list_all valid ts \<Longrightarrow>
   successively (\<lambda>a b. b - a \<le> gap) (t # ts) \<Longrightarrow> count s + length ts < cap \<Longrightarrow>
   count (fold (\<lambda>u s. snd (bump u s)) ts s) = count s + length ts"
proof (induction ts arbitrary: t s)
  case Nil
  then show ?case by simp
next
  case (Cons u ts)
  let ?s = "snd (bump u s)"
  have "count ?s = Suc (count s)"
    using Cons.prems by (simp add: count_bump bump_within)
  moreover have "latest ?s = Some u"
    using Cons.prems by (simp add: latest_bump)
  ultimately show ?case
    using Cons.IH [of u ?s] Cons.prems by simp
qed

lemma burst:
  assumes "valid t" and "latest s = None" and "list_all valid ts"
    and "successively (\<lambda>a b. b - a \<le> gap) (t # ts)" and "Suc (length ts) < cap"
  shows "count (fold (\<lambda>u s. snd (bump u s)) (t # ts) s) = Suc (length ts)"
  using assms burst_from [of t "snd (bump t s)" ts]
  by (simp add: count_bump latest_bump bump_first)

end

subsection \<open>Functional refinement\<close>

text \<open>Running operations and collecting what they return.\<close>

primrec run_ops :: "('o \<Rightarrow> 's \<Rightarrow> 'r \<times> 's) \<Rightarrow> 'o list \<Rightarrow> 's \<Rightarrow> 'r list \<times> 's" where
  "run_ops f [] s = ([], s)"
| "run_ops f (p # ps) s =
     (let (r, s') = f p s; (rs, s'') = run_ops f ps s' in (r # rs, s''))"

locale refines =
  fixes conc :: "'o \<Rightarrow> 's \<Rightarrow> 'r \<times> 's"
    and spec :: "'o \<Rightarrow> 'a \<Rightarrow> 'r \<times> 'a"
    and rel :: "'s \<Rightarrow> 'a \<Rightarrow> bool"
    and ok :: "'s \<Rightarrow> bool"
  assumes simulation: "rel s a \<Longrightarrow> ok s \<Longrightarrow>
      fst (conc p s) = fst (spec p a) \<and> rel (snd (conc p s)) (snd (spec p a))"
begin

lemma run_refines:
  "rel s a \<Longrightarrow> (\<And>k. k < length ps \<Longrightarrow> ok (snd (run_ops conc (take k ps) s))) \<Longrightarrow>
   fst (run_ops conc ps s) = fst (run_ops spec ps a) \<and>
   rel (snd (run_ops conc ps s)) (snd (run_ops spec ps a))"
proof (induction ps arbitrary: s a)
  case Nil
  then show ?case by simp
next
  case (Cons p ps)
  have "ok s"
    using Cons.prems(2) [of 0] by simp
  with Cons.prems(1) have sim: "fst (conc p s) = fst (spec p a)"
      "rel (snd (conc p s)) (snd (spec p a))"
    by (simp_all add: simulation)
  have "ok (snd (run_ops conc (take k ps) (snd (conc p s))))" if "k < length ps" for k
    using Cons.prems(2) [of "Suc k"] that by (simp add: case_prod_beta)
  with Cons.IH [OF sim(2)] sim(1) show ?case
    by (simp add: case_prod_beta)
qed

end

end
