(* ===== verification/Lifecycle_States.thy ===== *)
theory Lifecycle_States
  imports Kernel_Prelude
begin

text \<open>
  src/lifecycle: \<open>phase.rs\<close>, \<open>state.rs\<close> and \<open>transition.rs\<close>. The phases, the fine-grained kernel
  states, and the 8 x 8 matrix of legal transitions built cell by cell as the source builds it.
  The documented edge list is the relation \<open>legal_edge\<close>; the matrix is proved to be it.
\<close>

section \<open>Phases\<close>

datatype Phase = Idle | Boot | Load | Exec | Shutdown

fun Phase_as_str :: "Phase \<Rightarrow> string" where
  "Phase_as_str Idle = ''idle''"
| "Phase_as_str Boot = ''boot''"
| "Phase_as_str Load = ''load''"
| "Phase_as_str Exec = ''exec''"
| "Phase_as_str Shutdown = ''shutdown''"

fun Phase_ordinal :: "Phase \<Rightarrow> u8" where
  "Phase_ordinal Idle = 0"
| "Phase_ordinal Boot = 1"
| "Phase_ordinal Load = 2"
| "Phase_ordinal Exec = 3"
| "Phase_ordinal Shutdown = 4"

definition Phase_default :: Phase where
  "Phase_default = Idle"

fun Phase_fmt :: "Phase \<Rightarrow> string" where
  "Phase_fmt Idle = ''IDLE''"
| "Phase_fmt Boot = ''BOOT''"
| "Phase_fmt Load = ''LOAD''"
| "Phase_fmt Exec = ''EXEC''"
| "Phase_fmt Shutdown = ''SHUTDOWN''"

lemma Phase_as_str_inj: "Phase_as_str p = Phase_as_str q \<longleftrightarrow> p = q"
  by (cases p; cases q) auto

lemma Phase_ordinal_inj: "Phase_ordinal p = Phase_ordinal q \<longleftrightarrow> p = q"
  by (cases p; cases q) auto

section \<open>Kernel states\<close>

datatype KernelState =
  Created | Booting | Loading | Running | Degraded | Stopping | Stopped | Failed

fun KernelState_as_str :: "KernelState \<Rightarrow> string" where
  "KernelState_as_str Created = ''created''"
| "KernelState_as_str Booting = ''booting''"
| "KernelState_as_str Loading = ''loading''"
| "KernelState_as_str Running = ''running''"
| "KernelState_as_str Degraded = ''degraded''"
| "KernelState_as_str Stopping = ''stopping''"
| "KernelState_as_str Stopped = ''stopped''"
| "KernelState_as_str Failed = ''failed''"

fun KernelState_phase :: "KernelState \<Rightarrow> Phase" where
  "KernelState_phase Created = Idle"
| "KernelState_phase Booting = Boot"
| "KernelState_phase Loading = Load"
| "KernelState_phase Running = Exec"
| "KernelState_phase Degraded = Exec"
| "KernelState_phase Stopping = Shutdown"
| "KernelState_phase Stopped = Shutdown"
| "KernelState_phase Failed = Shutdown"

fun KernelState_is_terminal :: "KernelState \<Rightarrow> bool" where
  "KernelState_is_terminal Stopped = True"
| "KernelState_is_terminal Failed = True"
| "KernelState_is_terminal _ = False"

fun KernelState_is_running :: "KernelState \<Rightarrow> bool" where
  "KernelState_is_running Running = True"
| "KernelState_is_running Degraded = True"
| "KernelState_is_running _ = False"

definition KernelState_default :: KernelState where
  "KernelState_default = Created"

fun KernelState_fmt :: "KernelState \<Rightarrow> string" where
  "KernelState_fmt Created = ''CREATED''"
| "KernelState_fmt Booting = ''BOOTING''"
| "KernelState_fmt Loading = ''LOADING''"
| "KernelState_fmt Running = ''RUNNING''"
| "KernelState_fmt Degraded = ''DEGRADED''"
| "KernelState_fmt Stopping = ''STOPPING''"
| "KernelState_fmt Stopped = ''STOPPED''"
| "KernelState_fmt Failed = ''FAILED''"

definition all_states :: "KernelState list" where
  "all_states = [Created, Booting, Loading, Running, Degraded, Stopping, Stopped, Failed]"

lemma all_states_complete [simp]: "s \<in> set all_states"
  by (cases s) (simp_all add: all_states_def)

lemma KernelState_as_str_inj: "KernelState_as_str s = KernelState_as_str t \<longleftrightarrow> s = t"
  by (cases s; cases t) auto

lemma terminal_not_running: "KernelState_is_terminal s \<Longrightarrow> \<not> KernelState_is_running s"
  by (cases s) auto

section \<open>Legal transitions\<close>

text \<open>\<open>state as usize\<close>: the discriminant, that is the position in the declaration.\<close>

fun idx :: "KernelState \<Rightarrow> nat" where
  "idx Created = 0"
| "idx Booting = 1"
| "idx Loading = 2"
| "idx Running = 3"
| "idx Degraded = 4"
| "idx Stopping = 5"
| "idx Stopped = 6"
| "idx Failed = 7"

definition N_STATES :: nat where
  "N_STATES = 8"

definition allow :: "KernelState \<times> KernelState \<Rightarrow> bool list list \<Rightarrow> bool list list" where
  "allow ft t = t[idx (fst ft) := (t ! idx (fst ft))[idx (snd ft) := True]]"

definition LEGAL_TRANSITIONS :: "bool list list" where
  "LEGAL_TRANSITIONS = fold allow
     [(Created, Booting),
      (Booting, Loading), (Booting, Failed),
      (Loading, Running), (Loading, Failed),
      (Running, Degraded), (Running, Stopping), (Running, Failed),
      (Degraded, Running), (Degraded, Stopping), (Degraded, Failed),
      (Stopping, Stopped), (Stopping, Failed)]
     (replicate N_STATES (replicate N_STATES False))"

definition is_legal :: "KernelState \<Rightarrow> KernelState \<Rightarrow> bool" where
  "is_legal f t = LEGAL_TRANSITIONS ! idx f ! idx t"

record TransitionError =
  te_from :: KernelState
  te_to :: KernelState

definition assert_legal :: "KernelState \<Rightarrow> KernelState \<Rightarrow> TransitionError + unit" where
  "assert_legal f t =
     (if is_legal f t then Inr () else Inl \<lparr>te_from = f, te_to = t\<rparr>)"

text \<open>\<open>Display\<close> of the error; \<open>prefix\<close> is what the translation crate returns.\<close>

definition TransitionError_fmt :: "string \<Rightarrow> TransitionError \<Rightarrow> string" where
  "TransitionError_fmt pre e =
     pre @ '': '' @ KernelState_fmt (te_from e) @ '' -> '' @ KernelState_fmt (te_to e)"

text \<open>The edges as the module documentation lists them.\<close>

inductive legal_edge :: "KernelState \<Rightarrow> KernelState \<Rightarrow> bool" where
  begin_boot: "legal_edge Created Booting"
| begin_load: "legal_edge Booting Loading"
| begin_exec: "legal_edge Loading Running"
| degrade: "legal_edge Running Degraded"
| recover: "legal_edge Degraded Running"
| stop: "KernelState_is_running s \<Longrightarrow> legal_edge s Stopping"
| stopped: "legal_edge Stopping Stopped"
| fail: "\<not> KernelState_is_terminal s \<Longrightarrow> s \<noteq> Created \<Longrightarrow> legal_edge s Failed"

inductive_simps legal_edge_to: "legal_edge s t"

lemma LEGAL_TRANSITIONS_rows:
  "LEGAL_TRANSITIONS =
    [[False, True, False, False, False, False, False, False],
     [False, False, True, False, False, False, False, True],
     [False, False, False, True, False, False, False, True],
     [False, False, False, False, True, True, False, True],
     [False, False, False, True, False, True, False, True],
     [False, False, False, False, False, False, True, True],
     [False, False, False, False, False, False, False, False],
     [False, False, False, False, False, False, False, False]]"
  by (simp add: LEGAL_TRANSITIONS_def allow_def N_STATES_def eval_nat_numeral)

lemma is_legal_iff_edge: "is_legal f t \<longleftrightarrow> legal_edge f t"
  by (cases f; cases t) (simp_all add: is_legal_def LEGAL_TRANSITIONS_rows legal_edge_to)

lemma terminal_no_exit: "KernelState_is_terminal s \<Longrightarrow> \<not> is_legal s t"
  by (cases s; cases t) (simp_all add: is_legal_def LEGAL_TRANSITIONS_rows)

lemma no_self_loop: "\<not> is_legal s s"
  by (cases s) (simp_all add: is_legal_def LEGAL_TRANSITIONS_rows)

text \<open>No legal transition moves the kernel back to an earlier phase.\<close>

lemma legal_phase_mono:
  "is_legal f t \<Longrightarrow> Phase_ordinal (KernelState_phase f) \<le> Phase_ordinal (KernelState_phase t)"
  by (cases f; cases t) (simp_all add: is_legal_def LEGAL_TRANSITIONS_rows)

lemma created_unreachable: "\<not> is_legal s Created"
  by (cases s) (simp_all add: is_legal_def LEGAL_TRANSITIONS_rows)

text \<open>Every state that is not terminal can still reach both ends of the machine, or fail.\<close>

lemma legal_progress: "\<not> KernelState_is_terminal s \<Longrightarrow> \<exists>t. is_legal s t"
  by (cases s) (auto simp: is_legal_iff_edge intro: legal_edge.intros)

lemma can_fail: "\<not> KernelState_is_terminal s \<Longrightarrow> is_legal\<^sup>+\<^sup>+ s Failed"
proof (cases "s = Created")
  case True
  have "is_legal Created Booting" and "is_legal Booting Failed"
    by (simp_all add: is_legal_iff_edge legal_edge_to)
  with True show ?thesis
    by (auto intro: tranclp.trancl_into_trancl tranclp.r_into_trancl)
next
  case False
  moreover assume "\<not> KernelState_is_terminal s"
  ultimately have "is_legal s Failed"
    by (simp add: is_legal_iff_edge legal_edge.fail)
  then show ?thesis
    by (rule tranclp.r_into_trancl)
qed

end
