(* ===== verification/Primitives.thy ===== *)
theory Primitives
  imports Kernel_Prelude
begin

text \<open>
  src/primitives: \<open>time.rs\<close> (the instant wrapper, deadlines, intervals), \<open>id.rs\<close> (typed
  identifiers and their generator) and \<open>global.rs\<close> (the write-once cell).

  A \<open>Duration\<close> is its number of nanoseconds, at most \<open>duration_max\<close>. An \<open>Instant\<close> is a signed
  number of nanoseconds on the monotonic clock; the standard library keeps whole seconds in an
  \<open>i64\<close>, so the representable instants are those from \<open>instant_min\<close> to \<open>instant_max\<close>.
  Every reading of a clock is an argument of the operation that makes it.
\<close>

section \<open>Time\<close>

type_synonym duration = nat
type_synonym instant = int

definition nanos_per_sec :: nat where
  "nanos_per_sec = 1000000000"

definition duration_max :: duration where
  "duration_max = 2 ^ 64 * nanos_per_sec - 1"

definition instant_min :: instant where
  "instant_min = - (2 ^ 63) * int nanos_per_sec"

definition instant_max :: instant where
  "instant_max = 2 ^ 63 * int nanos_per_sec - 1"

definition from_secs :: "u64 \<Rightarrow> duration" where
  "from_secs s = unat s * nanos_per_sec"

definition from_millis :: "u64 \<Rightarrow> duration" where
  "from_millis ms = unat ms * 1000000"

definition from_nanos :: "u64 \<Rightarrow> duration" where
  "from_nanos n = unat n"

text \<open>\<open>Duration::as_nanos\<close> is a \<open>u128\<close>; \<open>Duration::new\<close> takes whole seconds and nanoseconds.\<close>

definition as_nanos :: "duration \<Rightarrow> u128" where
  "as_nanos d = word_of_nat d"

definition duration_new :: "u64 \<Rightarrow> u32 \<Rightarrow> duration" where
  "duration_new secs nanos = unat secs * nanos_per_sec + unat nanos"

lemma duration_max_value: "duration_max = 18446744073709551615999999999"
  by (simp add: duration_max_def nanos_per_sec_def)

lemma from_secs_max: "from_secs s \<le> duration_max"
  using unsigned_less [of s, where 'a = nat] by (simp add: from_secs_def duration_max_value nanos_per_sec_def)

lemma duration_max_u128: "d \<le> duration_max \<Longrightarrow> d < 2 ^ 128"
  by (simp add: duration_max_value)

lemma unat_as_nanos: "d \<le> duration_max \<Longrightarrow> unat (as_nanos d) = d"
  unfolding as_nanos_def by (rule of_nat_inverse [OF refl]) (simp add: duration_max_value)

definition Instant_duration_since :: "instant \<Rightarrow> instant \<Rightarrow> duration" where
  "Instant_duration_since self earlier = nat (self - earlier)"

definition Instant_elapsed :: "instant \<Rightarrow> instant \<Rightarrow> duration" where
  "Instant_elapsed now self = Instant_duration_since now self"

definition Instant_checked_add :: "instant \<Rightarrow> duration \<Rightarrow> instant option" where
  "Instant_checked_add self d =
     (if self + int d \<le> instant_max then Some (self + int d) else None)"

definition Instant_checked_sub :: "instant \<Rightarrow> duration \<Rightarrow> instant option" where
  "Instant_checked_sub self d =
     (if instant_min \<le> self - int d then Some (self - int d) else None)"

text \<open>\<open>std\<close>'s \<open>Instant + Duration\<close>: the checked sum, or a panic (\<open>None\<close>).\<close>

definition instant_plus :: "instant \<Rightarrow> duration \<Rightarrow> instant option" where
  "instant_plus = Instant_checked_add"

text \<open>\<open>std\<close>'s \<open>checked_duration_since\<close>: \<open>None\<close> when \<open>earlier\<close> is in fact later.\<close>

definition checked_duration_since :: "instant \<Rightarrow> instant \<Rightarrow> duration option" where
  "checked_duration_since self earlier =
     (if earlier \<le> self then Some (nat (self - earlier)) else None)"

record Deadline =
  dl_instant :: instant

definition Deadline_new :: "instant \<Rightarrow> Deadline" where
  "Deadline_new at = \<lparr>dl_instant = at\<rparr>"

definition Deadline_from_now :: "instant \<Rightarrow> duration \<Rightarrow> Deadline" where
  "Deadline_from_now now d =
     \<lparr>dl_instant = (case Instant_checked_add now d of Some t \<Rightarrow> t | None \<Rightarrow> now)\<rparr>"

definition Deadline_is_expired :: "instant \<Rightarrow> Deadline \<Rightarrow> bool" where
  "Deadline_is_expired now dl \<longleftrightarrow> dl_instant dl \<le> now"

definition Deadline_remaining :: "instant \<Rightarrow> Deadline \<Rightarrow> duration option" where
  "Deadline_remaining now dl =
     (if dl_instant dl \<le> now then None
      else Some (Instant_duration_since (dl_instant dl) now))"

record Interval =
  iv_period :: duration

definition Interval_new :: "duration \<Rightarrow> Interval" where
  "Interval_new p = \<lparr>iv_period = p\<rparr>"

lemmas time_defs = Instant_duration_since_def Instant_elapsed_def Instant_checked_add_def
  Instant_checked_sub_def instant_plus_def checked_duration_since_def

lemmas deadline_defs = Deadline_new_def Deadline_from_now_def Deadline_is_expired_def
  Deadline_remaining_def

lemma checked_add_sub:
  "Instant_checked_add t d = Some u \<Longrightarrow> instant_min \<le> t \<Longrightarrow> Instant_checked_sub u d = Some t"
  by (auto simp: time_defs split: if_splits)

lemma remaining_iff_not_expired:
  "Deadline_remaining now dl = None \<longleftrightarrow> Deadline_is_expired now dl"
  by (simp add: deadline_defs)

text \<open>
  A deadline made from a duration that fits is live for exactly that long; one that would
  overflow the clock is expired from the start.
\<close>

lemma from_now_countdown:
  assumes "now + int d \<le> instant_max" and "now \<le> later"
  shows "Deadline_remaining later (Deadline_from_now now d) =
    (if int d \<le> later - now then None else Some (d - nat (later - now)))"
  using assms by (auto simp: deadline_defs time_defs nat_diff_distrib')

lemma from_now_overflow:
  "instant_max < now + int d \<Longrightarrow> Deadline_is_expired now (Deadline_from_now now d)"
  by (simp add: deadline_defs time_defs)

section \<open>Identifiers\<close>

datatype KernelId = KernelId (KernelId_as_u64: u64)
datatype WorkerId = WorkerId (WorkerId_as_u64: u64)
datatype SubsystemId = SubsystemId (SubsystemId_as_u64: u64)

text \<open>\<open>from_raw\<close> is the constructor, \<open>as_u64\<close> the selector. \<open>Display\<close> writes the name of the type and the number.\<close>

fun decimal :: "nat \<Rightarrow> string" where
  "decimal n = (if n < 10 then [char_of (48 + n)] else decimal (n div 10) @ [char_of (48 + n mod 10)])"

declare decimal.simps [simp del]

definition KernelId_fmt :: "KernelId \<Rightarrow> string" where
  "KernelId_fmt i = ''KernelId('' @ decimal (unat (KernelId_as_u64 i)) @ '')''"

definition WorkerId_fmt :: "WorkerId \<Rightarrow> string" where
  "WorkerId_fmt i = ''WorkerId('' @ decimal (unat (WorkerId_as_u64 i)) @ '')''"

definition SubsystemId_fmt :: "SubsystemId \<Rightarrow> string" where
  "SubsystemId_fmt i = ''SubsystemId('' @ decimal (unat (SubsystemId_as_u64 i)) @ '')''"

record IdGenerator =
  ig_next :: u64

definition IdGenerator_new :: IdGenerator where
  "IdGenerator_new = \<lparr>ig_next = 0\<rparr>"

text \<open>\<open>fetch_add(1)\<close>: the old value is returned and the cell wraps around at the width.\<close>

definition id_fetch_add :: "IdGenerator \<Rightarrow> u64 \<times> IdGenerator" where
  "id_fetch_add g = (ig_next g, g\<lparr>ig_next := ig_next g + 1\<rparr>)"

definition next_kernel_id :: "IdGenerator \<Rightarrow> KernelId \<times> IdGenerator" where
  "next_kernel_id g = (let (v, g') = id_fetch_add g in (KernelId v, g'))"

definition next_worker_id :: "IdGenerator \<Rightarrow> WorkerId \<times> IdGenerator" where
  "next_worker_id g = (let (v, g') = id_fetch_add g in (WorkerId v, g'))"

definition next_subsystem_id :: "IdGenerator \<Rightarrow> SubsystemId \<times> IdGenerator" where
  "next_subsystem_id g = (let (v, g') = id_fetch_add g in (SubsystemId v, g'))"

text \<open>The identifiers handed out by \<open>n\<close> calls, in order.\<close>

primrec take_ids :: "nat \<Rightarrow> IdGenerator \<Rightarrow> u64 list \<times> IdGenerator" where
  "take_ids 0 g = ([], g)"
| "take_ids (Suc n) g =
     (let (v, g') = id_fetch_add g; (vs, g'') = take_ids n g' in (v # vs, g''))"

lemma take_ids_eq:
  "take_ids n g =
     (map (\<lambda>k. ig_next g + word_of_nat k) [0..<n], g\<lparr>ig_next := ig_next g + word_of_nat n\<rparr>)"
proof (induction n arbitrary: g)
  case 0
  then show ?case by simp
next
  case (Suc n)
  have "[0..<Suc n] = 0 # map Suc [0..<n]"
    by (simp add: map_Suc_upt upt_conv_Cons)
  then show ?case
    by (simp add: id_fetch_add_def Suc.IH algebra_simps)
qed

lemma word_of_nat_inj_below:
  "inj_on (word_of_nat :: nat \<Rightarrow> 'a::len word) {..<2 ^ LENGTH('a)}"
  by (rule inj_onI) (auto simp: word_of_nat_eq_iff take_bit_eq_mod)

lemma take_ids_distinct: "n \<le> 2 ^ 64 \<Longrightarrow> distinct (fst (take_ids n g))"
  using inj_onD [OF word_of_nat_inj_below [where 'a = 64]]
  by (auto simp: take_ids_eq distinct_map intro!: inj_onI)

lemma take_ids_wrap: "fst (take_ids (Suc (2 ^ 64)) g) ! (2 ^ 64) = ig_next g"
proof -
  have "(word_of_nat (2 ^ 64) :: u64) = 0"
    by (simp add: word_of_nat_eq_0_iff)
  then show ?thesis
    by (simp only: take_ids_eq fst_conv nth_map length_upt nth_upt) simp
qed

section \<open>Write-once cells\<close>

text \<open>\<open>Global<T>\<close> wraps \<open>std\<close>'s \<open>OnceLock\<close>: a refused \<open>set\<close> hands the value back.\<close>

type_synonym 'a Global = "'a option"

definition Global_new :: "'a Global" where
  "Global_new = None"

definition Global_set :: "'a \<Rightarrow> 'a Global \<Rightarrow> ('a + unit) \<times> 'a Global" where
  "Global_set v g = (case g of None \<Rightarrow> (Inr (), Some v) | Some _ \<Rightarrow> (Inl v, g))"

definition Global_try_set :: "'a \<Rightarrow> 'a Global \<Rightarrow> ('a + unit) \<times> 'a Global" where
  "Global_try_set v g = (case g of None \<Rightarrow> (Inr (), Some v) | Some _ \<Rightarrow> (Inl v, g))"

definition Global_get :: "'a Global \<Rightarrow> 'a option" where
  "Global_get g = g"

text \<open>\<open>get_unchecked\<close> panics on an empty cell: \<open>Inl\<close> is the panic message.\<close>

definition Global_get_unchecked :: "string \<Rightarrow> 'a Global \<Rightarrow> string + 'a" where
  "Global_get_unchecked msg g = (case g of Some v \<Rightarrow> Inr v | None \<Rightarrow> Inl msg)"

definition Global_is_initialized :: "'a Global \<Rightarrow> bool" where
  "Global_is_initialized g \<longleftrightarrow> Global_get g \<noteq> None"

lemmas global_defs = Global_new_def Global_set_def Global_try_set_def Global_get_def
  Global_get_unchecked_def Global_is_initialized_def

lemma fold_set_initialized: "fold (\<lambda>v g. snd (Global_set v g)) vs (Some x) = Some x"
  by (induction vs) (simp_all add: global_defs)

lemma set_is_try_set: "Global_set = Global_try_set"
  by (intro ext) (simp add: global_defs)

end
