(* ===== verification/Errors.thy ===== *)
theory Errors
  imports Lifecycle_States Primitives
begin

text \<open>
  src/errors: \<open>severity.rs\<close>, \<open>action.rs\<close>, \<open>classifier.rs\<close>, \<open>registry.rs\<close> and
  \<open>kernel_error.rs\<close>. A boxed source error is known only through its \<open>Display\<close> text, so \<open>BoxError\<close>
  is a string; a classifier is any function from errors to classifications.
\<close>

section \<open>Severity\<close>

datatype Severity = Debug | Info | Warning | Error | Critical | Fatal

fun Severity_as_str :: "Severity \<Rightarrow> string" where
  "Severity_as_str Debug = ''debug''"
| "Severity_as_str Info = ''info''"
| "Severity_as_str Warning = ''warning''"
| "Severity_as_str Error = ''error''"
| "Severity_as_str Critical = ''critical''"
| "Severity_as_str Fatal = ''fatal''"

fun Severity_ordinal :: "Severity \<Rightarrow> u8" where
  "Severity_ordinal Debug = 0"
| "Severity_ordinal Info = 1"
| "Severity_ordinal Warning = 2"
| "Severity_ordinal Error = 3"
| "Severity_ordinal Critical = 4"
| "Severity_ordinal Fatal = 5"

definition Severity_default :: Severity where
  "Severity_default = Error"

fun Severity_fmt :: "Severity \<Rightarrow> string" where
  "Severity_fmt Debug = ''DEBUG''"
| "Severity_fmt Info = ''INFO''"
| "Severity_fmt Warning = ''WARNING''"
| "Severity_fmt Error = ''ERROR''"
| "Severity_fmt Critical = ''CRITICAL''"
| "Severity_fmt Fatal = ''FATAL''"

lemma Severity_as_str_inj: "Severity_as_str s = Severity_as_str t \<longleftrightarrow> s = t"
  by (cases s; cases t) auto

lemma Severity_ordinal_inj: "Severity_ordinal s = Severity_ordinal t \<longleftrightarrow> s = t"
  by (cases s; cases t) auto

text \<open>The derived \<open>Ord\<close> compares positions in the declaration, which \<open>ordinal\<close> makes explicit.\<close>

instantiation Severity :: linorder
begin

definition less_eq_Severity :: "Severity \<Rightarrow> Severity \<Rightarrow> bool" where
  "s \<le> t \<longleftrightarrow> Severity_ordinal s \<le> Severity_ordinal t"

definition less_Severity :: "Severity \<Rightarrow> Severity \<Rightarrow> bool" where
  "s < t \<longleftrightarrow> Severity_ordinal s < Severity_ordinal t"

instance
proof
  fix s t u :: Severity
  show "s < t \<longleftrightarrow> s \<le> t \<and> \<not> t \<le> s"
    by (auto simp: less_eq_Severity_def less_Severity_def)
  show "s \<le> s"
    by (simp add: less_eq_Severity_def)
  show "s \<le> t \<Longrightarrow> t \<le> u \<Longrightarrow> s \<le> u"
    by (simp add: less_eq_Severity_def)
  show "s \<le> t \<Longrightarrow> t \<le> s \<Longrightarrow> s = t"
    by (simp add: less_eq_Severity_def flip: Severity_ordinal_inj)
  show "s \<le> t \<or> t \<le> s"
    by (auto simp: less_eq_Severity_def)
qed

end

section \<open>Actions\<close>

datatype ErrorAction =
  LogOnly | EmitEvent | MarkWorkerDegraded | MarkServiceDegraded | RestartWorker | OpenCircuit
  | EnterReadOnlyMode | BeginShutdown | AbortProcess

fun ErrorAction_as_str :: "ErrorAction \<Rightarrow> string" where
  "ErrorAction_as_str LogOnly = ''log_only''"
| "ErrorAction_as_str EmitEvent = ''emit_event''"
| "ErrorAction_as_str MarkWorkerDegraded = ''mark_worker_degraded''"
| "ErrorAction_as_str MarkServiceDegraded = ''mark_service_degraded''"
| "ErrorAction_as_str RestartWorker = ''restart_worker''"
| "ErrorAction_as_str OpenCircuit = ''open_circuit''"
| "ErrorAction_as_str EnterReadOnlyMode = ''enter_read_only_mode''"
| "ErrorAction_as_str BeginShutdown = ''begin_shutdown''"
| "ErrorAction_as_str AbortProcess = ''abort_process''"

fun ErrorAction_is_terminal :: "ErrorAction \<Rightarrow> bool" where
  "ErrorAction_is_terminal BeginShutdown = True"
| "ErrorAction_is_terminal AbortProcess = True"
| "ErrorAction_is_terminal _ = False"

definition ErrorAction_default :: ErrorAction where
  "ErrorAction_default = LogOnly"

fun ErrorAction_fmt :: "ErrorAction \<Rightarrow> string" where
  "ErrorAction_fmt LogOnly = ''LOG_ONLY''"
| "ErrorAction_fmt EmitEvent = ''EMIT_EVENT''"
| "ErrorAction_fmt MarkWorkerDegraded = ''MARK_WORKER_DEGRADED''"
| "ErrorAction_fmt MarkServiceDegraded = ''MARK_SERVICE_DEGRADED''"
| "ErrorAction_fmt RestartWorker = ''RESTART_WORKER''"
| "ErrorAction_fmt OpenCircuit = ''OPEN_CIRCUIT''"
| "ErrorAction_fmt EnterReadOnlyMode = ''ENTER_READ_ONLY_MODE''"
| "ErrorAction_fmt BeginShutdown = ''BEGIN_SHUTDOWN''"
| "ErrorAction_fmt AbortProcess = ''ABORT_PROCESS''"

lemma ErrorAction_as_str_inj: "ErrorAction_as_str a = ErrorAction_as_str b \<longleftrightarrow> a = b"
  by (cases a; cases b) auto

section \<open>Classification\<close>

record Classification =
  cl_severity :: Severity
  cl_action :: ErrorAction
  cl_event_topic :: "string option"

definition Classification_default :: Classification where
  "Classification_default =
     \<lparr>cl_severity = Error, cl_action = LogOnly, cl_event_topic = None\<rparr>"

text \<open>A classifier is consumer code: a function of the error.\<close>

type_synonym 'e ErrorClassifier = "'e \<Rightarrow> Classification"

definition NoopClassifier :: "'e ErrorClassifier" where
  "NoopClassifier err = Classification_default"

record 'e ErrorRegistry =
  er_classifier :: "'e ErrorClassifier"

definition ErrorRegistry_new :: "'e ErrorRegistry" where
  "ErrorRegistry_new = \<lparr>er_classifier = NoopClassifier\<rparr>"

definition ErrorRegistry_with_classifier :: "'e ErrorClassifier \<Rightarrow> 'e ErrorRegistry" where
  "ErrorRegistry_with_classifier c = \<lparr>er_classifier = c\<rparr>"

definition ErrorRegistry_set_classifier ::
    "'e ErrorClassifier \<Rightarrow> 'e ErrorRegistry \<Rightarrow> 'e ErrorRegistry" where
  "ErrorRegistry_set_classifier c r = r\<lparr>er_classifier := c\<rparr>"

definition ErrorRegistry_classify :: "'e ErrorRegistry \<Rightarrow> 'e \<Rightarrow> Classification" where
  "ErrorRegistry_classify r err = er_classifier r err"

text \<open>\<open>ErrorHandle::classify\<close> forwards to the registry the handle shares.\<close>

definition ErrorHandle_classify :: "'e ErrorRegistry \<Rightarrow> 'e \<Rightarrow> Classification" where
  "ErrorHandle_classify inner err = ErrorRegistry_classify inner err"

lemmas registry_defs = ErrorRegistry_new_def ErrorRegistry_with_classifier_def
  ErrorRegistry_set_classifier_def ErrorRegistry_classify_def NoopClassifier_def

section \<open>Kernel errors\<close>

datatype KernelErrorCode =
  LifecycleIllegalTransition | SubsystemBootFailed | SubsystemDependencyMissing
  | WorkerSpawnFailed | ConfigInvalid | ShutdownTimeout | Internal

fun KernelErrorCode_as_u32 :: "KernelErrorCode \<Rightarrow> u32" where
  "KernelErrorCode_as_u32 LifecycleIllegalTransition = 10001"
| "KernelErrorCode_as_u32 SubsystemBootFailed = 20001"
| "KernelErrorCode_as_u32 SubsystemDependencyMissing = 20002"
| "KernelErrorCode_as_u32 WorkerSpawnFailed = 30001"
| "KernelErrorCode_as_u32 ConfigInvalid = 40001"
| "KernelErrorCode_as_u32 ShutdownTimeout = 50001"
| "KernelErrorCode_as_u32 Internal = 90001"

lemma KernelErrorCode_as_u32_inj: "KernelErrorCode_as_u32 c = KernelErrorCode_as_u32 d \<longleftrightarrow> c = d"
  by (cases c; cases d) auto

type_synonym BoxError = string

datatype KernelError =
  KE_Lifecycle KernelErrorCode TransitionError
| KE_Subsystem KernelErrorCode string BoxError
| KE_Worker KernelErrorCode WorkerId BoxError
| KE_Config KernelErrorCode BoxError
| KE_Shutdown KernelErrorCode BoxError
| KE_Internal KernelErrorCode string

fun KernelError_code :: "KernelError \<Rightarrow> KernelErrorCode" where
  "KernelError_code (KE_Lifecycle code _) = code"
| "KernelError_code (KE_Subsystem code _ _) = code"
| "KernelError_code (KE_Worker code _ _) = code"
| "KernelError_code (KE_Config code _) = code"
| "KernelError_code (KE_Shutdown code _) = code"
| "KernelError_code (KE_Internal code _) = code"

fun KernelError_category :: "KernelError \<Rightarrow> string" where
  "KernelError_category (KE_Lifecycle _ _) = ''lifecycle''"
| "KernelError_category (KE_Subsystem _ _ _) = ''subsystem''"
| "KernelError_category (KE_Worker _ _ _) = ''worker''"
| "KernelError_category (KE_Config _ _) = ''config''"
| "KernelError_category (KE_Shutdown _ _) = ''shutdown''"
| "KernelError_category (KE_Internal _ _) = ''internal''"

text \<open>The \<open>{:05}\<close> padding of the fallback text.\<close>

definition pad5 :: "nat \<Rightarrow> string" where
  "pad5 n = (let s = decimal n in replicate (5 - length s) (CHR ''0'') @ s)"

definition KernelError_key :: "KernelError \<Rightarrow> string" where
  "KernelError_key e =
     ''kernel.error.'' @ KernelError_category e @ ''.'' @
       decimal (unat (KernelErrorCode_as_u32 (KernelError_code e)))"

definition KernelError_fallback :: "KernelError \<Rightarrow> string" where
  "KernelError_fallback e =
     KernelError_category e @ '': KER-'' @
       pad5 (unat (KernelErrorCode_as_u32 (KernelError_code e)))"

text \<open>
  \<open>Display\<close>: \<open>translate key fallback\<close> is the translation crate's lookup; an \<open>Internal\<close> error
  with a message appends it.
\<close>

definition KernelError_fmt :: "(string \<Rightarrow> string \<Rightarrow> string) \<Rightarrow> KernelError \<Rightarrow> string" where
  "KernelError_fmt translate e =
     (let translated = translate (KernelError_key e) (KernelError_fallback e)
      in case e of
           KE_Internal _ message \<Rightarrow>
             (if message \<noteq> [] then translated @ '': '' @ message else translated)
         | _ \<Rightarrow> translated)"

datatype ErrorSource = SourceTransition TransitionError | SourceBox BoxError

fun KernelError_source :: "KernelError \<Rightarrow> ErrorSource option" where
  "KernelError_source (KE_Lifecycle _ src) = Some (SourceTransition src)"
| "KernelError_source (KE_Subsystem _ _ src) = Some (SourceBox src)"
| "KernelError_source (KE_Worker _ _ src) = Some (SourceBox src)"
| "KernelError_source (KE_Config _ src) = Some (SourceBox src)"
| "KernelError_source (KE_Shutdown _ src) = Some (SourceBox src)"
| "KernelError_source (KE_Internal _ _) = None"

lemma decimal_nonempty: "decimal n \<noteq> []"
  by (subst decimal.simps) simp

lemma char_of_inj_below: "m < 256 \<Longrightarrow> n < 256 \<Longrightarrow> (char_of m :: char) = char_of n \<longleftrightarrow> m = (n::nat)"
  by (metis of_char_of mod_less)

text \<open>Different numbers have different renderings.\<close>

lemma decimal_inj: "decimal m = decimal n \<Longrightarrow> m = n"
proof (induction m arbitrary: n rule: decimal.induct)
  case (1 m)
  have eq: "(if m < 10 then [char_of (48 + m)] else decimal (m div 10) @ [char_of (48 + m mod 10)])
      = (if n < 10 then [char_of (48 + n)] else decimal (n div 10) @ [char_of (48 + n mod 10)])"
    using "1.prems" by (simp add: decimal.simps [of m] decimal.simps [of n])
  consider "m < 10" "n < 10" | "m < 10" "10 \<le> n" | "10 \<le> m" "n < 10" | "10 \<le> m" "10 \<le> n"
    by linarith
  then show ?case
  proof cases
    case 4
    with eq have "decimal (m div 10) = decimal (n div 10)" and "m mod 10 = n mod 10"
      by (simp_all add: char_of_inj_below)
    with 4 "1.IH" [of "n div 10"] show ?thesis
      by (metis div_mult_mod_eq not_le)
  qed (use eq in \<open>simp_all add: char_of_inj_below decimal_nonempty decimal_nonempty [symmetric]\<close>)
qed

text \<open>The translation key tells the code: two errors share a key only if they share the code.\<close>

lemma KernelError_key_code:
  assumes "KernelError_key d = KernelError_key e"
  shows "KernelError_category d = KernelError_category e"
    and "KernelError_code d = KernelError_code e"
proof -
  have "KernelError_category d = KernelError_category e \<and>
      decimal (unat (KernelErrorCode_as_u32 (KernelError_code d))) =
      decimal (unat (KernelErrorCode_as_u32 (KernelError_code e)))"
    using assms by (cases d; cases e) (simp_all add: KernelError_key_def)
  then show "KernelError_category d = KernelError_category e"
    and "KernelError_code d = KernelError_code e"
    by (auto dest!: decimal_inj simp: KernelErrorCode_as_u32_inj word_unat_eq_iff [symmetric])
qed

end
