(* ===== verification/Health_Status.thy ===== *)
theory Health_Status
  imports Kernel_Prelude
begin

text \<open>
  src/health/status.rs. The derived \<open>Ord\<close> is the discriminant order, so \<open>H_Unknown\<close> is the worst
  status; the byte codec is the one the aggregate's atomic cell uses.
\<close>

datatype HealthStatus = H_Healthy | H_Degraded | H_Unhealthy | H_Critical | H_Unknown

fun HealthStatus_as_u8 :: "HealthStatus \<Rightarrow> u8" where
  "HealthStatus_as_u8 H_Healthy = 0"
| "HealthStatus_as_u8 H_Degraded = 1"
| "HealthStatus_as_u8 H_Unhealthy = 2"
| "HealthStatus_as_u8 H_Critical = 3"
| "HealthStatus_as_u8 H_Unknown = 4"

definition HealthStatus_from_u8 :: "u8 \<Rightarrow> HealthStatus" where
  "HealthStatus_from_u8 byte =
     (if byte = 0 then H_Healthy
      else if byte = 1 then H_Degraded
      else if byte = 2 then H_Unhealthy
      else if byte = 3 then H_Critical
      else H_Unknown)"

fun HealthStatus_as_str :: "HealthStatus \<Rightarrow> string" where
  "HealthStatus_as_str H_Healthy = ''healthy''"
| "HealthStatus_as_str H_Degraded = ''degraded''"
| "HealthStatus_as_str H_Unhealthy = ''unhealthy''"
| "HealthStatus_as_str H_Critical = ''critical''"
| "HealthStatus_as_str H_Unknown = ''unknown''"

definition HealthStatus_is_healthy :: "HealthStatus \<Rightarrow> bool" where
  "HealthStatus_is_healthy s \<longleftrightarrow> s = H_Healthy"

fun HealthStatus_is_actionable :: "HealthStatus \<Rightarrow> bool" where
  "HealthStatus_is_actionable H_Unhealthy = True"
| "HealthStatus_is_actionable H_Critical = True"
| "HealthStatus_is_actionable H_Unknown = True"
| "HealthStatus_is_actionable _ = False"

definition HealthStatus_default :: HealthStatus where
  "HealthStatus_default = H_Unknown"

fun HealthStatus_fmt :: "HealthStatus \<Rightarrow> string" where
  "HealthStatus_fmt H_Healthy = ''HEALTHY''"
| "HealthStatus_fmt H_Degraded = ''DEGRADED''"
| "HealthStatus_fmt H_Unhealthy = ''UNHEALTHY''"
| "HealthStatus_fmt H_Critical = ''CRITICAL''"
| "HealthStatus_fmt H_Unknown = ''UNKNOWN''"

interpretation health_cell: u8_codec HealthStatus_as_u8 HealthStatus_from_u8
proof
  fix s
  show "HealthStatus_from_u8 (HealthStatus_as_u8 s) = s"
    by (cases s) (simp_all add: HealthStatus_from_u8_def)
qed

declare health_cell.dec_enc [simp, cell_simps]

instantiation HealthStatus :: linorder
begin

definition less_eq_HealthStatus :: "HealthStatus \<Rightarrow> HealthStatus \<Rightarrow> bool" where
  "s \<le> t \<longleftrightarrow> HealthStatus_as_u8 s \<le> HealthStatus_as_u8 t"

definition less_HealthStatus :: "HealthStatus \<Rightarrow> HealthStatus \<Rightarrow> bool" where
  "s < t \<longleftrightarrow> HealthStatus_as_u8 s < HealthStatus_as_u8 t"

instance
proof
  fix s t u :: HealthStatus
  show "s < t \<longleftrightarrow> s \<le> t \<and> \<not> t \<le> s"
    by (auto simp: less_eq_HealthStatus_def less_HealthStatus_def)
  show "s \<le> s"
    by (simp add: less_eq_HealthStatus_def)
  show "s \<le> t \<Longrightarrow> t \<le> u \<Longrightarrow> s \<le> u"
    by (simp add: less_eq_HealthStatus_def)
  show "s \<le> t \<Longrightarrow> t \<le> s \<Longrightarrow> s = t"
    by (simp add: less_eq_HealthStatus_def flip: health_cell.enc_inj)
  show "s \<le> t \<or> t \<le> s"
    by (auto simp: less_eq_HealthStatus_def)
qed

end

lemmas HealthStatus_order = less_eq_HealthStatus_def less_HealthStatus_def

text \<open>\<open>H_Healthy\<close> is the neutral element and \<open>H_Unknown\<close> the top of "worst wins".\<close>

instantiation HealthStatus :: "{order_bot, order_top}"
begin

definition bot_HealthStatus :: HealthStatus where
  "bot = H_Healthy"

definition top_HealthStatus :: HealthStatus where
  "top = H_Unknown"

instance
proof
  fix s :: HealthStatus
  show "bot \<le> s"
    by (cases s) (simp_all add: bot_HealthStatus_def HealthStatus_order)
  show "s \<le> top"
    by (cases s) (simp_all add: top_HealthStatus_def HealthStatus_order)
qed

end

lemma Healthy_least [simp]: "H_Healthy \<le> s"
  using bot_least [of s] by (simp add: bot_HealthStatus_def)

lemma le_Healthy [simp]: "s \<le> H_Healthy \<longleftrightarrow> s = H_Healthy"
  by (auto intro: antisym)

lemma Unknown_greatest [simp]: "s \<le> H_Unknown"
  using top_greatest [of s] by (simp add: top_HealthStatus_def)

lemma max_Healthy [simp]: "max H_Healthy s = s" "max s H_Healthy = s"
  by (simp_all add: max_def antisym)

text \<open>
  \<open>Iterator::max\<close>, then \<open>unwrap_or(H_Healthy)\<close>: the worst of the values, \<open>H_Healthy\<close> if there are none.
\<close>

definition worst :: "HealthStatus list \<Rightarrow> HealthStatus" where
  "worst xs = fold max xs H_Healthy"

lemma fold_max: "fold max xs (s :: 'a::linorder) = max s (fold max xs s)"
proof (induction xs arbitrary: s)
  case (Cons x xs)
  then show ?case
    by (metis fold_simps(2) max.assoc max.commute max.idem)
qed simp

lemma worst_Nil [simp]: "worst [] = H_Healthy"
  by (simp add: worst_def)

lemma worst_Cons [simp]: "worst (x # xs) = max x (worst xs)"
proof (induction xs arbitrary: x)
  case Nil
  then show ?case by (simp add: worst_def)
next
  case (Cons y xs)
  have "worst (x # y # xs) = worst (max x y # xs)"
    by (simp add: worst_def max.commute)
  then show ?case
    using Cons [of "max x y"] Cons [of y] by (simp add: max.assoc)
qed

lemma worst_append [simp]: "worst (xs @ ys) = max (worst xs) (worst ys)"
  by (induction xs) (simp_all add: max.assoc)

lemma worst_ge: "s \<in> set xs \<Longrightarrow> s \<le> worst xs"
  by (induction xs) (auto simp: le_max_iff_disj)

lemma worst_in: "xs \<noteq> [] \<Longrightarrow> worst xs \<in> set xs"
proof (induction xs)
  case (Cons x xs)
  then show ?case
    by (cases "xs = []") (auto simp: max_def)
qed simp

lemma worst_eqI: "s \<in> set xs \<Longrightarrow> (\<And>t. t \<in> set xs \<Longrightarrow> t \<le> s) \<Longrightarrow> worst xs = s"
  by (metis antisym empty_iff empty_set worst_ge worst_in)

lemma worst_cong: "set xs = set ys \<Longrightarrow> worst xs = worst ys"
proof (cases "xs = []")
  case False
  assume eq: "set xs = set ys"
  then have "worst xs \<in> set ys" and "\<And>t. t \<in> set ys \<Longrightarrow> t \<le> worst xs"
    using worst_in [OF False] worst_ge [of _ xs] by auto
  then show ?thesis
    by (simp add: worst_eqI)
qed simp

end
