(* ===== verification/Worker_Types.thy ===== *)
theory Worker_Types
  imports Primitives
begin

text \<open>
  src/worker: the value types of \<open>criticality.rs\<close>, \<open>state.rs\<close>, \<open>panic.rs\<close>, \<open>event.rs\<close> and the
  error of \<open>traits.rs\<close>. A panic payload is the dynamic value the unwinder carries, seen through
  the two downcasts the code tries.
\<close>

section \<open>Criticality\<close>

datatype Criticality = Background | Optional | Essential | CriticalWorker

fun Criticality_as_str :: "Criticality \<Rightarrow> string" where
  "Criticality_as_str Background = ''background''"
| "Criticality_as_str Optional = ''optional''"
| "Criticality_as_str Essential = ''essential''"
| "Criticality_as_str CriticalWorker = ''critical''"

fun Criticality_ordinal :: "Criticality \<Rightarrow> u8" where
  "Criticality_ordinal Background = 0"
| "Criticality_ordinal Optional = 1"
| "Criticality_ordinal Essential = 2"
| "Criticality_ordinal CriticalWorker = 3"

definition Criticality_default :: Criticality where
  "Criticality_default = Optional"

fun Criticality_fmt :: "Criticality \<Rightarrow> string" where
  "Criticality_fmt Background = ''BACKGROUND''"
| "Criticality_fmt Optional = ''OPTIONAL''"
| "Criticality_fmt Essential = ''ESSENTIAL''"
| "Criticality_fmt CriticalWorker = ''CRITICAL''"

lemma Criticality_ordinal_inj: "Criticality_ordinal c = Criticality_ordinal d \<longleftrightarrow> c = d"
  by (cases c; cases d) auto

instantiation Criticality :: linorder
begin

definition less_eq_Criticality :: "Criticality \<Rightarrow> Criticality \<Rightarrow> bool" where
  "c \<le> d \<longleftrightarrow> Criticality_ordinal c \<le> Criticality_ordinal d"

definition less_Criticality :: "Criticality \<Rightarrow> Criticality \<Rightarrow> bool" where
  "c < d \<longleftrightarrow> Criticality_ordinal c < Criticality_ordinal d"

instance
proof
  fix c d e :: Criticality
  show "c < d \<longleftrightarrow> c \<le> d \<and> \<not> d \<le> c"
    by (auto simp: less_eq_Criticality_def less_Criticality_def)
  show "c \<le> c"
    by (simp add: less_eq_Criticality_def)
  show "c \<le> d \<Longrightarrow> d \<le> e \<Longrightarrow> c \<le> e"
    by (simp add: less_eq_Criticality_def)
  show "c \<le> d \<Longrightarrow> d \<le> c \<Longrightarrow> c = d"
    by (simp add: less_eq_Criticality_def flip: Criticality_ordinal_inj)
  show "c \<le> d \<or> d \<le> c"
    by (auto simp: less_eq_Criticality_def)
qed

end

section \<open>Worker states\<close>

datatype WorkerState =
  WCreated | WStarting | WRunning | WIdle | WBusy | WFailed | WRestarting | WStopping | WStopped

fun WorkerState_as_str :: "WorkerState \<Rightarrow> string" where
  "WorkerState_as_str WCreated = ''created''"
| "WorkerState_as_str WStarting = ''starting''"
| "WorkerState_as_str WRunning = ''running''"
| "WorkerState_as_str WIdle = ''idle''"
| "WorkerState_as_str WBusy = ''busy''"
| "WorkerState_as_str WFailed = ''failed''"
| "WorkerState_as_str WRestarting = ''restarting''"
| "WorkerState_as_str WStopping = ''stopping''"
| "WorkerState_as_str WStopped = ''stopped''"

fun WorkerState_is_terminal :: "WorkerState \<Rightarrow> bool" where
  "WorkerState_is_terminal WStopped = True"
| "WorkerState_is_terminal _ = False"

fun WorkerState_is_active :: "WorkerState \<Rightarrow> bool" where
  "WorkerState_is_active WRunning = True"
| "WorkerState_is_active WIdle = True"
| "WorkerState_is_active WBusy = True"
| "WorkerState_is_active _ = False"

fun WorkerState_as_u8 :: "WorkerState \<Rightarrow> u8" where
  "WorkerState_as_u8 WCreated = 0"
| "WorkerState_as_u8 WStarting = 1"
| "WorkerState_as_u8 WRunning = 2"
| "WorkerState_as_u8 WIdle = 3"
| "WorkerState_as_u8 WBusy = 4"
| "WorkerState_as_u8 WFailed = 5"
| "WorkerState_as_u8 WRestarting = 6"
| "WorkerState_as_u8 WStopping = 7"
| "WorkerState_as_u8 WStopped = 8"

definition WorkerState_from_u8 :: "u8 \<Rightarrow> WorkerState" where
  "WorkerState_from_u8 byte =
     (if byte = 0 then WCreated
      else if byte = 1 then WStarting
      else if byte = 2 then WRunning
      else if byte = 3 then WIdle
      else if byte = 4 then WBusy
      else if byte = 5 then WFailed
      else if byte = 6 then WRestarting
      else if byte = 7 then WStopping
      else WStopped)"

definition WorkerState_default :: WorkerState where
  "WorkerState_default = WCreated"

fun WorkerState_fmt :: "WorkerState \<Rightarrow> string" where
  "WorkerState_fmt WCreated = ''CREATED''"
| "WorkerState_fmt WStarting = ''STARTING''"
| "WorkerState_fmt WRunning = ''RUNNING''"
| "WorkerState_fmt WIdle = ''IDLE''"
| "WorkerState_fmt WBusy = ''BUSY''"
| "WorkerState_fmt WFailed = ''FAILED''"
| "WorkerState_fmt WRestarting = ''RESTARTING''"
| "WorkerState_fmt WStopping = ''STOPPING''"
| "WorkerState_fmt WStopped = ''STOPPED''"

interpretation worker_cell: u8_codec WorkerState_as_u8 WorkerState_from_u8
proof
  fix s
  show "WorkerState_from_u8 (WorkerState_as_u8 s) = s"
    by (cases s) (simp_all add: WorkerState_from_u8_def)
qed

declare worker_cell.dec_enc [simp, cell_simps]

section \<open>Panics and worker errors\<close>

datatype panic_payload = PayloadStaticStr string | PayloadString string | PayloadOther

datatype PanicReason = PR_StaticStr string | PR_String string | PR_Unknown

fun PanicReason_from_payload :: "panic_payload \<Rightarrow> PanicReason" where
  "PanicReason_from_payload (PayloadStaticStr s) = PR_StaticStr s"
| "PanicReason_from_payload (PayloadString s) = PR_String s"
| "PanicReason_from_payload PayloadOther = PR_Unknown"

text \<open>\<open>translate\<close> is the translation crate's lookup of a key with a fallback.\<close>

fun PanicReason_message :: "(string \<Rightarrow> string \<Rightarrow> string) \<Rightarrow> PanicReason \<Rightarrow> string" where
  "PanicReason_message translate (PR_StaticStr s) = s"
| "PanicReason_message translate (PR_String s) = s"
| "PanicReason_message translate PR_Unknown =
     translate ''kernel.worker.panic.unknown'' ''<unknown panic>''"

definition PanicReason_fmt :: "(string \<Rightarrow> string \<Rightarrow> string) \<Rightarrow> PanicReason \<Rightarrow> string" where
  "PanicReason_fmt translate r =
     translate ''kernel.worker.panic.prefix'' ''worker panicked'' @ '': '' @
       PanicReason_message translate r"

text \<open>A call under \<open>catch_unwind\<close> returns or unwinds with a payload.\<close>

datatype 'a unwind = Returned 'a | Unwound panic_payload

fun catch_panic :: "'a unwind \<Rightarrow> PanicReason + 'a" where
  "catch_panic (Returned x) = Inr x"
| "catch_panic (Unwound p) = Inl (PanicReason_from_payload p)"

record WorkerError =
  we_message :: string
  we_source :: "string option"

definition WorkerError_new :: "string \<Rightarrow> WorkerError" where
  "WorkerError_new message = \<lparr>we_message = message, we_source = None\<rparr>"

definition WorkerError_with_source :: "string \<Rightarrow> string \<Rightarrow> WorkerError" where
  "WorkerError_with_source message src = \<lparr>we_message = message, we_source = Some src\<rparr>"

definition WorkerError_fmt :: "(string \<Rightarrow> string \<Rightarrow> string) \<Rightarrow> WorkerError \<Rightarrow> string" where
  "WorkerError_fmt translate e =
     translate ''kernel.worker.error.prefix'' ''worker error'' @ '': '' @ we_message e"

section \<open>Worker lifecycle events\<close>

datatype WorkerLifecycleEvent =
  Ev_Started WorkerId string instant
| Ev_Heartbeat WorkerId instant
| Ev_BecameIdle WorkerId instant
| Ev_BecameBusy WorkerId instant
| Ev_Failed WorkerId string string instant
| Ev_Panicked WorkerId string PanicReason instant
| Ev_Restarted WorkerId string u32 instant
| Ev_Stopping WorkerId instant
| Ev_Stopped WorkerId string instant
| Ev_CircuitOpened WorkerId string u32 instant
| Ev_CircuitHalfOpened WorkerId string instant
| Ev_CircuitClosed WorkerId string instant
| Ev_Timeout WorkerId string duration instant

fun WorkerLifecycleEvent_kind :: "WorkerLifecycleEvent \<Rightarrow> string" where
  "WorkerLifecycleEvent_kind (Ev_Started _ _ _) = ''started''"
| "WorkerLifecycleEvent_kind (Ev_Heartbeat _ _) = ''heartbeat''"
| "WorkerLifecycleEvent_kind (Ev_BecameIdle _ _) = ''idle''"
| "WorkerLifecycleEvent_kind (Ev_BecameBusy _ _) = ''busy''"
| "WorkerLifecycleEvent_kind (Ev_Failed _ _ _ _) = ''failed''"
| "WorkerLifecycleEvent_kind (Ev_Panicked _ _ _ _) = ''panicked''"
| "WorkerLifecycleEvent_kind (Ev_Restarted _ _ _ _) = ''restarted''"
| "WorkerLifecycleEvent_kind (Ev_Stopping _ _) = ''stopping''"
| "WorkerLifecycleEvent_kind (Ev_Stopped _ _ _) = ''stopped''"
| "WorkerLifecycleEvent_kind (Ev_CircuitOpened _ _ _ _) = ''circuit_opened''"
| "WorkerLifecycleEvent_kind (Ev_CircuitHalfOpened _ _ _) = ''circuit_half_opened''"
| "WorkerLifecycleEvent_kind (Ev_CircuitClosed _ _ _) = ''circuit_closed''"
| "WorkerLifecycleEvent_kind (Ev_Timeout _ _ _ _) = ''timeout''"

fun WorkerLifecycleEvent_worker_id :: "WorkerLifecycleEvent \<Rightarrow> WorkerId" where
  "WorkerLifecycleEvent_worker_id (Ev_Started i _ _) = i"
| "WorkerLifecycleEvent_worker_id (Ev_Heartbeat i _) = i"
| "WorkerLifecycleEvent_worker_id (Ev_BecameIdle i _) = i"
| "WorkerLifecycleEvent_worker_id (Ev_BecameBusy i _) = i"
| "WorkerLifecycleEvent_worker_id (Ev_Failed i _ _ _) = i"
| "WorkerLifecycleEvent_worker_id (Ev_Panicked i _ _ _) = i"
| "WorkerLifecycleEvent_worker_id (Ev_Restarted i _ _ _) = i"
| "WorkerLifecycleEvent_worker_id (Ev_Stopping i _) = i"
| "WorkerLifecycleEvent_worker_id (Ev_Stopped i _ _) = i"
| "WorkerLifecycleEvent_worker_id (Ev_CircuitOpened i _ _ _) = i"
| "WorkerLifecycleEvent_worker_id (Ev_CircuitHalfOpened i _ _) = i"
| "WorkerLifecycleEvent_worker_id (Ev_CircuitClosed i _ _) = i"
| "WorkerLifecycleEvent_worker_id (Ev_Timeout i _ _ _) = i"

end
