(* ===== verification/Metrics.thy ===== *)
theory Metrics
  imports Events
begin

text \<open>
  src/metrics: the kernel's metric names and kinds (\<open>kernel_metrics.rs\<close>), the values of
  \<open>snapshot.rs\<close>, and the effects the components have on the outside. A component's handler
  returns the list of its effects in the order the code performs them: events handed to the
  dispatcher and calls on the metrics backend. A \<open>MetricsBackend\<close> is consumer code, so the calls
  are recorded, not interpreted; \<open>NoopMetricsBackend\<close> ignores them.
\<close>

section \<open>Effects\<close>

type_synonym labels = "(string \<times> string) list"

datatype effect =
  Emit KernelEvent
| Counter string u64 labels
| Gauge string real labels
| Histogram string real labels

text \<open>The events of a log, in order.\<close>

fun events_of :: "effect list \<Rightarrow> KernelEvent list" where
  "events_of [] = []"
| "events_of (Emit e # fx) = e # events_of fx"
| "events_of (Counter _ _ _ # fx) = events_of fx"
| "events_of (Gauge _ _ _ # fx) = events_of fx"
| "events_of (Histogram _ _ _ # fx) = events_of fx"

lemma events_of_append [simp]: "events_of (xs @ ys) = events_of xs @ events_of ys"
  by (induction xs rule: events_of.induct) simp_all

text \<open>A backend is what each call does to its state; the no-op backend does nothing.\<close>

definition NoopMetricsBackend :: "effect \<Rightarrow> 'b \<Rightarrow> 'b" where
  "NoopMetricsBackend call b = b"

lemma noop_backend: "fold NoopMetricsBackend calls b = b"
  by (induction calls) (simp_all add: NoopMetricsBackend_def)

section \<open>Names and kinds\<close>

definition LIFECYCLE_PHASE :: string where
  "LIFECYCLE_PHASE = ''kernel.lifecycle.phase''"

definition LIFECYCLE_TRANSITIONS :: string where
  "LIFECYCLE_TRANSITIONS = ''kernel.lifecycle.transitions''"

definition ERRORS_BY_SEVERITY :: string where
  "ERRORS_BY_SEVERITY = ''kernel.errors''"

definition HEALTH_AGGREGATE :: string where
  "HEALTH_AGGREGATE = ''kernel.health.aggregate''"

definition WORKERS_RUNNING :: string where
  "WORKERS_RUNNING = ''kernel.workers.running''"

definition WORKERS_FAILED :: string where
  "WORKERS_FAILED = ''kernel.workers.failed''"

definition WORKERS_RESTARTED :: string where
  "WORKERS_RESTARTED = ''kernel.workers.restarted''"

definition SHUTDOWN_DURATION :: string where
  "SHUTDOWN_DURATION = ''kernel.shutdown.duration''"

lemmas metric_name_defs = LIFECYCLE_PHASE_def LIFECYCLE_TRANSITIONS_def ERRORS_BY_SEVERITY_def
  HEALTH_AGGREGATE_def WORKERS_RUNNING_def WORKERS_FAILED_def WORKERS_RESTARTED_def
  SHUTDOWN_DURATION_def

datatype MetricKind = CounterKind | GaugeKind | HistogramKind

datatype KernelMetric =
  LifecyclePhase | LifecycleTransitions | ErrorsBySeverity | HealthAggregate
  | WorkersRunning | WorkersFailed | WorkersRestarted | ShutdownDuration

fun KernelMetric_name :: "KernelMetric \<Rightarrow> string" where
  "KernelMetric_name LifecyclePhase = LIFECYCLE_PHASE"
| "KernelMetric_name LifecycleTransitions = LIFECYCLE_TRANSITIONS"
| "KernelMetric_name ErrorsBySeverity = ERRORS_BY_SEVERITY"
| "KernelMetric_name HealthAggregate = HEALTH_AGGREGATE"
| "KernelMetric_name WorkersRunning = WORKERS_RUNNING"
| "KernelMetric_name WorkersFailed = WORKERS_FAILED"
| "KernelMetric_name WorkersRestarted = WORKERS_RESTARTED"
| "KernelMetric_name ShutdownDuration = SHUTDOWN_DURATION"

fun KernelMetric_kind :: "KernelMetric \<Rightarrow> MetricKind" where
  "KernelMetric_kind LifecyclePhase = GaugeKind"
| "KernelMetric_kind HealthAggregate = GaugeKind"
| "KernelMetric_kind WorkersRunning = GaugeKind"
| "KernelMetric_kind LifecycleTransitions = CounterKind"
| "KernelMetric_kind ErrorsBySeverity = CounterKind"
| "KernelMetric_kind WorkersFailed = CounterKind"
| "KernelMetric_kind WorkersRestarted = CounterKind"
| "KernelMetric_kind ShutdownDuration = HistogramKind"

definition kernel_metric_names :: "string list" where
  "kernel_metric_names =
     [LIFECYCLE_PHASE, LIFECYCLE_TRANSITIONS, ERRORS_BY_SEVERITY, HEALTH_AGGREGATE,
      WORKERS_RUNNING, WORKERS_FAILED, WORKERS_RESTARTED, SHUTDOWN_DURATION]"

datatype MetricValue = MV_Counter u64 | MV_Gauge real | MV_Histogram "real list"

record MetricsSnapshot =
  ms_timestamp :: instant
  ms_kernel_metrics :: "string \<rightharpoonup> MetricValue"

definition MetricsSnapshot_empty :: "instant \<Rightarrow> MetricsSnapshot" where
  "MetricsSnapshot_empty now = \<lparr>ms_timestamp = now, ms_kernel_metrics = Map.empty\<rparr>"

lemma KernelMetric_names_complete: "KernelMetric_name m \<in> set kernel_metric_names"
  by (cases m) (simp_all add: kernel_metric_names_def)

lemma metric_topic_of_name:
  "metric_topic (KernelMetric_name m) = ''kernel.metric.'' @ drop 7 (KernelMetric_name m)"
  by (cases m) (simp_all add: metric_name_defs metric_topic_def)

lemma KernelMetric_name_inj: "drop 7 (KernelMetric_name m) = drop 7 (KernelMetric_name n) \<longleftrightarrow> m = n"
  by (cases m; cases n) (simp_all add: metric_name_defs)

text \<open>
  every kernel metric has a topic of its own: two metrics share a topic only if they are the
  same metric, and none falls through to the unknown topic.
\<close>

theorem metric_topics_separate:
  "(metric_topic (KernelMetric_name m) = metric_topic (KernelMetric_name n) \<longleftrightarrow> m = n) \<and>
   metric_topic (KernelMetric_name m) \<noteq> ''kernel.metric.unknown''"
proof -
  have "drop 7 (KernelMetric_name m) \<noteq> ''unknown''"
    by (cases m) (simp_all add: metric_name_defs)
  then show ?thesis
    by (simp add: metric_topic_of_name KernelMetric_name_inj)
qed

end
