(* ===== verification/Lifecycle_Controller.thy ===== *)
theory Lifecycle_Controller
  imports Metrics
begin

text \<open>
  src/lifecycle/controller.rs and the read-only \<open>LifecycleHandle\<close> of src/kernel/handles.rs. The
  write lock makes check-and-set one step, so \<open>transition\<close> is a function of the controller, the
  requested state and the clock reading; its effects are the event, the phase gauge and the
  transition counter, each only when the matching handle is attached.
\<close>

section \<open>Controller\<close>

record LifecycleController =
  lc_state :: KernelState
  lc_last_transition :: instant
  lc_events :: bool
  lc_metrics :: bool

record LifecycleSnapshot =
  ls_state :: KernelState
  ls_phase :: Phase
  ls_last_transition :: instant

definition LifecycleController_fresh :: "bool \<Rightarrow> bool \<Rightarrow> instant \<Rightarrow> LifecycleController" where
  "LifecycleController_fresh events metrics now =
     \<lparr>lc_state = Created, lc_last_transition = now, lc_events = events, lc_metrics = metrics\<rparr>"

definition LifecycleController_new :: "instant \<Rightarrow> LifecycleController" where
  "LifecycleController_new = LifecycleController_fresh False False"

definition LifecycleController_with_events :: "instant \<Rightarrow> LifecycleController" where
  "LifecycleController_with_events = LifecycleController_fresh True False"

definition LifecycleController_with_metrics :: "instant \<Rightarrow> LifecycleController" where
  "LifecycleController_with_metrics = LifecycleController_fresh False True"

definition LifecycleController_with_events_and_metrics :: "instant \<Rightarrow> LifecycleController" where
  "LifecycleController_with_events_and_metrics = LifecycleController_fresh True True"

definition LifecycleController_set_events :: "LifecycleController \<Rightarrow> LifecycleController" where
  "LifecycleController_set_events c = c\<lparr>lc_events := True\<rparr>"

definition LifecycleController_set_metrics :: "LifecycleController \<Rightarrow> LifecycleController" where
  "LifecycleController_set_metrics c = c\<lparr>lc_metrics := True\<rparr>"

definition LifecycleController_phase :: "LifecycleController \<Rightarrow> Phase" where
  "LifecycleController_phase c = KernelState_phase (lc_state c)"

definition LifecycleController_snapshot :: "LifecycleController \<Rightarrow> LifecycleSnapshot" where
  "LifecycleController_snapshot c =
     \<lparr>ls_state = lc_state c, ls_phase = KernelState_phase (lc_state c),
      ls_last_transition = lc_last_transition c\<rparr>"

definition transition_effects ::
    "KernelState \<Rightarrow> KernelState \<Rightarrow> instant \<Rightarrow> LifecycleController \<Rightarrow> effect list" where
  "transition_effects f t ts c =
     (if lc_events c then [Emit (Lifecycle (Transition f t ts))] else []) @
     (if lc_metrics c
      then [Gauge LIFECYCLE_PHASE (real (unat (Phase_ordinal (KernelState_phase t)))) [],
            Counter LIFECYCLE_TRANSITIONS 1 [(''to'', KernelState_as_str t)]]
      else [])"

definition lc_transition :: "KernelState \<Rightarrow> instant \<Rightarrow> LifecycleController \<Rightarrow>
    (TransitionError + unit) \<times> LifecycleController \<times> effect list" where
  "lc_transition t now c =
     (case assert_legal (lc_state c) t of
        Inl e \<Rightarrow> (Inl e, c, [])
      | Inr _ \<Rightarrow> (Inr (), c\<lparr>lc_state := t, lc_last_transition := now\<rparr>,
                 transition_effects (lc_state c) t now c))"

text \<open>\<open>LifecycleHandle\<close> reads through to the shared controller.\<close>

definition LifecycleHandle_state :: "LifecycleController \<Rightarrow> KernelState" where
  "LifecycleHandle_state c = lc_state c"

definition LifecycleHandle_phase :: "LifecycleController \<Rightarrow> Phase" where
  "LifecycleHandle_phase c = LifecycleController_phase c"

definition LifecycleHandle_snapshot :: "LifecycleController \<Rightarrow> LifecycleSnapshot" where
  "LifecycleHandle_snapshot c = LifecycleController_snapshot c"

section \<open>Sequences of requests\<close>

primrec lc_requests :: "(KernelState \<times> instant) list \<Rightarrow> LifecycleController \<Rightarrow>
    (TransitionError + unit) list \<times> LifecycleController \<times> effect list" where
  "lc_requests [] c = ([], c, [])"
| "lc_requests (q # qs) c =
     (let (r, c', fx) = lc_transition (fst q) (snd q) c;
          (rs, c'', fx') = lc_requests qs c'
      in (r # rs, c'', fx @ fx'))"

text \<open>The moves announced in a log.\<close>

fun announced :: "KernelEvent list \<Rightarrow> (KernelState \<times> KernelState) list" where
  "announced [] = []"
| "announced (Lifecycle (Transition f t _) # es) = (f, t) # announced es"
| "announced (_ # es) = announced es"

lemma transition_legal [simp]:
  "is_legal (lc_state c) t \<Longrightarrow> lc_transition t now c =
     (Inr (), c\<lparr>lc_state := t, lc_last_transition := now\<rparr>, transition_effects (lc_state c) t now c)"
  by (simp add: lc_transition_def assert_legal_def)

lemma transition_illegal [simp]:
  "\<not> is_legal (lc_state c) t \<Longrightarrow>
   lc_transition t now c = (Inl \<lparr>te_from = lc_state c, te_to = t\<rparr>, c, [])"
  by (simp add: lc_transition_def assert_legal_def)

lemma announced_effects [simp]:
  "announced (events_of (transition_effects f t now c)) = (if lc_events c then [(f, t)] else [])"
  by (simp add: transition_effects_def)

lemma announced_append [simp]: "announced (es @ fs) = announced es @ announced fs"
  by (induction es rule: announced.induct) simp_all

text \<open>A list of moves is a walk from \<open>f\<close> to \<open>t\<close> along legal edges.\<close>

fun legal_walk :: "KernelState \<Rightarrow> (KernelState \<times> KernelState) list \<Rightarrow> KernelState \<Rightarrow> bool" where
  "legal_walk f [] t \<longleftrightarrow> f = t"
| "legal_walk f ((a, b) # ms) t \<longleftrightarrow> a = f \<and> legal_edge a b \<and> legal_walk b ms t"

lemma requests_walk:
  assumes "lc_events c" and "lc_requests qs c = (rs, c', fx)"
  shows "legal_walk (lc_state c) (announced (events_of fx)) (lc_state c') \<and>
    map snd (announced (events_of fx)) =
      [t. ((t, _), r) \<leftarrow> zip qs rs, r = Inr ()]"
  using assms
proof (induction qs arbitrary: c rs c' fx)
  case Nil
  then show ?case by simp
next
  case (Cons q qs)
  obtain r d l where d: "lc_transition (fst q) (snd q) c = (r, d, l)"
    by (cases "lc_transition (fst q) (snd q) c")
  obtain rs' l' where rest: "lc_requests qs d = (rs', c', l')"
    and rs: "rs = r # rs'" and fx: "fx = l @ l'"
    using Cons.prems(2) d by (auto split: prod.splits)
  show ?case
  proof (cases "is_legal (lc_state c) (fst q)")
    case True
    with d Cons.prems(1) have "lc_events d" and "lc_state d = fst q" and "r = Inr ()"
        and "announced (events_of l) = [(lc_state c, fst q)]"
      by auto
    with Cons.IH [OF _ rest] True rs fx show ?thesis
      by (cases q) (simp add: is_legal_iff_edge)
  next
    case False
    with d have "d = c" and "r = Inl \<lparr>te_from = lc_state c, te_to = fst q\<rparr>" and "l = []"
      by auto
    with Cons.IH [OF _ rest] Cons.prems(1) rs fx show ?thesis
      by (cases q) simp
  qed
qed

lemma walk_phase:
  "legal_walk f ms t \<Longrightarrow> Phase_ordinal (KernelState_phase f) \<le> Phase_ordinal (KernelState_phase t)"
  by (induction f ms t rule: legal_walk.induct)
    (auto simp flip: is_legal_iff_edge dest!: legal_phase_mono)

lemma requests_phase:
  "lc_requests qs c = (rs, c', fx) \<Longrightarrow>
   Phase_ordinal (LifecycleController_phase c) \<le> Phase_ordinal (LifecycleController_phase c')"
proof (induction qs arbitrary: c rs fx)
  case (Cons q qs)
  obtain r d l where d: "lc_transition (fst q) (snd q) c = (r, d, l)"
    by (cases "lc_transition (fst q) (snd q) c")
  then have "Phase_ordinal (LifecycleController_phase c) \<le> Phase_ordinal (LifecycleController_phase d)"
    by (cases "is_legal (lc_state c) (fst q)")
      (auto simp: LifecycleController_phase_def dest: legal_phase_mono)
  moreover obtain rs' l' where "lc_requests qs d = (rs', c', l')"
    using Cons.prems d by (auto split: prod.splits)
  ultimately show ?case
    using Cons.IH order_trans by blast
qed simp

lemma terminal_requests:
  "KernelState_is_terminal (lc_state c) \<Longrightarrow>
   lc_requests qs c = (map (\<lambda>q. Inl \<lparr>te_from = lc_state c, te_to = fst q\<rparr>) qs, c, [])"
  by (induction qs) (simp_all add: terminal_no_exit)

section \<open>Properties\<close>

text \<open>
  C8: whatever sequence of transitions is requested of a controller wired to events, the moves it
  announces form one unbroken walk along the documented edges from its first state to its last;
  they are exactly the accepted requests, in order, so no rejected request shows and no accepted
  one is lost.
\<close>

theorem lifecycle_history_is_a_legal_walk:
  assumes "lc_events c" and "lc_requests qs c = (rs, c', fx)"
  shows "legal_walk (lc_state c) (announced (events_of fx)) (lc_state c') \<and>
    map snd (announced (events_of fx)) = [t. ((t, _), r) \<leftarrow> zip qs rs, r = Inr ()]"
  by (rule requests_walk [OF assms])

lemma happy_path_run:
  "lc_requests [(Booting, 1), (Running, 2), (Loading, 3), (Running, 4)]
     (LifecycleController_with_events 0) =
   ([Inr (), Inl \<lparr>te_from = Booting, te_to = Running\<rparr>, Inr (), Inr ()],
    \<lparr>lc_state = Running, lc_last_transition = 4, lc_events = True, lc_metrics = False\<rparr>,
    [Emit (Lifecycle (Transition Created Booting 1)), Emit (Lifecycle (Transition Booting Loading 3)),
     Emit (Lifecycle (Transition Loading Running 4))])"
  by (simp add: LifecycleController_with_events_def LifecycleController_fresh_def
      lc_transition_def assert_legal_def transition_effects_def is_legal_iff_edge legal_edge_to)

theorem lifecycle_history_is_a_legal_walk_witness:
  "legal_walk Created [(Created, Booting), (Booting, Loading), (Loading, Running)] Running"
  using lifecycle_history_is_a_legal_walk [OF _ happy_path_run]
  by (simp add: LifecycleController_with_events_def LifecycleController_fresh_def)

text \<open>
  over any sequence of requests the phase never goes back, and once the controller is in a
  terminal state every further request is refused with both endpoints named, without any effect.
\<close>

theorem lifecycle_never_goes_back:
  assumes "lc_requests qs c = (rs, c', fx)"
  shows "Phase_ordinal (LifecycleController_phase c) \<le> Phase_ordinal (LifecycleController_phase c') \<and>
    (KernelState_is_terminal (lc_state c) \<longrightarrow>
       c' = c \<and> fx = [] \<and> rs = map (\<lambda>q. Inl \<lparr>te_from = lc_state c, te_to = fst q\<rparr>) qs)"
  using requests_phase [OF assms] terminal_requests [of c qs] assms by auto

lemma failed_refuses_run:
  "lc_requests [(Running, 1), (Booting, 2)] (LifecycleController_with_events 0\<lparr>lc_state := Failed\<rparr>) =
   ([Inl \<lparr>te_from = Failed, te_to = Running\<rparr>, Inl \<lparr>te_from = Failed, te_to = Booting\<rparr>],
    LifecycleController_with_events 0\<lparr>lc_state := Failed\<rparr>, [])"
  by (subst terminal_requests) simp_all

theorem lifecycle_never_goes_back_witness:
  "LifecycleController_with_events 0\<lparr>lc_state := Failed\<rparr> =
     fst (snd (lc_requests [(Running, 1), (Booting, 2)]
       (LifecycleController_with_events 0\<lparr>lc_state := Failed\<rparr>)))"
  using lifecycle_never_goes_back [OF failed_refuses_run] failed_refuses_run by simp

end
