(* ===== verification/Lifecycle_Concurrent.thy ===== *)
theory Lifecycle_Concurrent
  imports Lifecycle_Controller "HOL-Library.Multiset"
begin

text \<open>
  \<open>LifecycleController::transition\<close> of src/lifecycle/controller.rs under concurrent calls. The check and the
  store are made under the write lock and are one step; the event and the two metrics are emitted after the lock has been
  released, so calls may announce their moves in another order than they made them. \<open>lw_calls\<close> holds, for each
  call that is past its lock, what it has still to emit.
\<close>

section \<open>Steps\<close>

record lifecycle_world =
  lw_controller :: LifecycleController
  lw_calls :: "effect list list"
  lw_moves :: "(KernelState \<times> KernelState \<times> instant) list"
  lw_log :: "effect list"

inductive lifecycle_step :: "lifecycle_world \<Rightarrow> lifecycle_world \<Rightarrow> bool" where
  transition_commit: "lc_transition t now (lw_controller w) = (Inr (), c, fx) \<Longrightarrow>
    lifecycle_step w (w\<lparr>lw_controller := c, lw_calls := lw_calls w @ [fx],
      lw_moves := lw_moves w @ [(lc_state (lw_controller w), t, now)]\<rparr>)"
| transition_refused: "lc_transition t now (lw_controller w) = (Inl e, c, fx) \<Longrightarrow>
    lifecycle_step w (w\<lparr>lw_controller := c\<rparr>)"
| transition_emit: "lw_calls w = xs @ (e # fx) # ys \<Longrightarrow>
    lifecycle_step w (w\<lparr>lw_calls := xs @ fx # ys, lw_log := lw_log w @ [e]\<rparr>)"
| transition_return: "lw_calls w = xs @ [] # ys \<Longrightarrow> lifecycle_step w (w\<lparr>lw_calls := xs @ ys\<rparr>)"

definition lifecycle_start :: "LifecycleController \<Rightarrow> lifecycle_world \<Rightarrow> bool" where
  "lifecycle_start c w \<longleftrightarrow> w = \<lparr>lw_controller = c, lw_calls = [], lw_moves = [], lw_log = []\<rparr>"

section \<open>Invariant\<close>

definition walked :: "(KernelState \<times> KernelState \<times> instant) list \<Rightarrow> (KernelState \<times> KernelState) list" where
  "walked = map (\<lambda>(f, t, _). (f, t))"

definition owed :: "LifecycleController \<Rightarrow> (KernelState \<times> KernelState \<times> instant) list \<Rightarrow> effect list" where
  "owed c ms = concat (map (\<lambda>(f, t, now). transition_effects f t now c) ms)"

definition lifecycle_inv :: "LifecycleController \<Rightarrow> lifecycle_world \<Rightarrow> bool" where
  "lifecycle_inv c w \<longleftrightarrow>
     lc_events (lw_controller w) = lc_events c \<and> lc_metrics (lw_controller w) = lc_metrics c \<and>
     legal_walk (lc_state c) (walked (lw_moves w)) (lc_state (lw_controller w)) \<and>
     mset (lw_log w) + mset (concat (lw_calls w)) = mset (owed c (lw_moves w))"

lemma legal_walk_snoc: "legal_walk f ms s \<Longrightarrow> legal_edge s t \<Longrightarrow> legal_walk f (ms @ [(s, t)]) t"
  by (induction f ms s rule: legal_walk.induct) auto

lemma lc_transition_Inr:
  "lc_transition t now c = (Inr (), c', fx) \<Longrightarrow>
   is_legal (lc_state c) t \<and> c' = c\<lparr>lc_state := t, lc_last_transition := now\<rparr> \<and>
   fx = transition_effects (lc_state c) t now c"
  by (auto simp: lc_transition_def assert_legal_def split: if_splits)

lemma lc_transition_Inl: "lc_transition t now c = (Inl e, c', fx) \<Longrightarrow> c' = c \<and> fx = []"
  by (auto simp: lc_transition_def split: sum.splits)

lemma transition_effects_wiring:
  "lc_events c = lc_events d \<Longrightarrow> lc_metrics c = lc_metrics d \<Longrightarrow> transition_effects f t now c = transition_effects f t now d"
  by (simp add: transition_effects_def)

lemma lifecycle_inv_step:
  assumes inv: "lifecycle_inv c w" and step: "lifecycle_step w w'"
  shows "lifecycle_inv c w'"
  using step
proof cases
  case (transition_commit t now d fx)
  note moved = lc_transition_Inr [OF transition_commit(2)]
  then have "legal_edge (lc_state (lw_controller w)) t"
    by (simp add: is_legal_iff_edge)
  moreover have "fx = transition_effects (lc_state (lw_controller w)) t now c"
    using moved inv transition_effects_wiring [of "lw_controller w" c] by (simp add: lifecycle_inv_def)
  ultimately show ?thesis
    using inv moved unfolding transition_commit(1)
    by (simp add: lifecycle_inv_def walked_def owed_def legal_walk_snoc union_assoc [symmetric])
next
  case (transition_refused t now e d fx)
  then show ?thesis
    using inv lc_transition_Inl [OF transition_refused(2)] by (simp add: lifecycle_inv_def)
next
  case (transition_emit xs e fx ys)
  then show ?thesis
    using inv by (simp add: lifecycle_inv_def ac_simps)
next
  case (transition_return xs ys)
  then show ?thesis
    using inv by (simp add: lifecycle_inv_def)
qed

interpretation announcing: invariant_system "lifecycle_start c" lifecycle_step "lifecycle_inv c" for c
proof unfold_locales
  show "lifecycle_start c w \<Longrightarrow> lifecycle_inv c w" for w
    by (simp add: lifecycle_start_def lifecycle_inv_def walked_def owed_def)
qed (rule lifecycle_inv_step)

text \<open>A call can always run to its end.\<close>

lemma call_runs:
  "lw_calls w = xs @ fx # ys \<Longrightarrow>
   lifecycle_step\<^sup>*\<^sup>* w (w\<lparr>lw_calls := xs @ ys, lw_log := lw_log w @ fx\<rparr>)"
proof (induction fx arbitrary: w)
  case Nil
  then have "lifecycle_step w (w\<lparr>lw_calls := xs @ ys\<rparr>)"
    by (rule transition_return)
  then show ?case
    by (simp add: r_into_rtranclp)
next
  case (Cons e fx)
  let ?v = "w\<lparr>lw_calls := xs @ fx # ys, lw_log := lw_log w @ [e]\<rparr>"
  have "lifecycle_step w ?v"
    using Cons.prems by (rule transition_emit)
  moreover have "lifecycle_step\<^sup>*\<^sup>* ?v (w\<lparr>lw_calls := xs @ ys, lw_log := lw_log w @ e # fx\<rparr>)"
    using Cons.IH [of ?v] by simp
  ultimately show ?case
    by (rule converse_rtranclp_into_rtranclp)
qed

section \<open>Properties\<close>

text \<open>
  C11: However calls of transition interleave, the moves they commit form a legal walk to the state the controller is
  in, and the events and metric calls already made together with those still owed by calls in progress are exactly
  the announcements of these moves.
\<close>

theorem concurrent_moves_are_announced_once:
  assumes "lifecycle_start c w0" and "lifecycle_step\<^sup>*\<^sup>* w0 w"
  shows "legal_walk (lc_state c) (walked (lw_moves w)) (lc_state (lw_controller w)) \<and>
    mset (lw_log w) + mset (concat (lw_calls w)) = mset (owed c (lw_moves w))"
  using announcing.inv_reachable [OF assms] by (simp add: lifecycle_inv_def)

text \<open>The value the phase gauge was last set to.\<close>

fun phase_gauge :: "effect list \<Rightarrow> real option" where
  "phase_gauge [] = None"
| "phase_gauge (Gauge n v _ # fx) = (case phase_gauge fx of None \<Rightarrow> if n = LIFECYCLE_PHASE then Some v else None | v' \<Rightarrow> v')"
| "phase_gauge (_ # fx) = phase_gauge fx"

text \<open>The second of two moves is announced before the first.\<close>

lemma run_overtaken:
  assumes c: "c = LifecycleController_with_events_and_metrics 0"
  shows "lifecycle_step\<^sup>*\<^sup>* \<lparr>lw_controller = c, lw_calls = [], lw_moves = [], lw_log = []\<rparr>
    \<lparr>lw_controller = c\<lparr>lc_state := Failed, lc_last_transition := 2\<rparr>, lw_calls = [],
     lw_moves = [(Created, Booting, 1), (Booting, Failed, 2)],
     lw_log = transition_effects Booting Failed 2 c @ transition_effects Created Booting 1 c\<rparr>"
proof -
  have c_simps: "lc_state c = Created" "lc_last_transition c = 0" "lc_events c" "lc_metrics c"
    by (simp_all add: c LifecycleController_with_events_and_metrics_def LifecycleController_fresh_def)
  let ?e1 = "transition_effects Created Booting 1 c" and ?e2 = "transition_effects Booting Failed 2 c"
  let ?c1 = "c\<lparr>lc_state := Booting, lc_last_transition := 1\<rparr>" and ?c2 = "c\<lparr>lc_state := Failed, lc_last_transition := 2\<rparr>"
  let ?w0 = "\<lparr>lw_controller = c, lw_calls = [], lw_moves = [], lw_log = []\<rparr>"
  let ?w1 = "\<lparr>lw_controller = ?c1, lw_calls = [?e1], lw_moves = [(Created, Booting, 1)], lw_log = []\<rparr>"
  let ?w2 = "\<lparr>lw_controller = ?c2, lw_calls = [?e1, ?e2], lw_moves = [(Created, Booting, 1), (Booting, Failed, 2)], lw_log = []\<rparr>"
  have legal: "is_legal Created Booting" "is_legal Booting Failed"
    by (simp_all add: is_legal_iff_edge legal_edge_to)
  have "lifecycle_step ?w0 ?w1"
    using lifecycle_step.transition_commit [of Booting 1 ?w0 ?c1 ?e1] legal by (simp add: c_simps)
  moreover have "lifecycle_step ?w1 ?w2"
    using lifecycle_step.transition_commit [of Failed 2 ?w1 ?c2 ?e2] legal
      transition_effects_wiring [of ?c1 c] by simp
  moreover have "lifecycle_step\<^sup>*\<^sup>* ?w2 (?w2\<lparr>lw_calls := [?e1], lw_log := ?e2\<rparr>)"
    using call_runs [of ?w2 "[?e1]" ?e2 "[]"] by simp
  moreover have "lifecycle_step\<^sup>*\<^sup>* (?w2\<lparr>lw_calls := [?e1], lw_log := ?e2\<rparr>) (?w2\<lparr>lw_calls := [], lw_log := ?e2 @ ?e1\<rparr>)"
    using call_runs [of "?w2\<lparr>lw_calls := [?e1], lw_log := ?e2\<rparr>" "[]" ?e1 "[]"] by simp
  ultimately have "lifecycle_step\<^sup>*\<^sup>* ?w0 (?w2\<lparr>lw_calls := [], lw_log := ?e2 @ ?e1\<rparr>)"
    by (meson r_into_rtranclp rtranclp_trans)
  then show ?thesis
    by simp
qed

theorem concurrent_moves_are_announced_once_witness:
  "legal_walk Created [(Created, Booting), (Booting, Failed)] Failed \<and>
   mset (transition_effects Booting Failed 2 (LifecycleController_with_events_and_metrics 0) @
       transition_effects Created Booting 1 (LifecycleController_with_events_and_metrics 0)) =
     mset (owed (LifecycleController_with_events_and_metrics 0) [(Created, Booting, 1), (Booting, Failed, 2)])"
  using concurrent_moves_are_announced_once [OF _ run_overtaken [OF refl], of "LifecycleController_with_events_and_metrics 0"]
  by (simp add: lifecycle_start_def walked_def LifecycleController_with_events_and_metrics_def LifecycleController_fresh_def)

text \<open>
  Two racing calls can be announced in the wrong order. When both are over the controller has failed, but
  the last transition announced is the one to Booting, and the phase gauge stays at the boot phase.
\<close>

theorem announcements_can_overtake:
  "\<exists>w. lifecycle_step\<^sup>*\<^sup>* \<lparr>lw_controller = LifecycleController_with_events_and_metrics 0, lw_calls = [], lw_moves = [], lw_log = []\<rparr> w \<and>
     lw_calls w = [] \<and> lc_state (lw_controller w) = Failed \<and>
     announced (events_of (lw_log w)) = [(Booting, Failed), (Created, Booting)] \<and>
     phase_gauge (lw_log w) = Some (real (unat (Phase_ordinal Boot))) \<and>
     Phase_ordinal Boot \<noteq> Phase_ordinal (LifecycleController_phase (lw_controller w))"
proof -
  have "\<exists>w. lifecycle_step\<^sup>*\<^sup>* \<lparr>lw_controller = c, lw_calls = [], lw_moves = [], lw_log = []\<rparr> w \<and>
     lw_calls w = [] \<and> lc_state (lw_controller w) = Failed \<and>
     announced (events_of (lw_log w)) = [(Booting, Failed), (Created, Booting)] \<and>
     phase_gauge (lw_log w) = Some (real (unat (Phase_ordinal Boot))) \<and>
     Phase_ordinal Boot \<noteq> Phase_ordinal (LifecycleController_phase (lw_controller w))"
    if c: "c = LifecycleController_with_events_and_metrics 0" for c
    by (intro exI conjI, rule run_overtaken [OF c])
      (simp_all add: c LifecycleController_with_events_and_metrics_def LifecycleController_fresh_def
        transition_effects_def LifecycleController_phase_def LIFECYCLE_PHASE_def)
  then show ?thesis
    by blast
qed

end
