(* ===== verification/Dispatcher.thy ===== *)
theory Dispatcher
  imports Events
begin

text \<open>
  src/events/dispatcher.rs: the routing table shared by the dispatcher and its handles. \<open>routes\<close>
  and \<open>by_id\<close> are never iterated, so both hash maps are partial functions. The abstract
  specification is one list of subscriptions in the order they were made; \<open>subscribe\<close> appends to
  it, \<open>unsubscribe\<close> removes one entry, and an event goes to the entries of its topic, in order.
\<close>

section \<open>The routing table\<close>

record 'h dispatcher =
  dp_routes :: "string \<rightharpoonup> (u64 \<times> 'h) list"
  dp_by_id :: "u64 \<rightharpoonup> string"
  dp_next_id :: u64

definition dispatcher_new :: "'h dispatcher" where
  "dispatcher_new = \<lparr>dp_routes = Map.empty, dp_by_id = Map.empty, dp_next_id = 0\<rparr>"

definition subscribe :: "string \<Rightarrow> 'h \<Rightarrow> 'h dispatcher \<Rightarrow> u64 \<times> 'h dispatcher" where
  "subscribe topic h d =
     (let i = dp_next_id d;
          entry = (case dp_routes d topic of Some l \<Rightarrow> l | None \<Rightarrow> [])
      in (i, d\<lparr>dp_next_id := i + 1,
               dp_routes := (dp_routes d)(topic \<mapsto> entry @ [(i, h)]),
               dp_by_id := (dp_by_id d)(i \<mapsto> topic)\<rparr>))"

definition unsubscribe :: "u64 \<Rightarrow> 'h dispatcher \<Rightarrow> bool \<times> 'h dispatcher" where
  "unsubscribe i d =
     (case dp_by_id d i of
        None \<Rightarrow> (False, d)
      | Some topic \<Rightarrow>
          (let d = d\<lparr>dp_by_id := (dp_by_id d)(i := None)\<rparr>
           in case dp_routes d topic of
                None \<Rightarrow> (False, d)
              | Some l \<Rightarrow>
                  (case position (\<lambda>r. fst r = i) l of
                     None \<Rightarrow> (False, d)
                   | Some pos \<Rightarrow>
                       (let l' = remove_at pos l
                        in (True, d\<lparr>dp_routes := (dp_routes d)
                             (topic := (if l' = [] then None else Some l'))\<rparr>)))))"

definition subscriber_count :: "string \<Rightarrow> 'h dispatcher \<Rightarrow> nat" where
  "subscriber_count topic d = (case dp_routes d topic of Some l \<Rightarrow> length l | None \<Rightarrow> 0)"

text \<open>The handlers \<open>emit\<close> clones out of the table before it calls any of them.\<close>

definition emit_handlers :: "KernelEvent \<Rightarrow> 'h dispatcher \<Rightarrow> 'h list" where
  "emit_handlers event d =
     (case dp_routes d (KernelEvent_topic event) of Some l \<Rightarrow> map snd l | None \<Rightarrow> [])"

text \<open>
  Running a handler changes the world and returns, or changes it and panics; \<open>catch_unwind\<close>
  keeps whatever was done before the panic and goes on to the next handler.
\<close>

datatype 'w handler_result = Finished 'w | Panicked 'w

fun contained :: "'w handler_result \<Rightarrow> 'w" where
  "contained (Finished w) = w"
| "contained (Panicked w) = w"

definition emit ::
    "('h \<Rightarrow> KernelEvent \<Rightarrow> 'w \<Rightarrow> 'w handler_result) \<Rightarrow> KernelEvent \<Rightarrow> 'h dispatcher \<Rightarrow> 'w \<Rightarrow> 'w" where
  "emit run event d w = fold (\<lambda>h w. contained (run h event w)) (emit_handlers event d) w"

text \<open>
  \<open>EventDispatcher\<close> is a reference to the two tables and so is every \<open>EventHandle\<close> taken from it.
\<close>

definition EventDispatcher_new :: "'h dispatcher" where
  [simp]: "EventDispatcher_new = dispatcher_new"

definition EventDispatcher_emit :: "('h \<Rightarrow> KernelEvent \<Rightarrow> 'w \<Rightarrow> 'w handler_result) \<Rightarrow> KernelEvent \<Rightarrow> 'h dispatcher \<Rightarrow> 'w \<Rightarrow> 'w" where
  [simp]: "EventDispatcher_emit = emit"

definition EventDispatcher_subscribe :: "string \<Rightarrow> 'h \<Rightarrow> 'h dispatcher \<Rightarrow> u64 \<times> 'h dispatcher" where
  [simp]: "EventDispatcher_subscribe = subscribe"

definition EventDispatcher_unsubscribe :: "u64 \<Rightarrow> 'h dispatcher \<Rightarrow> bool \<times> 'h dispatcher" where
  [simp]: "EventDispatcher_unsubscribe = unsubscribe"

definition EventDispatcher_subscriber_count :: "string \<Rightarrow> 'h dispatcher \<Rightarrow> nat" where
  [simp]: "EventDispatcher_subscriber_count = subscriber_count"

definition EventHandle_emit :: "('h \<Rightarrow> KernelEvent \<Rightarrow> 'w \<Rightarrow> 'w handler_result) \<Rightarrow> KernelEvent \<Rightarrow> 'h dispatcher \<Rightarrow> 'w \<Rightarrow> 'w" where
  [simp]: "EventHandle_emit = emit"

definition EventHandle_subscribe :: "string \<Rightarrow> 'h \<Rightarrow> 'h dispatcher \<Rightarrow> u64 \<times> 'h dispatcher" where
  [simp]: "EventHandle_subscribe = subscribe"

definition EventHandle_unsubscribe :: "u64 \<Rightarrow> 'h dispatcher \<Rightarrow> bool \<times> 'h dispatcher" where
  [simp]: "EventHandle_unsubscribe = unsubscribe"

definition EventHandle_subscriber_count :: "string \<Rightarrow> 'h dispatcher \<Rightarrow> nat" where
  [simp]: "EventHandle_subscriber_count = subscriber_count"

section \<open>Abstract subscriptions\<close>

type_synonym 'h subscriptions = "(u64 \<times> string \<times> 'h) list"

definition on_topic :: "string \<Rightarrow> 'h subscriptions \<Rightarrow> (u64 \<times> 'h) list" where
  "on_topic topic subs = [(i, h). (i, t, h) \<leftarrow> subs, t = topic]"

datatype 'h dispatcher_op =
  OpSubscribe string 'h | OpUnsubscribe u64 | OpCount string | OpEmit KernelEvent

datatype 'h dispatcher_result =
  ResId u64 | ResBool bool | ResCount nat | ResHandlers "'h list"

fun dispatcher_exec ::
    "'h dispatcher_op \<Rightarrow> 'h dispatcher \<Rightarrow> 'h dispatcher_result \<times> 'h dispatcher" where
  "dispatcher_exec (OpSubscribe topic h) d = (let (i, d') = subscribe topic h d in (ResId i, d'))"
| "dispatcher_exec (OpUnsubscribe i) d = (let (b, d') = unsubscribe i d in (ResBool b, d'))"
| "dispatcher_exec (OpCount topic) d = (ResCount (subscriber_count topic d), d)"
| "dispatcher_exec (OpEmit event) d = (ResHandlers (emit_handlers event d), d)"

fun spec_exec ::
    "'h dispatcher_op \<Rightarrow> 'h subscriptions \<times> u64 \<Rightarrow>
     'h dispatcher_result \<times> 'h subscriptions \<times> u64" where
  "spec_exec (OpSubscribe topic h) (subs, n) = (ResId n, subs @ [(n, topic, h)], n + 1)"
| "spec_exec (OpUnsubscribe i) (subs, n) =
     (ResBool (i \<in> fst ` set subs), filter (\<lambda>s. fst s \<noteq> i) subs, n)"
| "spec_exec (OpCount topic) (subs, n) = (ResCount (length (on_topic topic subs)), subs, n)"
| "spec_exec (OpEmit event) (subs, n) =
     (ResHandlers (map snd (on_topic (KernelEvent_topic event) subs)), subs, n)"

text \<open>The table represents a subscription list.\<close>

definition represents :: "'h dispatcher \<Rightarrow> 'h subscriptions \<times> u64 \<Rightarrow> bool" where
  "represents d a \<longleftrightarrow>
     dp_next_id d = snd a \<and>
     distinct (map fst (fst a)) \<and>
     (\<forall>s \<in> set (fst a). fst s < snd a) \<and>
     (\<forall>t. dp_routes d t = (if on_topic t (fst a) = [] then None else Some (on_topic t (fst a)))) \<and>
     (\<forall>i t. dp_by_id d i = Some t \<longleftrightarrow> (\<exists>h. (i, t, h) \<in> set (fst a)))"

lemma on_topic_Nil [simp]: "on_topic t [] = []"
  by (simp add: on_topic_def)

lemma on_topic_append [simp]: "on_topic t (xs @ ys) = on_topic t xs @ on_topic t ys"
  by (simp add: on_topic_def)

lemma on_topic_single [simp]: "on_topic t [(i, u, h)] = (if u = t then [(i, h)] else [])"
  by (simp add: on_topic_def)

lemma on_topic_filter:
  "on_topic t (filter (\<lambda>s. fst s \<noteq> i) subs) = filter (\<lambda>r. fst r \<noteq> i) (on_topic t subs)"
  by (induction subs) (auto simp: on_topic_def)

lemma set_on_topic: "(i, h) \<in> set (on_topic t subs) \<longleftrightarrow> (i, t, h) \<in> set subs"
  by (auto simp: on_topic_def)

lemma distinct_on_topic: "distinct (map fst subs) \<Longrightarrow> distinct (map fst (on_topic t subs))"
  by (induction subs) (auto simp: on_topic_def image_iff)

lemma represents_new: "represents dispatcher_new ([], 0)"
  by (simp add: represents_def dispatcher_new_def)


section \<open>Simulation\<close>

lemma subscribe_simulates:
  assumes rep: "represents d (subs, n)" and room: "n \<noteq> - 1"
  shows "fst (subscribe topic h d) = n"
    and "represents (snd (subscribe topic h d)) (subs @ [(n, topic, h)], n + 1)"
proof -
  have next_id: "dp_next_id d = n" and old: "\<And>s. s \<in> set subs \<Longrightarrow> fst s < n"
    using rep by (auto simp: represents_def)
  from next_id show "fst (subscribe topic h d) = n"
    by (simp add: subscribe_def)
  have above: "n < n + 1"
    using room by (rule less_plus_one)
  moreover have "fst s < n + 1" if "s \<in> set subs" for s
    using old [OF that] above by (rule less_trans)
  moreover have "n \<notin> fst ` set subs"
    using old by auto
  ultimately show "represents (snd (subscribe topic h d)) (subs @ [(n, topic, h)], n + 1)"
    using rep next_id by (auto simp: represents_def subscribe_def image_iff)
qed

lemma unsubscribe_simulates:
  assumes rep: "represents d (subs, n)"
  shows "fst (unsubscribe i d) = (i \<in> fst ` set subs)"
    and "represents (snd (unsubscribe i d)) (filter (\<lambda>s. fst s \<noteq> i) subs, n)"
proof -
  have "fst (unsubscribe i d) = (i \<in> fst ` set subs) \<and>
      represents (snd (unsubscribe i d)) (filter (\<lambda>s. fst s \<noteq> i) subs, n)"
  proof (cases "dp_by_id d i")
    case None
    then have absent: "i \<notin> fst ` set subs"
      using rep by (auto simp: represents_def) (metis option.distinct(1))
    then have "filter (\<lambda>s. fst s \<noteq> i) subs = subs"
      by (intro filter_True) auto
    with None absent rep show ?thesis
      by (simp add: unsubscribe_def)
  next
    case (Some t)
    with rep obtain h where mem: "(i, t, h) \<in> set subs"
      by (auto simp: represents_def)
    have dist: "distinct (map fst subs)"
      using rep by (simp add: represents_def)
    have only: "u = t" if "(i, u, k) \<in> set subs" for u k
      using that mem dist by (metis eq_key_imp_eq_value fst_conv)
    let ?l = "on_topic t subs"
    have "(i, h) \<in> set ?l"
      using mem by (simp add: set_on_topic)
    then obtain pos where pos: "position (\<lambda>r. fst r = i) ?l = Some pos" and ne: "?l \<noteq> []"
      using position_None_iff [of "\<lambda>r. fst r = i" ?l] by fastforce
    have route: "dp_routes d t = Some ?l"
      using rep ne by (simp add: represents_def)
    have cut: "remove_at pos ?l = on_topic t (filter (\<lambda>s. fst s \<noteq> i) subs)"
      using remove_at_position [OF distinct_on_topic [OF dist] pos] by (simp add: on_topic_filter)
    have rest: "on_topic u (filter (\<lambda>s. fst s \<noteq> i) subs) = on_topic u subs" if "u \<noteq> t" for u
      unfolding on_topic_filter using only that by (intro filter_True) (auto simp: set_on_topic)
    let ?rest = "filter (\<lambda>s. fst s \<noteq> i) subs"
    have upd: "unsubscribe i d = (True, d\<lparr>dp_by_id := (dp_by_id d)(i := None),
        dp_routes := (dp_routes d)(t := (if on_topic t ?rest = [] then None
          else Some (on_topic t ?rest)))\<rparr>)"
      using Some pos route cut by (simp add: unsubscribe_def Let_def)
    have ids: "((dp_by_id d)(i := None)) j = Some u \<longleftrightarrow> (\<exists>h. (j, u, h) \<in> set ?rest)" for j u
      using rep by (simp add: represents_def)
    have "distinct (map fst ?rest)"
      using dist by (rule distinct_map_filter)
    then have "represents (snd (unsubscribe i d)) (?rest, n)"
      using rep ids rest unfolding upd by (simp add: represents_def)
    moreover have "i \<in> fst ` set subs"
      using mem by force
    ultimately show ?thesis
      by (simp add: upd)
  qed
  then show "fst (unsubscribe i d) = (i \<in> fst ` set subs)"
    and "represents (snd (unsubscribe i d)) (filter (\<lambda>s. fst s \<noteq> i) subs, n)"
    by simp_all
qed

lemma emit_handlers_represents:
  "represents d (subs, n) \<Longrightarrow>
   emit_handlers e d = map snd (on_topic (KernelEvent_topic e) subs)"
  by (simp add: emit_handlers_def represents_def)

lemma subscriber_count_represents:
  "represents d (subs, n) \<Longrightarrow> subscriber_count t d = length (on_topic t subs)"
  by (simp add: subscriber_count_def represents_def)

interpretation dispatcher_refines: refines dispatcher_exec spec_exec represents
  "\<lambda>d. dp_next_id d \<noteq> - 1"
proof
  fix d :: "'h dispatcher" and a :: "'h subscriptions \<times> u64" and p :: "'h dispatcher_op"
  assume rep: "represents d a" and room: "dp_next_id d \<noteq> - 1"
  obtain subs n where a: "a = (subs, n)"
    by (cases a)
  with rep room have "n \<noteq> - 1"
    by (simp add: represents_def)
  with rep a show "fst (dispatcher_exec p d) = fst (spec_exec p a) \<and>
      represents (snd (dispatcher_exec p d)) (snd (spec_exec p a))"
    using subscribe_simulates [of d subs n] unsubscribe_simulates [of d subs n]
    by (cases p) (simp_all add: case_prod_beta emit_handlers_represents subscriber_count_represents)
qed

text \<open>The counter moves by at most one per operation, so it cannot reach its last value early.\<close>

lemma next_id_run:
  "unat (dp_next_id (snd (run_ops dispatcher_exec ps d))) \<le> unat (dp_next_id d) + length ps"
proof (induction ps arbitrary: d)
  case (Cons p ps)
  have "unat (dp_next_id (snd (dispatcher_exec p d))) \<le> Suc (unat (dp_next_id d))"
  proof (cases p)
    case (OpSubscribe t h)
    then show ?thesis
      by (simp add: subscribe_def Let_def unat_word_ariths)
  next
    case (OpUnsubscribe i)
    then show ?thesis
      by (auto simp: unsubscribe_def Let_def split: option.splits)
  qed simp_all
  with Cons [of "snd (dispatcher_exec p d)"] show ?case
    by (simp add: case_prod_beta)
qed simp

lemma dispatcher_room:
  assumes "length ps < 2 ^ 64 - 1"
  shows "dp_next_id (snd (run_ops dispatcher_exec ps dispatcher_new)) \<noteq> - 1"
proof
  assume "dp_next_id (snd (run_ops dispatcher_exec ps dispatcher_new)) = - 1"
  with next_id_run [of ps dispatcher_new] assms show False
    by (simp add: dispatcher_new_def unsigned_minus_1_eq_mask mask_eq_exp_minus_1)
qed

section \<open>Properties\<close>

lemma dispatcher_run:
  assumes "length ps < 2 ^ 64 - 1"
  shows "fst (run_ops dispatcher_exec ps dispatcher_new) = fst (run_ops spec_exec ps ([], 0))"
    and "represents (snd (run_ops dispatcher_exec ps dispatcher_new))
           (snd (run_ops spec_exec ps ([], 0)))"
proof -
  have "dp_next_id (snd (run_ops dispatcher_exec (take k ps) dispatcher_new)) \<noteq> - 1"
    if "k < length ps" for k
    using that assms by (intro dispatcher_room) simp
  from dispatcher_refines.run_refines [OF represents_new this]
  show "fst (run_ops dispatcher_exec ps dispatcher_new) = fst (run_ops spec_exec ps ([], 0))"
    and "represents (snd (run_ops dispatcher_exec ps dispatcher_new))
           (snd (run_ops spec_exec ps ([], 0)))"
    by blast+
qed

lemma fold_handlers:
  "fold (\<lambda>h w. contained (if bad h then Panicked (w @ [h]) else Finished (w @ [h]))) hs w = w @ hs"
  by (induction hs arbitrary: w) auto

text \<open>
  C12: from an empty dispatcher, every sequence of fewer than 2^64 - 1 subscribe, unsubscribe,
  count and emit calls returns exactly what the abstract subscription list returns: fresh
  identifiers, whether an identifier was live, the number of live subscriptions of a topic, and
  the handlers an event goes to in subscription order.
\<close>

theorem dispatcher_implements_subscriptions:
  assumes "length ps < 2 ^ 64 - 1"
  shows "fst (run_ops dispatcher_exec ps dispatcher_new) = fst (run_ops spec_exec ps ([], 0))"
  by (rule dispatcher_run(1) [OF assms])

theorem dispatcher_implements_subscriptions_witness:
  "fst (run_ops dispatcher_exec
      [OpSubscribe ''kernel.custom'' (7::nat), OpSubscribe ''kernel.custom'' 8, OpUnsubscribe 0,
       OpUnsubscribe 0, OpCount ''kernel.custom''] dispatcher_new) =
   [ResId 0, ResId 1, ResBool True, ResBool False, ResCount 1]"
  by (subst dispatcher_implements_subscriptions) (simp_all add: on_topic_def)

text \<open>
  emitting an event calls every handler then subscribed to the event's topic exactly once, in
  subscription order, and no handler of another topic, whichever of them panic.
\<close>

theorem emit_reaches_every_subscriber:
  assumes "length ps < 2 ^ 64 - 1"
    and "d = snd (run_ops dispatcher_exec ps dispatcher_new)"
    and "(subs, n) = snd (run_ops spec_exec ps ([], 0))"
  shows "emit (\<lambda>h e w. if bad h then Panicked (w @ [h]) else Finished (w @ [h])) event d w =
    w @ [h. (i, t, h) \<leftarrow> subs, t = KernelEvent_topic event]"
proof -
  have "represents d (subs, n)"
    using dispatcher_run(2) [OF assms(1)] assms(2,3) by metis
  moreover have "map snd (on_topic t subs) = [h. (i, u, h) \<leftarrow> subs, u = t]" for t
    by (induction subs) (auto simp: on_topic_def)
  ultimately show ?thesis
    by (simp add: emit_def fold_handlers emit_handlers_represents)
qed

theorem emit_reaches_every_subscriber_witness:
  "emit (\<lambda>h e w. if h = 7 then Panicked (w @ [h]) else Finished (w @ [h]))
     (Lifecycle (ShutdownStarted 0))
     (snd (run_ops dispatcher_exec
        [OpSubscribe ''kernel.lifecycle.shutdown_started'' (7::nat),
         OpSubscribe ''kernel.custom'' 8,
         OpSubscribe ''kernel.lifecycle.shutdown_started'' 9] dispatcher_new)) [] = [7, 9]"
  by (subst emit_reaches_every_subscriber [OF _ refl,
        where subs = "[(0, ''kernel.lifecycle.shutdown_started'', 7), (1, ''kernel.custom'', 8),
          (2, ''kernel.lifecycle.shutdown_started'', 9)]" and n = 3]) simp_all

text \<open>A subscription list determines the two tables.\<close>

lemma represents_unique:
  assumes "represents d (subs, n)" and "represents e (subs, m)"
  shows "e = d\<lparr>dp_next_id := m\<rparr>"
proof -
  have "dp_by_id e i = dp_by_id d i" for i
    using assms unfolding represents_def by (cases "dp_by_id e i"; cases "dp_by_id d i") (metis option.distinct(1) option.inject fst_conv)+
  then have "dp_by_id e = dp_by_id d"
    by blast
  moreover have "dp_routes e = dp_routes d"
    using assms by (simp add: represents_def fun_eq_iff)
  moreover have "dp_next_id e = m"
    using assms(2) by (simp add: represents_def)
  ultimately show ?thesis
    by simp
qed

text \<open>
  C40: Subscribing a handler and unsubscribing the id it got is a round trip: whatever calls were made before, the second
  call answers true and both tables are as they were, only the id is used up.
\<close>

theorem unsubscribe_undoes_subscribe:
  assumes "length ps < 2 ^ 64 - 1" and "d = snd (run_ops dispatcher_exec ps dispatcher_new)"
    and "subscribe topic h d = (i, d')"
  shows "unsubscribe i d' = (True, d\<lparr>dp_next_id := dp_next_id d + 1\<rparr>)"
proof -
  obtain subs n where a: "snd (run_ops spec_exec ps ([], 0)) = (subs, n)"
    by fastforce
  have rep: "represents d (subs, n)"
    using dispatcher_run(2) [OF assms(1)] unfolding a assms(2) by simp
  have n: "n = dp_next_id d" "n \<noteq> - 1"
    using rep dispatcher_room [OF assms(1)] assms(2) by (auto simp: represents_def)
  have i: "i = n" and rep': "represents d' (subs @ [(n, topic, h)], n + 1)"
    using subscribe_simulates [OF rep n(2), of topic h] assms(3) by simp_all
  have "n \<notin> fst ` set subs"
    using rep by (auto simp: represents_def)
  then have "filter (\<lambda>s. fst s \<noteq> i) (subs @ [(n, topic, h)]) = subs"
    unfolding i by (auto intro!: filter_True)
  then have "represents (snd (unsubscribe i d')) (subs, n + 1)" "fst (unsubscribe i d')"
    using unsubscribe_simulates [OF rep', of i] i by simp_all
  then show ?thesis
    using represents_unique [OF rep] n(1) by (metis prod.collapse)
qed

theorem unsubscribe_undoes_subscribe_witness:
  "unsubscribe 1 (snd (subscribe ''kernel.custom'' 8 (snd (subscribe ''kernel.custom'' (7 :: nat) dispatcher_new)))) =
     (True, (snd (subscribe ''kernel.custom'' 7 dispatcher_new))\<lparr>dp_next_id := 2\<rparr>)"
proof -
  let ?d = "snd (subscribe ''kernel.custom'' (7 :: nat) dispatcher_new)"
  have "subscribe ''kernel.custom'' 8 ?d = (1, snd (subscribe ''kernel.custom'' 8 ?d))"
    by (simp add: subscribe_def dispatcher_new_def)
  from unsubscribe_undoes_subscribe [OF _ _ this, of "[OpSubscribe ''kernel.custom'' 7]"] show ?thesis
    by (simp add: subscribe_def dispatcher_new_def)
qed

end
