(* ===== verification/Dispatcher_Concurrent.thy ===== *)
theory Dispatcher_Concurrent
  imports Dispatcher
begin

text \<open>
  src/events/dispatcher.rs under concurrent calls. Each critical section of \<open>subscribe\<close>, \<open>unsubscribe\<close> and
  \<open>emit\<close> is one step: the counter, the lock around \<open>routes\<close> and the lock around \<open>by_id\<close> are taken one after the
  other. The numbers \<open>t\<close> are calls in progress, not threads, so a handler that subscribes or emits is a
  further call. \<open>dw_trace\<close> records, oldest first, what happened; it is not read by the code.
\<close>

section \<open>Steps\<close>

text \<open>Where a call is, with the local variables it has then.\<close>

datatype 'h dispatch_pc =
    CallIdle
  | SubscribeHasId u64 string 'h
  | SubscribeRouted u64 string
  | UnsubscribeClaimed u64 string
  | EmitCalling "(u64 \<times> 'h) list"

datatype 'h dispatch_event =
    Routed u64 string 'h
  | Subscribed u64
  | Claimed u64
  | Removed u64
  | Unsubscribed u64 bool
  | PickedUp string "(u64 \<times> 'h) list"
  | Delivered u64

record 'h dispatch_world =
  dw_table :: "'h dispatcher"
  dw_pc :: "nat \<Rightarrow> 'h dispatch_pc"
  dw_trace :: "'h dispatch_event list"

definition take_next_id :: "'h dispatcher \<Rightarrow> u64 \<times> 'h dispatcher" where
  "take_next_id d = (dp_next_id d, d\<lparr>dp_next_id := dp_next_id d + 1\<rparr>)"

definition push_route :: "u64 \<Rightarrow> string \<Rightarrow> 'h \<Rightarrow> 'h dispatcher \<Rightarrow> 'h dispatcher" where
  "push_route i topic h d =
     d\<lparr>dp_routes := (dp_routes d)(topic \<mapsto> (case dp_routes d topic of Some l \<Rightarrow> l | None \<Rightarrow> []) @ [(i, h)])\<rparr>"

definition index_id :: "u64 \<Rightarrow> string \<Rightarrow> 'h dispatcher \<Rightarrow> 'h dispatcher" where
  "index_id i topic d = d\<lparr>dp_by_id := (dp_by_id d)(i \<mapsto> topic)\<rparr>"

definition claim_id :: "u64 \<Rightarrow> 'h dispatcher \<Rightarrow> string option \<times> 'h dispatcher" where
  "claim_id i d = (dp_by_id d i, d\<lparr>dp_by_id := (dp_by_id d)(i := None)\<rparr>)"

definition remove_route :: "u64 \<Rightarrow> string \<Rightarrow> 'h dispatcher \<Rightarrow> bool \<times> 'h dispatcher" where
  "remove_route i topic d =
     (case dp_routes d topic of
        None \<Rightarrow> (False, d)
      | Some l \<Rightarrow>
          (case position (\<lambda>r. fst r = i) l of
             None \<Rightarrow> (False, d)
           | Some pos \<Rightarrow>
               (let l' = remove_at pos l
                in (True, d\<lparr>dp_routes := (dp_routes d)(topic := (if l' = [] then None else Some l'))\<rparr>))))"

definition routes_of :: "string \<Rightarrow> 'h dispatcher \<Rightarrow> (u64 \<times> 'h) list" where
  "routes_of topic d = (case dp_routes d topic of Some l \<Rightarrow> l | None \<Rightarrow> [])"

definition call_goes :: "nat \<Rightarrow> 'h dispatch_pc \<Rightarrow> 'h dispatch_event list \<Rightarrow> 'h dispatcher \<Rightarrow> 'h dispatch_world \<Rightarrow> 'h dispatch_world" where
  "call_goes t pc evs d w = \<lparr>dw_table = d, dw_pc = (dw_pc w)(t := pc), dw_trace = dw_trace w @ evs\<rparr>"

text \<open>
  An id can be unsubscribed once \<open>subscribe\<close> has returned it. The counter has not wrapped around.
\<close>

inductive dispatch_step :: "'h dispatch_world \<Rightarrow> 'h dispatch_world \<Rightarrow> bool" where
  subscribe_id: "dw_pc w t = CallIdle \<Longrightarrow> take_next_id (dw_table w) = (i, d) \<Longrightarrow> i \<noteq> - 1 \<Longrightarrow>
    dispatch_step w (call_goes t (SubscribeHasId i topic h) [] d w)"
| subscribe_route: "dw_pc w t = SubscribeHasId i topic h \<Longrightarrow>
    dispatch_step w (call_goes t (SubscribeRouted i topic) [Routed i topic h] (push_route i topic h (dw_table w)) w)"
| subscribe_index: "dw_pc w t = SubscribeRouted i topic \<Longrightarrow>
    dispatch_step w (call_goes t CallIdle [Subscribed i] (index_id i topic (dw_table w)) w)"
| unsubscribe_claim: "dw_pc w t = CallIdle \<Longrightarrow> Subscribed i \<in> set (dw_trace w) \<Longrightarrow>
    claim_id i (dw_table w) = (Some topic, d) \<Longrightarrow>
    dispatch_step w (call_goes t (UnsubscribeClaimed i topic) [Claimed i] d w)"
| unsubscribe_unknown: "dw_pc w t = CallIdle \<Longrightarrow> Subscribed i \<in> set (dw_trace w) \<Longrightarrow>
    claim_id i (dw_table w) = (None, d) \<Longrightarrow>
    dispatch_step w (call_goes t CallIdle [Unsubscribed i False] d w)"
| unsubscribe_remove: "dw_pc w t = UnsubscribeClaimed i topic \<Longrightarrow> remove_route i topic (dw_table w) = (found, d) \<Longrightarrow>
    dispatch_step w (call_goes t CallIdle ((if found then [Removed i] else []) @ [Unsubscribed i found]) d w)"
| emit_pick_up: "dw_pc w t = CallIdle \<Longrightarrow>
    dispatch_step w (call_goes t (EmitCalling (routes_of (KernelEvent_topic event) (dw_table w)))
      [PickedUp (KernelEvent_topic event) (routes_of (KernelEvent_topic event) (dw_table w))] (dw_table w) w)"
| emit_deliver: "dw_pc w t = EmitCalling ((i, h) # rs) \<Longrightarrow>
    dispatch_step w (call_goes t (EmitCalling rs) [Delivered i] (dw_table w) w)"
| emit_return: "dw_pc w t = EmitCalling [] \<Longrightarrow> dispatch_step w (call_goes t CallIdle [] (dw_table w) w)"

text \<open>The sequential operations are the steps of one call, run without interruption.\<close>

lemma subscribe_is_steps:
  "subscribe topic h d = (let (i, d1) = take_next_id d in (i, index_id i topic (push_route i topic h d1)))"
  by (simp add: subscribe_def take_next_id_def push_route_def index_id_def Let_def)

lemma unsubscribe_is_steps:
  "unsubscribe i d = (case claim_id i d of (None, d1) \<Rightarrow> (False, d) | (Some topic, d1) \<Rightarrow> remove_route i topic d1)"
  by (simp add: unsubscribe_def claim_id_def remove_route_def Let_def split: option.split)

lemma emit_is_steps: "emit_handlers event d = map snd (routes_of (KernelEvent_topic event) d)"
  by (simp add: emit_handlers_def routes_of_def split: option.split)

section \<open>The subscriptions a trace leaves\<close>

fun routed_on :: "string \<Rightarrow> u64 set \<Rightarrow> 'h dispatch_event list \<Rightarrow> (u64 \<times> 'h) list" where
  "routed_on topic gone [] = []"
| "routed_on topic gone (Routed i t h # tr) =
     (if t = topic \<and> i \<notin> gone then [(i, h)] else []) @ routed_on topic gone tr"
| "routed_on topic gone (_ # tr) = routed_on topic gone tr"

fun removed_ids :: "'h dispatch_event list \<Rightarrow> u64 set" where
  "removed_ids [] = {}"
| "removed_ids (Removed i # tr) = insert i (removed_ids tr)"
| "removed_ids (_ # tr) = removed_ids tr"

fun routed_ids :: "'h dispatch_event list \<Rightarrow> u64 list" where
  "routed_ids [] = []"
| "routed_ids (Routed i t h # tr) = i # routed_ids tr"
| "routed_ids (_ # tr) = routed_ids tr"

text \<open>The subscriptions of a topic that were routed and not removed, in the order in which they were routed.\<close>

definition live_on :: "string \<Rightarrow> 'h dispatch_event list \<Rightarrow> (u64 \<times> 'h) list" where
  "live_on topic tr = routed_on topic (removed_ids tr) tr"

lemma removed_ids_append [simp]: "removed_ids (tr @ us) = removed_ids tr \<union> removed_ids us"
  by (induction tr rule: removed_ids.induct) auto

lemma routed_ids_append [simp]: "routed_ids (tr @ us) = routed_ids tr @ routed_ids us"
  by (induction tr rule: routed_ids.induct) auto

lemma routed_on_append [simp]: "routed_on t R (tr @ us) = routed_on t R tr @ routed_on t R us"
  by (induction tr rule: routed_ids.induct) auto

lemma removed_in_trace: "i \<in> removed_ids tr \<longleftrightarrow> Removed i \<in> set tr"
  by (induction tr rule: removed_ids.induct) auto

lemma routed_in_trace: "i \<in> set (routed_ids tr) \<longleftrightarrow> (\<exists>t h. Routed i t h \<in> set tr)"
  by (induction tr rule: routed_ids.induct) auto

lemma in_routed_on: "(i, h) \<in> set (routed_on t R tr) \<longleftrightarrow> Routed i t h \<in> set tr \<and> i \<notin> R"
  by (induction tr rule: routed_ids.induct) auto

lemma in_live_on: "(i, h) \<in> set (live_on t tr) \<longleftrightarrow> Routed i t h \<in> set tr \<and> Removed i \<notin> set tr"
  by (simp add: live_on_def in_routed_on removed_in_trace)

lemma distinct_live_on: "distinct (routed_ids tr) \<Longrightarrow> distinct (map fst (live_on t tr))"
proof -
  have "fst ` set (routed_on t R tr) \<subseteq> set (routed_ids tr)" for R and tr :: "'a dispatch_event list"
    by (induction tr rule: routed_ids.induct) auto
  then have "distinct (routed_ids tr) \<Longrightarrow> distinct (map fst (routed_on t R tr))" for R and tr :: "'a dispatch_event list"
    by (induction tr rule: routed_ids.induct) auto
  then show "distinct (routed_ids tr) \<Longrightarrow> distinct (map fst (live_on t tr))"
    by (simp add: live_on_def)
qed

lemma routed_on_removed: "routed_on t (R \<union> Q) tr = filter (\<lambda>r. fst r \<notin> Q) (routed_on t R tr)"
  by (induction tr rule: routed_ids.induct) auto

lemma live_on_append:
  "live_on t (tr @ us) = filter (\<lambda>r. fst r \<notin> removed_ids us) (live_on t tr) @ routed_on t (removed_ids tr \<union> removed_ids us) us"
  by (simp add: live_on_def routed_on_removed)

section \<open>The invariant\<close>

text \<open>The id a call is working on, and what must be true of it.\<close>

fun pc_sound :: "'h dispatch_event list \<Rightarrow> u64 \<Rightarrow> 'h dispatch_pc \<Rightarrow> bool" where
  "pc_sound tr n (SubscribeHasId i t h) = (i < n \<and> i \<notin> set (routed_ids tr))"
| "pc_sound tr n (SubscribeRouted i t) = ((\<exists>h. Routed i t h \<in> set tr) \<and> Subscribed i \<notin> set tr)"
| "pc_sound tr n (UnsubscribeClaimed i t) =
     ((\<exists>h. Routed i t h \<in> set tr) \<and> Subscribed i \<in> set tr \<and> Claimed i \<in> set tr \<and> i \<notin> removed_ids tr)"
| "pc_sound tr n _ = True"

fun owned_id :: "'h dispatch_pc \<Rightarrow> u64 option" where
  "owned_id (SubscribeHasId i _ _) = Some i"
| "owned_id (SubscribeRouted i _) = Some i"
| "owned_id (UnsubscribeClaimed i _) = Some i"
| "owned_id _ = None"

definition history_sound :: "'h dispatch_event list \<Rightarrow> bool" where
  "history_sound tr \<longleftrightarrow> distinct (routed_ids tr) \<and>
     (\<forall>i. Subscribed i \<in> set tr \<longrightarrow> i \<in> set (routed_ids tr)) \<and>
     (\<forall>i. Claimed i \<in> set tr \<longrightarrow> Subscribed i \<in> set tr) \<and>
     (\<forall>i. count_list tr (Claimed i) \<le> 1) \<and>
     (\<forall>i. i \<in> removed_ids tr \<longrightarrow> Claimed i \<in> set tr) \<and>
     (\<forall>i. count_list tr (Removed i) \<le> 1) \<and>
     (\<forall>i. count_list tr (Unsubscribed i True) = count_list tr (Removed i)) \<and>
     (\<forall>i. Unsubscribed i False \<in> set tr \<longrightarrow> Claimed i \<in> set tr) \<and>
     (\<forall>us t rs vs. tr = us @ PickedUp t rs # vs \<longrightarrow> rs = live_on t us)"

definition table_sound :: "'h dispatcher \<Rightarrow> 'h dispatch_event list \<Rightarrow> bool" where
  "table_sound d tr \<longleftrightarrow>
     (\<forall>t. dp_routes d t = (if live_on t tr = [] then None else Some (live_on t tr))) \<and>
     (\<forall>i t. dp_by_id d i = Some t \<longleftrightarrow>
        (\<exists>h. Routed i t h \<in> set tr) \<and> Subscribed i \<in> set tr \<and> Claimed i \<notin> set tr) \<and>
     (\<forall>i \<in> set (routed_ids tr). i < dp_next_id d)"

definition dispatch_inv :: "'h dispatch_world \<Rightarrow> bool" where
  "dispatch_inv w \<longleftrightarrow> history_sound (dw_trace w) \<and> table_sound (dw_table w) (dw_trace w) \<and>
     (\<forall>t. pc_sound (dw_trace w) (dp_next_id (dw_table w)) (dw_pc w t)) \<and>
     (\<forall>t u i. owned_id (dw_pc w t) = Some i \<longrightarrow> owned_id (dw_pc w u) = Some i \<longrightarrow> t = u)"

definition idle_world :: "'h dispatch_world" where
  "idle_world = \<lparr>dw_table = dispatcher_new, dw_pc = (\<lambda>_. CallIdle), dw_trace = []\<rparr>"

definition dispatch_start :: "'h dispatch_world \<Rightarrow> bool" where
  "dispatch_start w \<longleftrightarrow> w = idle_world"

section \<open>Every step keeps the invariant\<close>

definition quiet_for :: "u64 \<Rightarrow> 'h dispatch_event list \<Rightarrow> bool" where
  "quiet_for i evs \<longleftrightarrow> i \<notin> set (routed_ids evs) \<and> Subscribed i \<notin> set evs \<and> i \<notin> removed_ids evs"

lemma pc_sound_extend:
  "pc_sound tr n pc \<Longrightarrow> (\<And>i. owned_id pc = Some i \<Longrightarrow> quiet_for i evs \<and> (i < n \<longrightarrow> i < n')) \<Longrightarrow>
   pc_sound (tr @ evs) n' pc"
  by (cases pc) (auto simp: quiet_for_def)

lemma inv_call_goes:
  assumes inv: "dispatch_inv w"
    and pc: "pc_sound (dw_trace w @ evs) (dp_next_id d) pc"
    and fresh: "\<And>i u. owned_id pc = Some i \<Longrightarrow> u \<noteq> t \<Longrightarrow> owned_id (dw_pc w u) \<noteq> Some i"
    and others: "\<And>i u. u \<noteq> t \<Longrightarrow> owned_id (dw_pc w u) = Some i \<Longrightarrow> quiet_for i evs"
    and grows: "\<And>i. i < dp_next_id (dw_table w) \<Longrightarrow> i < dp_next_id d"
    and hist: "history_sound (dw_trace w @ evs)" and tab: "table_sound d (dw_trace w @ evs)"
  shows "dispatch_inv (call_goes t pc evs d w)"
proof -
  have "pc_sound (dw_trace w @ evs) (dp_next_id d) (dw_pc w u)" if "u \<noteq> t" for u
    using inv others [OF that] grows by (intro pc_sound_extend) (auto simp: dispatch_inv_def)
  then have pcs: "\<forall>u. pc_sound (dw_trace w @ evs) (dp_next_id d) (((dw_pc w)(t := pc)) u)"
    using pc by simp
  have "\<forall>u v i. owned_id (dw_pc w u) = Some i \<longrightarrow> owned_id (dw_pc w v) = Some i \<longrightarrow> u = v"
    using inv by (simp add: dispatch_inv_def)
  then have own: "\<forall>u v i. owned_id (((dw_pc w)(t := pc)) u) = Some i \<longrightarrow>
      owned_id (((dw_pc w)(t := pc)) v) = Some i \<longrightarrow> u = v"
    using fresh by (metis fun_upd_apply)
  show ?thesis
    unfolding dispatch_inv_def call_goes_def dispatch_world.select_convs by (intro conjI hist tab pcs own)
qed

lemma inv_parts:
  assumes "dispatch_inv w"
  shows "distinct (routed_ids (dw_trace w))"
    and "Subscribed i \<in> set (dw_trace w) \<Longrightarrow> i \<in> set (routed_ids (dw_trace w))"
    and "Claimed i \<in> set (dw_trace w) \<Longrightarrow> Subscribed i \<in> set (dw_trace w)"
    and "i \<in> removed_ids (dw_trace w) \<Longrightarrow> Claimed i \<in> set (dw_trace w)"
    and "dp_routes (dw_table w) t = (if live_on t (dw_trace w) = [] then None else Some (live_on t (dw_trace w)))"
    and "dp_by_id (dw_table w) i = Some t \<longleftrightarrow> (\<exists>h. Routed i t h \<in> set (dw_trace w)) \<and>
      Subscribed i \<in> set (dw_trace w) \<and> Claimed i \<notin> set (dw_trace w)"
    and "i \<in> set (routed_ids (dw_trace w)) \<Longrightarrow> i < dp_next_id (dw_table w)"
    and "pc_sound (dw_trace w) (dp_next_id (dw_table w)) (dw_pc w u)"
  using assms by (auto simp: dispatch_inv_def history_sound_def table_sound_def)

lemma owned_below:
  assumes "dispatch_inv w" and "owned_id (dw_pc w u) = Some i"
  shows "i < dp_next_id (dw_table w)"
proof -
  have "i \<in> set (routed_ids (dw_trace w)) \<or> i < dp_next_id (dw_table w)"
    using inv_parts(8) [OF assms(1), of u] assms(2) by (cases "dw_pc w u") (auto simp: routed_in_trace)
  then show ?thesis
    using inv_parts(7) [OF assms(1)] by blast
qed

lemma routes_of_live: "dispatch_inv w \<Longrightarrow> routes_of t (dw_table w) = live_on t (dw_trace w)"
  using inv_parts(5) [of w t] by (simp add: routes_of_def)

lemma routed_topic:
  "distinct (routed_ids tr) \<Longrightarrow> Routed i t h \<in> set tr \<Longrightarrow> Routed i u k \<in> set tr \<Longrightarrow> t = u \<and> h = k"
  by (induction tr rule: routed_ids.induct) (auto simp: routed_in_trace)

text \<open>A claimed subscription is still in its route, so the removal finds it.\<close>

lemma remove_claimed:
  assumes inv: "dispatch_inv w" and pc: "dw_pc w t = UnsubscribeClaimed i topic"
  obtains "remove_route i topic (dw_table w) =
      (True, (dw_table w)\<lparr>dp_routes := (\<lambda>u. if live_on u (dw_trace w @ [Removed i]) = [] then None
         else Some (live_on u (dw_trace w @ [Removed i])))\<rparr>)"
proof -
  let ?tr = "dw_trace w" and ?d = "dw_table w"
  obtain h where h: "Routed i topic h \<in> set ?tr" "i \<notin> removed_ids ?tr"
    using inv_parts(8) [OF inv, of t] pc by auto
  let ?l = "live_on topic ?tr"
  have mem: "(i, h) \<in> set ?l"
    using h by (simp add: in_live_on removed_in_trace)
  then obtain pos where pos: "position (\<lambda>r. fst r = i) ?l = Some pos"
    using position_None_iff [of "\<lambda>r. fst r = i" ?l] by fastforce
  have live: "live_on u (?tr @ [Removed i]) = filter (\<lambda>r. fst r \<noteq> i) (live_on u ?tr)" for u
    by (simp add: live_on_append)
  have cut: "remove_at pos ?l = live_on topic (?tr @ [Removed i])"
    using remove_at_position [OF distinct_live_on [OF inv_parts(1) [OF inv]] pos] by (simp add: live)
  have rest: "live_on u (?tr @ [Removed i]) = live_on u ?tr" if "u \<noteq> topic" for u
    unfolding live using routed_topic [OF inv_parts(1) [OF inv] h(1)] that
    by (intro filter_True) (auto simp: in_live_on)
  have route: "dp_routes ?d topic = Some ?l"
    using inv_parts(5) [OF inv, of topic] mem by auto
  have "(dp_routes ?d)(topic := (if remove_at pos ?l = [] then None else Some (remove_at pos ?l))) =
      (\<lambda>u. if live_on u (?tr @ [Removed i]) = [] then None else Some (live_on u (?tr @ [Removed i])))"
    by (rule ext) (simp add: cut rest inv_parts(5) [OF inv])
  then show ?thesis
    using that route pos by (simp add: remove_route_def Let_def)
qed

lemma inv_hist: "dispatch_inv w \<Longrightarrow> history_sound (dw_trace w)"
  and inv_table: "dispatch_inv w \<Longrightarrow> table_sound (dw_table w) (dw_trace w)"
  by (simp_all add: dispatch_inv_def)

lemma inv_counts:
  "dispatch_inv w \<Longrightarrow> count_list (dw_trace w) (Claimed i) \<le> 1"
  "dispatch_inv w \<Longrightarrow> count_list (dw_trace w) (Removed i) \<le> 1"
  by (simp_all add: dispatch_inv_def history_sound_def)

text \<open>
  Extending the history: the clauses that remain when the counts and sets of the prefix are known.
\<close>

lemma history_extend:
  assumes h: "history_sound tr"
    and "distinct (routed_ids tr @ routed_ids evs)"
    and "\<And>i. Subscribed i \<in> set evs \<Longrightarrow> i \<in> set (routed_ids (tr @ evs))"
    and "\<And>i. Claimed i \<in> set evs \<Longrightarrow> Subscribed i \<in> set (tr @ evs)"
    and "\<And>i. count_list tr (Claimed i) + count_list evs (Claimed i) \<le> 1"
    and "\<And>i. i \<in> removed_ids evs \<Longrightarrow> Claimed i \<in> set (tr @ evs)"
    and "\<And>i. count_list tr (Removed i) + count_list evs (Removed i) \<le> 1"
    and "\<And>i. count_list evs (Unsubscribed i True) = count_list evs (Removed i)"
    and "\<And>i. Unsubscribed i False \<in> set evs \<Longrightarrow> Claimed i \<in> set (tr @ evs)"
    and "\<And>us t rs vs. tr @ evs = us @ PickedUp t rs # vs \<Longrightarrow> rs = live_on t us"
  shows "history_sound (tr @ evs)"
proof -
  note hs = h [unfolded history_sound_def]
  have "\<forall>i. Subscribed i \<in> set (tr @ evs) \<longrightarrow> i \<in> set (routed_ids (tr @ evs))"
    using hs assms(3) by (metis Un_iff routed_ids_append set_append)
  moreover have "\<forall>i. Claimed i \<in> set (tr @ evs) \<longrightarrow> Subscribed i \<in> set (tr @ evs)"
    using hs assms(4) by (metis Un_iff set_append)
  moreover have "\<forall>i. i \<in> removed_ids (tr @ evs) \<longrightarrow> Claimed i \<in> set (tr @ evs)"
    using hs assms(6) by (metis Un_iff removed_ids_append set_append)
  moreover have "\<forall>i. Unsubscribed i False \<in> set (tr @ evs) \<longrightarrow> Claimed i \<in> set (tr @ evs)"
    using hs assms(9) by (metis Un_iff set_append)
  moreover have "\<forall>i. count_list (tr @ evs) (Unsubscribed i True) = count_list (tr @ evs) (Removed i)"
    using hs assms(8) by (simp add: count_list_append)
  moreover have "\<forall>us t rs vs. tr @ evs = us @ PickedUp t rs # vs \<longrightarrow> rs = live_on t us"
    using assms(10) by blast
  ultimately show ?thesis
    unfolding history_sound_def using assms(2,5,7) by (simp add: count_list_append)
qed

lemma picked_before:
  assumes "history_sound tr" and "\<And>t rs. PickedUp t rs \<notin> set evs" and "tr @ evs = us @ PickedUp t rs # vs"
  shows "rs = live_on t us"
  using assms split_left [OF assms(3)] unfolding history_sound_def by blast

lemma table_soundI:
  assumes "\<And>t. dp_routes d t = (if live_on t tr = [] then None else Some (live_on t tr))"
    and "\<And>i t. dp_by_id d i = Some t \<longleftrightarrow> (\<exists>h. Routed i t h \<in> set tr) \<and> Subscribed i \<in> set tr \<and> Claimed i \<notin> set tr"
    and "\<And>i. i \<in> set (routed_ids tr) \<Longrightarrow> i < dp_next_id d"
  shows "table_sound d tr"
  unfolding table_sound_def using assms by blast

lemma live_neutral: "routed_ids evs = [] \<Longrightarrow> removed_ids evs = {} \<Longrightarrow> live_on t (tr @ evs) = live_on t tr"
proof -
  have "routed_ids evs = [] \<Longrightarrow> routed_on t R evs = []" for R
    by (induction evs rule: routed_ids.induct) auto
  then show "routed_ids evs = [] \<Longrightarrow> removed_ids evs = {} \<Longrightarrow> live_on t (tr @ evs) = live_on t tr"
    by (simp add: live_on_append)
qed

lemma step_subscribe_route:
  assumes inv: "dispatch_inv w" and pc: "dw_pc w t = SubscribeHasId i topic h"
  shows "dispatch_inv (call_goes t (SubscribeRouted i topic) [Routed i topic h] (push_route i topic h (dw_table w)) w)"
proof -
  let ?tr = "dw_trace w" and ?d = "push_route i topic h (dw_table w)"
  have new: "i \<notin> set (routed_ids ?tr)" "i < dp_next_id (dw_table w)"
    using inv_parts(8) [OF inv, of t] pc by auto
  then have old: "Subscribed i \<notin> set ?tr" "Claimed i \<notin> set ?tr" "i \<notin> removed_ids ?tr"
    using inv_parts(2-4) [OF inv] by blast+
  have no: "\<And>u k. Routed i u k \<notin> set ?tr"
    using new(1) routed_in_trace by blast
  have live: "live_on u (?tr @ [Routed i topic h]) = live_on u ?tr @ (if u = topic then [(i, h)] else [])" for u
    using old(3) by (simp add: live_on_append)
  have "history_sound (?tr @ [Routed i topic h])"
  proof (rule history_extend [OF inv_hist [OF inv]])
    show "rs = live_on u us" if "?tr @ [Routed i topic h] = us @ PickedUp u rs # vs" for us u rs vs
      by (rule picked_before [OF inv_hist [OF inv] _ that]) simp
  qed (use new(1) inv_parts(1) [OF inv] inv_counts [OF inv] in simp_all)
  moreover have "table_sound ?d (?tr @ [Routed i topic h])"
  proof (rule table_soundI)
    show "dp_by_id ?d j = Some u \<longleftrightarrow> (\<exists>k. Routed j u k \<in> set (?tr @ [Routed i topic h])) \<and>
        Subscribed j \<in> set (?tr @ [Routed i topic h]) \<and> Claimed j \<notin> set (?tr @ [Routed i topic h])" for j u
      using inv_parts(6) [OF inv, of j u] old by (cases "j = i") (auto simp: push_route_def)
    show "dp_routes ?d u = (if live_on u (?tr @ [Routed i topic h]) = [] then None
        else Some (live_on u (?tr @ [Routed i topic h])))" for u
      using inv_parts(5) [OF inv, of u] inv_parts(5) [OF inv, of topic] by (simp add: push_route_def live)
  qed (use inv_parts(7) [OF inv] new(2) in \<open>auto simp: push_route_def\<close>)
  ultimately show ?thesis
    using inv pc old new no
    by (intro inv_call_goes) (auto simp: quiet_for_def push_route_def dispatch_inv_def)
qed

lemma step_subscribe_index:
  assumes inv: "dispatch_inv w" and pc: "dw_pc w t = SubscribeRouted i topic"
  shows "dispatch_inv (call_goes t CallIdle [Subscribed i] (index_id i topic (dw_table w)) w)"
proof -
  let ?tr = "dw_trace w" and ?d = "index_id i topic (dw_table w)"
  obtain h where h: "Routed i topic h \<in> set ?tr" "Subscribed i \<notin> set ?tr"
    using inv_parts(8) [OF inv, of t] pc by auto
  have r: "i \<in> set (routed_ids ?tr)"
    using h(1) routed_in_trace by blast
  have live: "live_on u (?tr @ [Subscribed i]) = live_on u ?tr" for u
    by (rule live_neutral) simp_all
  have cl: "Claimed i \<notin> set ?tr"
    using inv_parts(3) [OF inv] h(2) by blast
  have uniq: "Routed i u k \<in> set ?tr \<Longrightarrow> u = topic" for u k
    using routed_topic [OF inv_parts(1) [OF inv] h(1)] by blast
  have "history_sound (?tr @ [Subscribed i])"
  proof (rule history_extend [OF inv_hist [OF inv]])
    show "rs = live_on u us" if "?tr @ [Subscribed i] = us @ PickedUp u rs # vs" for us u rs vs
      by (rule picked_before [OF inv_hist [OF inv] _ that]) simp
  qed (use r inv_parts(1) [OF inv] inv_counts [OF inv] in simp_all)
  moreover have "table_sound ?d (?tr @ [Subscribed i])"
  proof (rule table_soundI)
    show "dp_by_id ?d j = Some u \<longleftrightarrow> (\<exists>h. Routed j u h \<in> set (?tr @ [Subscribed i])) \<and>
        Subscribed j \<in> set (?tr @ [Subscribed i]) \<and> Claimed j \<notin> set (?tr @ [Subscribed i])" for j u
    proof (cases "j = i")
      case True
      have "(\<exists>k. Routed i u k \<in> set ?tr) \<longleftrightarrow> u = topic"
        using h(1) uniq by blast
      then show ?thesis
        using True cl by (simp add: index_id_def eq_commute)
    next
      case False
      then show ?thesis
        using inv_parts(6) [OF inv, of j u] by (simp add: index_id_def)
    qed
  qed (use inv_parts(5,7) [OF inv] in \<open>simp_all add: index_id_def live\<close>)
  moreover have "owned_id (dw_pc w u) \<noteq> Some i" if "u \<noteq> t" for u
    using inv pc that unfolding dispatch_inv_def by (metis owned_id.simps(2))
  ultimately show ?thesis
    using inv by (intro inv_call_goes) (auto simp: quiet_for_def index_id_def)
qed

text \<open>Steps whose events neither route nor remove a subscription.\<close>

lemma table_neutral:
  assumes "table_sound d tr" and "routed_ids evs = []" and "removed_ids evs = {}"
    and "\<And>i. Subscribed i \<notin> set evs" and "\<And>i. Claimed i \<notin> set evs"
  shows "table_sound d (tr @ evs)"
proof -
  have "Routed i t h \<notin> set evs" for i t h
    using assms(2) routed_in_trace by (metis empty_iff empty_set)
  then show ?thesis
    using assms unfolding table_sound_def by (simp add: live_neutral)
qed

lemma step_subscribe_id:
  assumes inv: "dispatch_inv w" and "dp_next_id (dw_table w) \<noteq> - 1"
  shows "dispatch_inv (call_goes t (SubscribeHasId (dp_next_id (dw_table w)) topic h) []
    ((dw_table w)\<lparr>dp_next_id := dp_next_id (dw_table w) + 1\<rparr>) w)"
proof -
  let ?n = "dp_next_id (dw_table w)"
  have up: "?n < ?n + 1"
    using assms(2) by (metis add.commute add_minus_cancel less_plus_one)
  have "i < ?n + 1" if "i < ?n" for i
    using that up by (rule order.strict_trans)
  moreover have "table_sound ((dw_table w)\<lparr>dp_next_id := ?n + 1\<rparr>) (dw_trace w)"
    using inv_table [OF inv] order.strict_trans [OF _ up] unfolding table_sound_def by simp
  ultimately show ?thesis
    using inv_hist [OF inv] up inv_parts(7) [OF inv] owned_below [OF inv]
    by (intro inv_call_goes [OF inv]) (auto simp: quiet_for_def)
qed

lemma step_unsubscribe_claim:
  assumes inv: "dispatch_inv w" and some: "dp_by_id (dw_table w) i = Some topic"
  shows "dispatch_inv (call_goes t (UnsubscribeClaimed i topic) [Claimed i]
    ((dw_table w)\<lparr>dp_by_id := (dp_by_id (dw_table w))(i := None)\<rparr>) w)"
proof -
  let ?tr = "dw_trace w" and ?d = "(dw_table w)\<lparr>dp_by_id := (dp_by_id (dw_table w))(i := None)\<rparr>"
  obtain h where h: "Routed i topic h \<in> set ?tr" "Subscribed i \<in> set ?tr" "Claimed i \<notin> set ?tr"
    using some inv_parts(6) [OF inv, of i topic] by blast
  have kept: "i \<notin> removed_ids ?tr"
    using h(3) inv_parts(4) [OF inv] by blast
  have "history_sound (?tr @ [Claimed i])"
  proof (rule history_extend [OF inv_hist [OF inv]])
    show "rs = live_on u us" if "?tr @ [Claimed i] = us @ PickedUp u rs # vs" for us u rs vs
      by (rule picked_before [OF inv_hist [OF inv] _ that]) simp
    show "count_list ?tr (Claimed j) + count_list [Claimed i] (Claimed j) \<le> 1" for j
      using inv_counts(1) [OF inv, of j] h(3) by (cases "i = j") (simp_all add: count_list_0_iff)
  qed (use h inv_parts(1) [OF inv] inv_counts [OF inv] in simp_all)
  moreover have "table_sound ?d (?tr @ [Claimed i])"
  proof (rule table_soundI)
    show "dp_by_id ?d j = Some u \<longleftrightarrow> (\<exists>h. Routed j u h \<in> set (?tr @ [Claimed i])) \<and>
        Subscribed j \<in> set (?tr @ [Claimed i]) \<and> Claimed j \<notin> set (?tr @ [Claimed i])" for j u
      using inv_parts(6) [OF inv, of j u] by (cases "j = i") simp_all
  qed (use inv_parts(5,7) [OF inv] in \<open>simp_all add: live_neutral\<close>)
  moreover have "owned_id (dw_pc w u) \<noteq> Some i" for u
    using inv_parts(8) [OF inv, of u] h by (cases "dw_pc w u") (auto simp: routed_in_trace)
  ultimately show ?thesis
    using h kept by (intro inv_call_goes [OF inv]) (auto simp: quiet_for_def)
qed

lemma step_unsubscribe_unknown:
  assumes inv: "dispatch_inv w" and sub: "Subscribed i \<in> set (dw_trace w)" and none: "dp_by_id (dw_table w) i = None"
  shows "dispatch_inv (call_goes t CallIdle [Unsubscribed i False] (dw_table w) w)"
proof -
  obtain u h where "Routed i u h \<in> set (dw_trace w)"
    using inv_parts(2) [OF inv sub] unfolding routed_in_trace by blast
  then have claimed: "Claimed i \<in> set (dw_trace w)"
    using sub none inv_parts(6) [OF inv, of i u] by auto
  have "history_sound (dw_trace w @ [Unsubscribed i False])"
  proof (rule history_extend [OF inv_hist [OF inv]])
    show "rs = live_on u us" if "dw_trace w @ [Unsubscribed i False] = us @ PickedUp u rs # vs" for us u rs vs
      by (rule picked_before [OF inv_hist [OF inv] _ that]) simp
  qed (use claimed inv_parts(1) [OF inv] inv_counts [OF inv] in simp_all)
  then show ?thesis
    using table_neutral [OF inv_table [OF inv]] by (intro inv_call_goes [OF inv]) (auto simp: quiet_for_def)
qed

lemma step_unsubscribe_remove:
  assumes inv: "dispatch_inv w" and pc: "dw_pc w t = UnsubscribeClaimed i topic"
    and rm: "remove_route i topic (dw_table w) = (found, d)"
  shows "found \<and> dispatch_inv (call_goes t CallIdle [Removed i, Unsubscribed i True] d w)"
proof -
  let ?tr = "dw_trace w" and ?evs = "[Removed i, Unsubscribed i True]"
  have d: "found \<and> d = (dw_table w)\<lparr>dp_routes := (\<lambda>u. if live_on u (?tr @ [Removed i]) = [] then None
      else Some (live_on u (?tr @ [Removed i])))\<rparr>"
    by (rule remove_claimed [OF inv pc]) (use rm in simp)
  have own: "Claimed i \<in> set ?tr" "i \<notin> removed_ids ?tr"
    using inv_parts(8) [OF inv, of t] pc by auto
  have live: "live_on u (?tr @ ?evs) = live_on u (?tr @ [Removed i])" for u
    using live_neutral [of "[Unsubscribed i True]" u "?tr @ [Removed i]"] by simp
  have "history_sound (?tr @ ?evs)"
  proof (rule history_extend [OF inv_hist [OF inv]])
    show "rs = live_on u us" if "?tr @ ?evs = us @ PickedUp u rs # vs" for us u rs vs
      by (rule picked_before [OF inv_hist [OF inv] _ that]) simp
    show "count_list ?tr (Removed j) + count_list ?evs (Removed j) \<le> 1" for j
      using inv_counts(2) [OF inv, of j] own(2) by (cases "i = j") (simp_all add: removed_in_trace count_list_0_iff)
  qed (use own inv_parts(1) [OF inv] inv_counts [OF inv] in simp_all)
  moreover have "table_sound d (?tr @ ?evs)"
    by (rule table_soundI) (use d inv_parts(6,7) [OF inv] in \<open>simp_all add: live\<close>)
  moreover have "owned_id (dw_pc w u) \<noteq> Some i" if "u \<noteq> t" for u
    using inv pc that unfolding dispatch_inv_def by (metis owned_id.simps(3))
  ultimately show ?thesis
    using d by (intro conjI inv_call_goes [OF inv]) (auto simp: quiet_for_def)
qed

lemma step_emit_pick_up:
  assumes inv: "dispatch_inv w"
  shows "dispatch_inv (call_goes t (EmitCalling (routes_of u (dw_table w))) [PickedUp u (routes_of u (dw_table w))]
    (dw_table w) w)"
proof -
  let ?evs = "[PickedUp u (routes_of u (dw_table w))]"
  have "history_sound (dw_trace w @ ?evs)"
  proof (rule history_extend [OF inv_hist [OF inv]])
    show "rs = live_on v us" if "dw_trace w @ ?evs = us @ PickedUp v rs # vs" for us v rs vs
    proof (cases vs rule: rev_cases)
      case Nil
      then show ?thesis
        using that by (auto simp: routes_of_live [OF inv])
    next
      case (snoc ys y)
      then have "dw_trace w = us @ PickedUp v rs # ys"
        using that by (simp flip: append_Cons append_assoc)
      then show ?thesis
        using inv_hist [OF inv] unfolding history_sound_def by blast
    qed
  qed (use inv_parts(1) [OF inv] inv_counts [OF inv] in simp_all)
  then show ?thesis
    using table_neutral [OF inv_table [OF inv]] by (intro inv_call_goes [OF inv]) (auto simp: quiet_for_def)
qed

lemma step_emit_deliver:
  assumes inv: "dispatch_inv w" and pc: "owned_id pc = None" and evs: "evs = [] \<or> evs = [Delivered i]"
  shows "dispatch_inv (call_goes t pc evs (dw_table w) w)"
proof -
  have no: "removed_ids evs = {}" "routed_ids evs = []" "quiet_for j evs" "PickedUp u rs \<notin> set evs"
    "Claimed j \<notin> set evs" "Subscribed j \<notin> set evs" "Removed j \<notin> set evs" "Unsubscribed j b \<notin> set evs" for j u rs b
    using evs by (auto simp: quiet_for_def)
  have "history_sound (dw_trace w @ evs)"
  proof (rule history_extend [OF inv_hist [OF inv]])
    show "rs = live_on u us" if "dw_trace w @ evs = us @ PickedUp u rs # vs" for us u rs vs
      by (rule picked_before [OF inv_hist [OF inv] no(4) that])
  qed (use no inv_parts(1) [OF inv] inv_counts [OF inv] in simp_all)
  moreover have "table_sound (dw_table w) (dw_trace w @ evs)"
    by (rule table_neutral [OF inv_table [OF inv] no(2,1,6,5)])
  moreover have "pc_sound (dw_trace w @ evs) n pc" for n
    using pc by (cases pc) simp_all
  ultimately show ?thesis
    using pc no(3) by (intro inv_call_goes [OF inv]) auto
qed

lemma dispatch_inv_step:
  assumes inv: "dispatch_inv w" and step: "dispatch_step w w'"
  shows "dispatch_inv w'"
  using step
proof cases
  case (subscribe_id t i d topic h)
  then show ?thesis
    using step_subscribe_id [OF inv] by (auto simp: take_next_id_def)
next
  case (unsubscribe_claim t i topic d)
  then show ?thesis
    using step_unsubscribe_claim [OF inv] by (auto simp: claim_id_def)
next
  case (unsubscribe_unknown t i d)
  then have "d = dw_table w" and none: "dp_by_id (dw_table w) i = None"
    by (auto simp: claim_id_def fun_upd_idem)
  then show ?thesis
    using unsubscribe_unknown(1,3) step_unsubscribe_unknown [OF inv _ none] by simp
next
  case (unsubscribe_remove t i topic found d)
  then show ?thesis
    using step_unsubscribe_remove [OF inv unsubscribe_remove(2,3)] by simp
qed (use step_subscribe_route [OF inv] step_subscribe_index [OF inv] step_emit_pick_up [OF inv]
       step_emit_deliver [OF inv] in auto)

interpretation routing: invariant_system dispatch_start dispatch_step dispatch_inv
proof unfold_locales
  show "dispatch_start w \<Longrightarrow> dispatch_inv w" for w :: "'a dispatch_world"
    by (simp add: dispatch_start_def idle_world_def dispatch_inv_def history_sound_def table_sound_def live_on_def dispatcher_new_def)
qed (rule dispatch_inv_step)

section \<open>What concurrent callers can rely on\<close>

lemma picked_up_live:
  assumes "dispatch_inv w" and "dw_trace w = us @ PickedUp topic rs # vs"
  shows "rs = live_on topic us" and "distinct (map fst rs)"
proof -
  show rs: "rs = live_on topic us"
    using inv_hist [OF assms(1)] assms(2) unfolding history_sound_def by blast
  have "distinct (routed_ids us)"
    using inv_parts(1) [OF assms(1)] by (simp add: assms(2))
  then show "distinct (map fst rs)"
    unfolding rs by (rule distinct_live_on)
qed


text \<open>
  However calls interleave, at most one unsubscribe of an id answers true, and one that answers false comes
  after another has claimed the id. The claimed handler is always found in its route.
\<close>

theorem one_unsubscribe_wins:
  assumes "dispatch_start w0" and "dispatch_step\<^sup>*\<^sup>* w0 w"
  shows "count_list (dw_trace w) (Unsubscribed i True) \<le> 1 \<and>
    (Unsubscribed i False \<in> set (dw_trace w) \<longrightarrow> Claimed i \<in> set (dw_trace w)) \<and>
    (dw_pc w t = UnsubscribeClaimed i topic \<longrightarrow> fst (remove_route i topic (dw_table w)))"
proof -
  note inv = routing.inv_reachable [OF assms]
  have "fst (remove_route i topic (dw_table w))" if "dw_pc w t = UnsubscribeClaimed i topic"
    by (rule remove_claimed [OF inv that]) simp
  then show ?thesis
    using inv_hist [OF inv] unfolding history_sound_def by simp
qed

section \<open>Runs\<close>

definition world_of ::
  "u64 \<Rightarrow> (string \<times> (u64 \<times> 'h) list) option \<Rightarrow> (u64 \<times> string) option \<Rightarrow> (nat \<times> 'h dispatch_pc) list \<Rightarrow>
   'h dispatch_event list \<Rightarrow> 'h dispatch_world" where
  "world_of n route entry pcs tr =
     \<lparr>dw_table = \<lparr>dp_routes = (case route of None \<Rightarrow> Map.empty | Some (t, l) \<Rightarrow> [t \<mapsto> l]),
        dp_by_id = (case entry of None \<Rightarrow> Map.empty | Some (i, t) \<Rightarrow> [i \<mapsto> t]), dp_next_id = n\<rparr>,
      dw_pc = foldl (\<lambda>f (t, pc). f(t := pc)) (\<lambda>_. CallIdle) pcs, dw_trace = tr\<rparr>"

text \<open>One subscription on \<open>topic\<close>, made by call 0.\<close>

lemma run_subscribe:
  "dispatch_step\<^sup>*\<^sup>* idle_world
     (world_of 1 (Some (topic, [(0, h)])) (Some (0, topic)) [] [Routed 0 topic h, Subscribed 0])"
proof -
  have "dispatch_step idle_world (world_of 1 None None [(0, SubscribeHasId 0 topic h)] [])"
    using dispatch_step.subscribe_id [of idle_world 0 0 "dispatcher_new\<lparr>dp_next_id := 1\<rparr>" topic h]
    by (simp add: idle_world_def world_of_def take_next_id_def dispatcher_new_def call_goes_def)
  moreover have "dispatch_step (world_of 1 None None [(0, SubscribeHasId 0 topic h)] [])
      (world_of 1 (Some (topic, [(0, h)])) None [(0, SubscribeRouted 0 topic)] [Routed 0 topic h])"
    using dispatch_step.subscribe_route [of "world_of 1 None None [(0, SubscribeHasId 0 topic h)] []" 0 0 topic h]
    by (simp add: world_of_def push_route_def call_goes_def)
  moreover have "dispatch_step (world_of 1 (Some (topic, [(0, h)])) None [(0, SubscribeRouted 0 topic)] [Routed 0 topic h])
      (world_of 1 (Some (topic, [(0, h)])) (Some (0, topic)) [] [Routed 0 topic h, Subscribed 0])"
    using dispatch_step.subscribe_index [of "world_of 1 (Some (topic, [(0, h)])) None [(0, SubscribeRouted 0 topic)]
        [Routed 0 topic h]" 0 0 topic]
    by (simp add: world_of_def index_id_def call_goes_def fun_upd_idem)
  ultimately show ?thesis
    by (meson r_into_rtranclp rtranclp_trans)
qed

text \<open>
  Call 1 claims the id and is interrupted; call 2 unsubscribes the same id and is told that it is unknown or was
  already removed; an emit of call 3 then still calls the handler.
\<close>

lemma run_refused_unsubscribe:
  fixes h :: 'h
  shows "dispatch_step\<^sup>*\<^sup>* idle_world
     (world_of 1 (Some (KernelEvent_topic event, [(0, h)])) None
        [(1, UnsubscribeClaimed 0 (KernelEvent_topic event)), (3, EmitCalling [])]
        [Routed 0 (KernelEvent_topic event) h, Subscribed 0, Claimed 0, Unsubscribed 0 False,
         PickedUp (KernelEvent_topic event) [(0, h)], Delivered 0])"
proof -
  let ?t = "KernelEvent_topic event"
  let ?r = "Some (?t, [(0, h)])" and ?tr = "[Routed 0 ?t h, Subscribed 0]" and ?pc = "(1, UnsubscribeClaimed 0 ?t)"
  let ?w0 = "world_of 1 ?r (Some (0, ?t)) [] ?tr"
  let ?w1 = "world_of 1 ?r None [?pc] (?tr @ [Claimed 0])"
  let ?w2 = "world_of 1 ?r None [?pc] (?tr @ [Claimed 0, Unsubscribed 0 False])"
  let ?w3 = "world_of 1 ?r None [?pc, (3, EmitCalling [(0, h)])]
    (?tr @ [Claimed 0, Unsubscribed 0 False, PickedUp ?t [(0, h)]])"
  let ?w4 = "world_of 1 ?r None [?pc, (3, EmitCalling [])]
    (?tr @ [Claimed 0, Unsubscribed 0 False, PickedUp ?t [(0, h)], Delivered 0])"
  have "dispatch_step ?w0 ?w1"
    using dispatch_step.unsubscribe_claim [of ?w0 1 0 ?t "dw_table ?w1"]
    by (simp add: world_of_def claim_id_def call_goes_def)
  moreover have "dispatch_step ?w1 ?w2"
    using dispatch_step.unsubscribe_unknown [of ?w1 2 0 "dw_table ?w1"]
    by (simp add: world_of_def claim_id_def call_goes_def fun_upd_idem)
  moreover have "dispatch_step ?w2 ?w3"
    using dispatch_step.emit_pick_up [of ?w2 3 event]
    by (simp add: world_of_def routes_of_def call_goes_def)
  moreover have "dispatch_step ?w3 ?w4"
    using dispatch_step.emit_deliver [of ?w3 3 0 h "[]"]
    by (simp add: world_of_def call_goes_def)
  ultimately have "dispatch_step\<^sup>*\<^sup>* ?w0 ?w4"
    by (meson r_into_rtranclp rtranclp_trans)
  then show ?thesis
    using run_subscribe [of ?t h] rtranclp_trans [of dispatch_step idle_world ?w0 ?w4] by simp
qed

text \<open>
  An unsubscribe that answers false may return while the handler is still subscribed: an emit that begins
  after it still calls the handler.
\<close>

theorem refused_unsubscribe_still_delivers:
  "\<exists>w. dispatch_step\<^sup>*\<^sup>* idle_world w \<and>
     (\<exists>us vs. dw_trace w = us @ [Unsubscribed 0 False, PickedUp (KernelEvent_topic event) [(0, h)], Delivered 0] @ vs)"
proof (intro exI conjI)
  show "dispatch_step\<^sup>*\<^sup>* idle_world (world_of 1 (Some (KernelEvent_topic event, [(0, h)])) None
      [(1, UnsubscribeClaimed 0 (KernelEvent_topic event)), (3, EmitCalling [])]
      [Routed 0 (KernelEvent_topic event) h, Subscribed 0, Claimed 0, Unsubscribed 0 False,
       PickedUp (KernelEvent_topic event) [(0, h)], Delivered 0])"
    by (rule run_refused_unsubscribe)
  show "dw_trace (world_of 1 (Some (KernelEvent_topic event, [(0, h)])) None
      [(1, UnsubscribeClaimed 0 (KernelEvent_topic event)), (3, EmitCalling [])]
      [Routed 0 (KernelEvent_topic event) h, Subscribed 0, Claimed 0, Unsubscribed 0 False,
       PickedUp (KernelEvent_topic event) [(0, h)], Delivered 0]) =
    [Routed 0 (KernelEvent_topic event) h, Subscribed 0, Claimed 0] @
      [Unsubscribed 0 False, PickedUp (KernelEvent_topic event) [(0, h)], Delivered 0] @ []"
    by (simp add: world_of_def)
qed


theorem one_unsubscribe_wins_witness:
  "\<exists>w :: string dispatch_world. dispatch_step\<^sup>*\<^sup>* idle_world w \<and> Unsubscribed 0 False \<in> set (dw_trace w) \<and>
     dw_pc w 1 = UnsubscribeClaimed 0 CUSTOM_EVENT_ROOT_TOPIC \<and>
     count_list (dw_trace w) (Unsubscribed 0 True) \<le> 1 \<and> Claimed 0 \<in> set (dw_trace w) \<and>
     fst (remove_route 0 CUSTOM_EVENT_ROOT_TOPIC (dw_table w))"
proof -
  fix c
  let ?w = "world_of 1 (Some (KernelEvent_topic (Custom c), [(0, ''h'')])) None
      [(1, UnsubscribeClaimed 0 (KernelEvent_topic (Custom c))), (3, EmitCalling [])]
      [Routed 0 (KernelEvent_topic (Custom c)) ''h'', Subscribed 0, Claimed 0, Unsubscribed 0 False,
       PickedUp (KernelEvent_topic (Custom c)) [(0, ''h'')], Delivered 0]"
  have run: "dispatch_step\<^sup>*\<^sup>* idle_world ?w"
    by (rule run_refused_unsubscribe)
  have here: "Unsubscribed 0 False \<in> set (dw_trace ?w)" "dw_pc ?w 1 = UnsubscribeClaimed 0 CUSTOM_EVENT_ROOT_TOPIC"
    by (simp_all add: world_of_def)
  have "dispatch_start idle_world"
    by (simp add: dispatch_start_def)
  from one_unsubscribe_wins [OF this run, of 0 1 CUSTOM_EVENT_ROOT_TOPIC] show ?thesis
    using here run by blast
qed

end
