(* ===== verification/Health_Registry.thy ===== *)
theory Health_Registry
  imports Metrics "HOL-Library.Char_ord" "HOL-Library.List_Lexorder"
begin

text \<open>
  src/health: \<open>registry.rs\<close> and \<open>snapshot.rs\<close>. The map of statuses is an association list (the code
  iterates over it only to take a maximum, to count, and to collect names that it sorts). The
  aggregate is the byte of its atomic cell.

  \<open>report\<close> reads the aggregate before it takes the write lock. \<open>report_commit\<close> is everything
  after that read; the last section lets several threads interleave between the two.
\<close>

section \<open>Registry\<close>

record HealthRegistry =
  hr_subsystems :: "(string \<times> HealthStatus) list"
  hr_aggregate :: u8
  hr_events :: bool

record HealthSnapshot =
  hs_aggregate :: HealthStatus
  hs_subsystems :: "(string \<times> HealthStatus) list"
  hs_timestamp :: instant

definition HealthInner_new :: "bool \<Rightarrow> HealthRegistry" where
  "HealthInner_new events =
     \<lparr>hr_subsystems = [], hr_aggregate = HealthStatus_as_u8 H_Healthy, hr_events = events\<rparr>"

definition HealthRegistry_new :: HealthRegistry where
  "HealthRegistry_new = HealthInner_new False"

definition HealthRegistry_with_events :: HealthRegistry where
  "HealthRegistry_with_events = HealthInner_new True"

definition hr_load :: "HealthRegistry \<Rightarrow> HealthStatus" where
  "hr_load r = HealthStatus_from_u8 (hr_aggregate r)"

definition hr_store :: "HealthStatus \<Rightarrow> HealthRegistry \<Rightarrow> HealthRegistry" where
  "hr_store s r = r\<lparr>hr_aggregate := HealthStatus_as_u8 s\<rparr>"

definition hr_subsystem :: "string \<Rightarrow> HealthRegistry \<Rightarrow> HealthStatus option" where
  "hr_subsystem nm r = map_of (hr_subsystems r) nm"

definition hr_snapshot :: "instant \<Rightarrow> HealthRegistry \<Rightarrow> HealthSnapshot" where
  "hr_snapshot now r =
     \<lparr>hs_aggregate = hr_load r, hs_subsystems = hr_subsystems r, hs_timestamp = now\<rparr>"

text \<open>The aggregate the locked section decides on, from the table after the insert.\<close>

definition next_aggregate ::
    "HealthStatus \<Rightarrow> HealthStatus option \<Rightarrow> HealthStatus \<Rightarrow> (string \<times> HealthStatus) list \<Rightarrow> HealthStatus" where
  "next_aggregate prev_aggregate prev_subsystem status table =
     (if prev_aggregate < status then status
      else if prev_subsystem = Some prev_aggregate \<and> status < prev_aggregate
      then worst (vals table)
      else prev_aggregate)"

definition report_effects ::
    "string \<Rightarrow> HealthStatus option \<Rightarrow> HealthStatus \<Rightarrow> HealthStatus \<Rightarrow> HealthStatus \<Rightarrow> instant \<Rightarrow> effect list" where
  "report_effects subsystem prev_subsystem status prev_aggregate new_aggregate now =
     (let f = (case prev_subsystem of Some p \<Rightarrow> p | None \<Rightarrow> H_Unknown)
      in Emit (Health (SubsystemChanged subsystem f status now)) #
         (if new_aggregate \<noteq> prev_aggregate
          then [Emit (Health (AggregateChanged prev_aggregate new_aggregate now))] else []))"

definition report_commit ::
    "HealthStatus \<Rightarrow> string \<Rightarrow> HealthStatus \<Rightarrow> instant \<Rightarrow> HealthRegistry \<Rightarrow> HealthRegistry \<times> effect list" where
  "report_commit prev_aggregate subsystem status now r =
     (let prev_subsystem = map_of (hr_subsystems r) subsystem;
          table = AList.update subsystem status (hr_subsystems r);
          subsystem_changed = (prev_subsystem \<noteq> Some status);
          new_aggregate = next_aggregate prev_aggregate prev_subsystem status table;
          r = r\<lparr>hr_subsystems := table\<rparr>;
          r = (if new_aggregate \<noteq> prev_aggregate then hr_store new_aggregate r else r)
      in (r, if \<not> subsystem_changed \<or> \<not> hr_events r then []
             else report_effects subsystem prev_subsystem status prev_aggregate new_aggregate now))"

definition report ::
    "string \<Rightarrow> HealthStatus \<Rightarrow> instant \<Rightarrow> HealthRegistry \<Rightarrow> HealthRegistry \<times> effect list" where
  "report subsystem status now r = report_commit (hr_load r) subsystem status now r"

text \<open>
  \<open>HealthRegistry\<close> is a reference to this state and so is every \<open>HealthHandle\<close> taken from it; the methods of both are
  those of the state.
\<close>

definition HealthRegistry_report :: "string \<Rightarrow> HealthStatus \<Rightarrow> instant \<Rightarrow> HealthRegistry \<Rightarrow> HealthRegistry \<times> effect list" where
  [simp]: "HealthRegistry_report = report"

definition HealthRegistry_aggregate :: "HealthRegistry \<Rightarrow> HealthStatus" where
  [simp]: "HealthRegistry_aggregate = hr_load"

definition HealthRegistry_snapshot :: "instant \<Rightarrow> HealthRegistry \<Rightarrow> HealthSnapshot" where
  [simp]: "HealthRegistry_snapshot = hr_snapshot"

definition HealthRegistry_subsystem :: "string \<Rightarrow> HealthRegistry \<Rightarrow> HealthStatus option" where
  [simp]: "HealthRegistry_subsystem = hr_subsystem"

definition HealthHandle_report :: "string \<Rightarrow> HealthStatus \<Rightarrow> instant \<Rightarrow> HealthRegistry \<Rightarrow> HealthRegistry \<times> effect list" where
  [simp]: "HealthHandle_report = report"

definition HealthHandle_aggregate :: "HealthRegistry \<Rightarrow> HealthStatus" where
  [simp]: "HealthHandle_aggregate = hr_load"

definition HealthHandle_snapshot :: "instant \<Rightarrow> HealthRegistry \<Rightarrow> HealthSnapshot" where
  [simp]: "HealthHandle_snapshot = hr_snapshot"

definition HealthHandle_subsystem :: "string \<Rightarrow> HealthRegistry \<Rightarrow> HealthStatus option" where
  [simp]: "HealthHandle_subsystem = hr_subsystem"


section \<open>The aggregate is the worst status\<close>

definition health_inv :: "HealthRegistry \<Rightarrow> bool" where
  "health_inv r \<longleftrightarrow> distinct (keys (hr_subsystems r)) \<and> hr_load r = worst (vals (hr_subsystems r))"

lemma hr_load_store [simp]: "hr_load (hr_store s r) = s"
  by (simp add: hr_load_def hr_store_def)

lemma hr_load_subsystems [simp]: "hr_load (r\<lparr>hr_subsystems := m\<rparr>) = hr_load r"
  by (simp add: hr_load_def)

lemma hr_store_fields [simp]:
  "hr_subsystems (hr_store s r) = hr_subsystems r" "hr_events (hr_store s r) = hr_events r"
  by (simp_all add: hr_store_def)

lemma in_vals_update:
  assumes "distinct (keys m)"
  shows "v \<in> set (vals (AList.update k s m)) \<longleftrightarrow> v = s \<or> (\<exists>j. j \<noteq> k \<and> map_of m j = Some v)"
proof -
  have "v \<in> set (vals (AList.update k s m)) \<longleftrightarrow> (\<exists>j. (if j = k then Some s else map_of m j) = Some v)"
    using assms by (subst set_vals_map_of) simp_all
  then show ?thesis
    by (auto split: if_splits)
qed

lemma next_aggregate_worst:
  assumes dist: "distinct (keys m)" and agg: "a = worst (vals m)"
  shows "next_aggregate a (map_of m k) s (AList.update k s m) = worst (vals (AList.update k s m))"
proof -
  have le: "v \<le> a" if "map_of m j = Some v" for j v
    using that worst_ge [of v "vals m"] set_vals_map_of [OF dist] agg by blast
  consider "a < s" | "map_of m k = Some a" "s < a" | "s = a" | "map_of m k \<noteq> Some a" "s < a"
    by (metis linorder_less_linear)
  then show ?thesis
  proof cases
    case 1
    then have "worst (vals (AList.update k s m)) = s"
      by (intro worst_eqI; unfold in_vals_update [OF dist]) (auto dest!: le)
    with 1 show ?thesis
      by (simp add: next_aggregate_def)
  next
    case 2
    then show ?thesis
      by (auto simp: next_aggregate_def dest: less_asym)
  next
    case 3
    then have "worst (vals (AList.update k s m)) = a"
      by (intro worst_eqI; unfold in_vals_update [OF dist]) (auto dest!: le)
    with 3 show ?thesis
      by (simp add: next_aggregate_def)
  next
    case 4
    then have "vals m \<noteq> []"
      using agg le_Healthy [of s] by (auto simp: less_le)
    then obtain j where "map_of m j = Some a"
      using worst_in [of "vals m"] agg set_vals_map_of [OF dist] by blast
    moreover have "j \<noteq> k"
      using 4 calculation by auto
    ultimately have "worst (vals (AList.update k s m)) = a"
      using 4 by (intro worst_eqI; unfold in_vals_update [OF dist]) (auto dest: le)
    with 4 show ?thesis
      by (auto simp: next_aggregate_def dest: less_asym)
  qed
qed

lemma report_subsystems:
  "hr_subsystems (fst (report k s now r)) = AList.update k s (hr_subsystems r)"
  by (simp add: report_def report_commit_def Let_def)

lemma report_aggregate:
  "health_inv r \<Longrightarrow> hr_load (fst (report k s now r)) = worst (vals (AList.update k s (hr_subsystems r)))"
  using next_aggregate_worst [of "hr_subsystems r" "hr_load r" k s]
  by (auto simp: report_def report_commit_def Let_def health_inv_def)

lemma health_inv_new: "health_inv (HealthInner_new e)"
  by (simp add: health_inv_def HealthInner_new_def hr_load_def HealthStatus_from_u8_def)

interpretation health_machine: operation_machine
  "\<lambda>(k, s, now) r. fst (report k s now r)" health_inv
proof
  fix r :: HealthRegistry and p :: "string \<times> HealthStatus \<times> instant"
  assume "health_inv r"
  then show "health_inv ((\<lambda>(k, s, now) r. fst (report k s now r)) p r)"
    by (cases p) (auto simp: health_inv_def [of "fst _"] report_subsystems report_aggregate,
      simp add: health_inv_def)
qed

abbreviation reports :: "(string \<times> HealthStatus \<times> instant) list \<Rightarrow> HealthRegistry \<Rightarrow> HealthRegistry" where
  "reports \<equiv> fold (\<lambda>(k, s, now) r. fst (report k s now r))"

text \<open>The last status reported under a name.\<close>

definition last_report :: "(string \<times> HealthStatus \<times> instant) list \<Rightarrow> string \<Rightarrow> HealthStatus option" where
  "last_report ps k = map_of (map (\<lambda>(k, s, now). (k, s)) (rev ps)) k"

lemma last_report_snoc:
  "last_report (ps @ [(j, s, now)]) k = (if k = j then Some s else last_report ps k)"
  by (simp add: last_report_def)

lemma reports_subsystem:
  "map_of (hr_subsystems (reports ps (HealthInner_new e))) k = last_report ps k"
proof (induction ps rule: rev_induct)
  case Nil
  then show ?case by (simp add: last_report_def HealthInner_new_def)
next
  case (snoc p ps)
  obtain j s now where "p = (j, s, now)"
    by (cases p)
  with snoc show ?case
    by (simp add: last_report_snoc report_subsystems)
qed

text \<open>
  C18: From a new registry, after any sequence of reports the aggregate that is read from the
  atomic byte is the worst status in the table, and the table holds, for every name, the last
  status reported under it.
\<close>

theorem aggregate_is_worst_reported:
  "hr_load (reports ps (HealthInner_new e)) =
     worst (vals (hr_subsystems (reports ps (HealthInner_new e)))) \<and>
   hr_subsystem k (reports ps (HealthInner_new e)) = last_report ps k"
  using health_machine.inv_fold [OF health_inv_new, of ps e]
  by (simp add: health_inv_def hr_subsystem_def reports_subsystem)

text \<open>
  Called on a registry whose aggregate is the worst of its table, \<open>report\<close> emits nothing when
  the status is the one already recorded; otherwise it emits one \<open>SubsystemChanged\<close> (from
  \<open>Unknown\<close> on a first report) and then, exactly when the worst status moved, one
  \<open>AggregateChanged\<close> from the old worst to the new.
\<close>

theorem report_announces_changes:
  assumes "health_inv r" and "hr_events r"
  shows "snd (report k s now r) =
    (if map_of (hr_subsystems r) k = Some s then []
     else let old = worst (vals (hr_subsystems r));
              new = worst (vals (AList.update k s (hr_subsystems r)))
          in Emit (Health (SubsystemChanged k
               (case map_of (hr_subsystems r) k of Some p \<Rightarrow> p | None \<Rightarrow> H_Unknown) s now)) #
             (if new = old then [] else [Emit (Health (AggregateChanged old new now))]))"
  using assms next_aggregate_worst [of "hr_subsystems r" "hr_load r" k s]
  by (simp add: report_def report_commit_def report_effects_def Let_def health_inv_def)

theorem report_announces_changes_witness:
  "let r = reports [(''db'', H_Critical, 5), (''api'', H_Degraded, 6)] HealthRegistry_with_events
   in health_inv r \<and> hr_events r \<and>
      snd (report ''db'' H_Healthy 7 r) =
        [Emit (Health (SubsystemChanged ''db'' H_Critical H_Healthy 7)),
         Emit (Health (AggregateChanged H_Critical H_Degraded 7))]"
proof -
  let ?r = "reports [(''db'', H_Critical, 5), (''api'', H_Degraded, 6)] HealthRegistry_with_events"
  have r: "health_inv ?r" "hr_events ?r" "hr_subsystems ?r = [(''db'', H_Critical), (''api'', H_Degraded)]"
    using health_machine.inv_fold [OF health_inv_new, of "[(''db'', H_Critical, 5), (''api'', H_Degraded, 6)]" True]
    by (simp_all add: HealthRegistry_with_events_def HealthInner_new_def report_def report_commit_def Let_def hr_store_def)
  then show ?thesis
    using report_announces_changes [OF r(1,2), of "''db''" H_Healthy 7]
    by (simp add: r(3) HealthStatus_order max_def Let_def word_le_nat_alt)
qed

section \<open>Snapshots\<close>

definition count_by_status :: "HealthStatus \<Rightarrow> HealthSnapshot \<Rightarrow> nat" where
  "count_by_status s snap = length (filter (\<lambda>t. t = s) (vals (hs_subsystems snap)))"

definition unhealthy_subsystems :: "HealthSnapshot \<Rightarrow> string list" where
  "unhealthy_subsystems snap =
     sort (map fst (filter (\<lambda>(name, status). HealthStatus_is_actionable status) (hs_subsystems snap)))"

text \<open>
  Whatever was reported, a snapshot's \<open>unhealthy_subsystems\<close> is the strictly increasing list
  of exactly the names whose last report needs action (so it does not depend on the order in which
  the hash map is walked), and \<open>count_by_status\<close> counts the names whose last report has that status.
\<close>

theorem snapshot_summarises_last_reports:
  "let snap = hr_snapshot now (reports ps (HealthInner_new e))
   in sorted (unhealthy_subsystems snap) \<and> distinct (unhealthy_subsystems snap) \<and>
      set (unhealthy_subsystems snap) =
        {k. \<exists>s. last_report ps k = Some s \<and> HealthStatus_is_actionable s} \<and>
      count_by_status st snap = card {k. last_report ps k = Some st}"
proof -
  let ?r = "reports ps (HealthInner_new e)" and ?m = "hr_subsystems (reports ps (HealthInner_new e))"
  have dist: "distinct (keys ?m)"
    using health_machine.inv_fold [OF health_inv_new, of ps e] by (simp add: health_inv_def)
  have mem: "(k, s) \<in> set ?m \<longleftrightarrow> last_report ps k = Some s" for k s
    using dist map_of_eq_Some_iff [of ?m k s] by (simp add: reports_subsystem)
  have "length (filter (\<lambda>t. t = st) (vals ?m)) = length (filter (\<lambda>p. snd p = st) ?m)"
    by (simp add: filter_map comp_def)
  also have "\<dots> = card (fst ` set (filter (\<lambda>p. snd p = st) ?m))"
    using distinct_card [OF distinct_map_filter [OF dist, of "\<lambda>p. snd p = st"]] by simp
  also have "fst ` set (filter (\<lambda>p. snd p = st) ?m) = {k. last_report ps k = Some st}"
    using mem by (force simp: image_iff)
  finally show ?thesis
    using dist mem
    by (auto simp: Let_def hr_snapshot_def unhealthy_subsystems_def count_by_status_def
        intro!: distinct_map_filter) (force simp: image_iff)
qed

section \<open>Reports that race\<close>

text \<open>
  Several threads on one registry. A thread first reads the aggregate (without the lock), later
  runs the locked section with the value it read. The state is the registry and the reports that
  are between the two.
\<close>

type_synonym pending = "(nat \<times> string \<times> HealthStatus \<times> HealthStatus) list"

inductive race_step :: "HealthRegistry \<times> pending \<Rightarrow> HealthRegistry \<times> pending \<Rightarrow> bool" where
  read_aggregate: "t \<notin> fst ` set pend \<Longrightarrow> race_step (r, pend) (r, (t, k, s, hr_load r) # pend)"
| commit: "(t, k, s, a) \<in> set pend \<Longrightarrow>
    race_step (r, pend) (fst (report_commit a k s now r), removeAll (t, k, s, a) pend)"

text \<open>
  The read before the lock loses updates: from a new registry two racing reports reach a state
  with no report in flight in which the table holds \<open>Critical\<close> and the aggregate says \<open>Degraded\<close>.
\<close>

theorem race_loses_the_worst_status:
  "\<exists>r. race_step\<^sup>*\<^sup>* (HealthRegistry_new, []) (r, []) \<and>
       hr_subsystem ''db'' r = Some H_Critical \<and> hr_load r = H_Degraded"
proof -
  let ?r0 = HealthRegistry_new
  let ?pa = "(0 :: nat, ''db'', H_Critical, H_Healthy)" and ?pb = "(1 :: nat, ''api'', H_Degraded, H_Healthy)"
  let ?r1 = "fst (report_commit H_Healthy ''db'' H_Critical 0 ?r0)"
  let ?r2 = "fst (report_commit H_Healthy ''api'' H_Degraded 0 ?r1)"
  have load: "hr_load ?r0 = H_Healthy"
    by (simp add: HealthRegistry_new_def HealthInner_new_def hr_load_def HealthStatus_from_u8_def)
  have "race_step (?r0, []) (?r0, [?pa])"
    using race_step.read_aggregate [of 0 "[]" ?r0 "''db''" H_Critical] by (simp add: load)
  moreover have "race_step (?r0, [?pa]) (?r0, [?pb, ?pa])"
    using race_step.read_aggregate [of 1 "[?pa]" ?r0 "''api''" H_Degraded] by (simp add: load)
  moreover have "race_step (?r0, [?pb, ?pa]) (?r1, [?pb])"
    using race_step.commit [of 0 "''db''" H_Critical H_Healthy "[?pb, ?pa]" ?r0 0] by simp
  moreover have "race_step (?r1, [?pb]) (?r2, [])"
    using race_step.commit [of 1 "''api''" H_Degraded H_Healthy "[?pb]" ?r1 0] by simp
  ultimately have "race_step\<^sup>*\<^sup>* (?r0, []) (?r2, [])"
    by (meson converse_rtranclp_into_rtranclp rtranclp.rtrancl_refl)
  moreover have "hr_subsystem ''db'' ?r2 = Some H_Critical" "hr_load ?r2 = H_Degraded"
    by (simp_all add: hr_subsystem_def report_commit_def next_aggregate_def Let_def
        HealthRegistry_new_def HealthInner_new_def HealthStatus_order)
  ultimately show ?thesis
    by blast
qed

end
