(* ===== verification/Worker_Policies.thy ===== *)
theory Worker_Policies
  imports Primitives
begin

text \<open>
  src/worker/policy: \<open>restart.rs\<close>, \<open>backoff.rs\<close> and \<open>circuit.rs\<close>. The circuit breaker's fields
  are its atomic byte, its 32-bit counter and the two guarded instants; each operation takes the
  clock reading it makes. Its abstract counterpart keeps the failures themselves, and the last
  sections show what the counter and the timestamps implement.
\<close>

unbundle bit_operations_syntax

section \<open>Restart policy\<close>

datatype RestartPolicy = Never | OnFailure | Always | MaxRetries u32 duration

fun should_restart :: "bool \<Rightarrow> u32 \<Rightarrow> RestartPolicy \<Rightarrow> bool" where
  "should_restart has_failed failures_in_window Never = False"
| "should_restart has_failed failures_in_window OnFailure = has_failed"
| "should_restart has_failed failures_in_window Always = True"
| "should_restart has_failed failures_in_window (MaxRetries retries window) =
     (has_failed \<and> failures_in_window < retries)"

definition RestartPolicy_default :: RestartPolicy where
  "RestartPolicy_default = OnFailure"

lemma clean_exit_restarts: "should_restart False n p \<longleftrightarrow> p = Always"
  by (cases p) simp_all

lemma failure_restarts:
  "should_restart True n p \<longleftrightarrow> (case p of Never \<Rightarrow> False | MaxRetries r w \<Rightarrow> n < r | _ \<Rightarrow> True)"
  by (cases p) simp_all

section \<open>Backoff policy\<close>

datatype BackoffPolicy = BackoffNone | Fixed duration | Exponential duration duration

fun backoff_delay :: "u32 \<Rightarrow> BackoffPolicy \<Rightarrow> duration" where
  "backoff_delay attempt BackoffNone = 0"
| "backoff_delay attempt (Fixed d) = d"
| "backoff_delay attempt (Exponential base mx) =
     (let base_nanos = as_nanos base;
          cap = as_nanos mx
      in if base_nanos = 0 \<or> cap = 0 then 0
         else let shift = min attempt 63;
                  scaled = saturating_mul base_nanos (push_bit (unat shift) 1);
                  chosen = min scaled cap;
                  secs = ucast (chosen div 1000000000) :: u64;
                  nanos = ucast (chosen mod 1000000000) :: u32
              in duration_new secs nanos)"

definition BackoffPolicy_default :: BackoffPolicy where
  "BackoffPolicy_default = Exponential (from_millis 100) (from_secs 30)"

lemma unat_shifted_one: "n \<le> 63 \<Longrightarrow> unat (push_bit n 1 :: u128) = 2 ^ n"
proof -
  assume "n \<le> 63"
  then have "(2 :: nat) ^ n \<le> 2 ^ 63"
    by (intro power_increasing) simp_all
  then have "(2 :: nat) ^ n < 2 ^ LENGTH(128)"
    by simp
  moreover have "push_bit n (1 :: u128) = word_of_nat (2 ^ n)"
    by (simp add: push_bit_eq_mult)
  ultimately show ?thesis
    by (metis of_nat_inverse)
qed

lemma unat_min: "unat (min a b) = min (unat a) (unat (b :: 'a::len word))"
  by (simp add: min_def word_le_nat_alt)

text \<open>Splitting nanoseconds into seconds and a rest and putting them together loses nothing.\<close>

lemma duration_of_split:
  "unat (n :: u128) \<le> duration_max \<Longrightarrow>
   duration_new (ucast (n div 1000000000)) (ucast (n mod 1000000000)) = unat n"
proof -
  assume "unat n \<le> duration_max"
  then have "unat n div 1000000000 < 2 ^ 64"
    by (simp add: duration_max_value less_mult_imp_div_less)
  then have "unat (ucast (n div 1000000000) :: u64) = unat n div 1000000000"
    by (simp add: unsigned_ucast_eq unat_div_distrib take_bit_eq_mod)
  moreover have "unat (ucast (n mod 1000000000) :: u32) = unat n mod 1000000000"
    using mod_less_divisor [of 1000000000 "unat n"]
    by (simp add: unsigned_ucast_eq unat_mod_distrib take_bit_eq_mod)
  ultimately show ?thesis
    by (simp add: duration_new_def nanos_per_sec_def)
qed

lemma backoff_exponential:
  assumes "base \<le> duration_max" and "mx \<le> duration_max"
  shows "backoff_delay n (Exponential base mx) = min (base * 2 ^ min (unat n) 63) mx"
proof (cases "base = 0 \<or> mx = 0")
  case True
  then show ?thesis
    by (auto simp: as_nanos_def)
next
  case False
  let ?scaled = "saturating_mul (as_nanos base) (push_bit (unat (min n 63)) 1)"
  have shift: "unat (min n 63) = min (unat n) 63"
    by (simp add: unat_min)
  have "unat (push_bit (min (unat n) 63) 1 :: u128) = 2 ^ min (unat n) 63"
    by (rule unat_shifted_one) simp
  then have "unat ?scaled = min (base * 2 ^ min (unat n) 63) (2 ^ 128 - 1)"
    by (simp add: shift unat_saturating_mul unat_as_nanos [OF assms(1)])
  then have chosen: "unat (min ?scaled (as_nanos mx)) = min (base * 2 ^ min (unat n) 63) mx"
    using assms(2) by (simp add: unat_min unat_as_nanos duration_max_value)
  have nz: "as_nanos base \<noteq> 0" "as_nanos mx \<noteq> 0"
    using False unat_as_nanos [OF assms(1)] unat_as_nanos [OF assms(2)] by auto
  show ?thesis
    using duration_of_split [of "min ?scaled (as_nanos mx)"] assms(2) chosen
    by (simp add: nz Let_def min.coboundedI2)
qed

text \<open>
  C32: For any two durations, the exponential delay is the base doubled once per attempt, at most
  63 times, and capped: the saturating 128-bit product, the cap and the split into seconds and
  nanoseconds lose nothing.
\<close>

theorem backoff_doubles_to_cap:
  assumes "base \<le> duration_max" and "mx \<le> duration_max"
  shows "backoff_delay n (Exponential base mx) = min (base * 2 ^ min (unat n) 63) mx"
  using assms by (rule backoff_exponential)

theorem backoff_doubles_to_cap_witness:
  "backoff_delay 7 (Exponential (from_millis 100) (from_secs 30)) = 12800000000 \<and>
   backoff_delay 4000000000 (Exponential duration_max duration_max) = duration_max"
  using backoff_doubles_to_cap [of "from_millis 100" "from_secs 30" 7]
    backoff_doubles_to_cap [of duration_max duration_max 4000000000]
  by (simp add: from_millis_def from_secs_def nanos_per_sec_def duration_max_value)

lemma backoff_monotone:
  "base \<le> duration_max \<Longrightarrow> mx \<le> duration_max \<Longrightarrow> m \<le> n \<Longrightarrow>
   backoff_delay m (Exponential base mx) \<le> backoff_delay n (Exponential base mx)"
proof -
  assume le: "base \<le> duration_max" "mx \<le> duration_max" and "m \<le> n"
  then have "(2 :: nat) ^ min (unat m) 63 \<le> 2 ^ min (unat n) 63"
    by (intro power_increasing) (auto simp: word_le_nat_alt)
  then have "base * 2 ^ min (unat m) 63 \<le> base * 2 ^ min (unat n) 63"
    by simp
  then have "min (base * 2 ^ min (unat m) 63) mx \<le> min (base * 2 ^ min (unat n) 63) mx"
    by linarith
  with le show ?thesis
    by (simp only: backoff_exponential)
qed

section \<open>Circuit breaker\<close>

datatype CircuitState = Closed | Open | HalfOpen

fun CircuitState_as_u8 :: "CircuitState \<Rightarrow> u8" where
  "CircuitState_as_u8 Closed = 0"
| "CircuitState_as_u8 Open = 1"
| "CircuitState_as_u8 HalfOpen = 2"

definition CircuitState_from_u8 :: "u8 \<Rightarrow> CircuitState" where
  "CircuitState_from_u8 byte = (if byte = 1 then Open else if byte = 2 then HalfOpen else Closed)"

definition CircuitState_default :: CircuitState where
  "CircuitState_default = Closed"

interpretation circuit_cell: u8_codec CircuitState_as_u8 CircuitState_from_u8
proof
  show "CircuitState_from_u8 (CircuitState_as_u8 s) = s" for s
    by (cases s) (simp_all add: CircuitState_from_u8_def)
qed

declare CircuitState_as_u8.simps [simp del]

record CircuitPolicy =
  cp_failure_threshold :: u32
  cp_failure_window :: duration
  cp_open_duration :: duration

definition CircuitPolicy_new :: "u32 \<Rightarrow> duration \<Rightarrow> duration \<Rightarrow> CircuitPolicy" where
  "CircuitPolicy_new threshold window open_duration =
     \<lparr>cp_failure_threshold = threshold, cp_failure_window = window,
      cp_open_duration = open_duration\<rparr>"

definition CircuitPolicy_default :: CircuitPolicy where
  "CircuitPolicy_default = CircuitPolicy_new 3 (from_secs 60) (from_secs 30)"

record CircuitBreaker =
  cb_state :: u8
  cb_failures :: u32
  cb_last_failure_at :: "instant option"
  cb_opened_at :: "instant option"
  cb_policy :: CircuitPolicy

definition CircuitBreaker_new :: "CircuitPolicy \<Rightarrow> CircuitBreaker" where
  "CircuitBreaker_new policy =
     \<lparr>cb_state = CircuitState_as_u8 Closed, cb_failures = 0, cb_last_failure_at = None,
      cb_opened_at = None, cb_policy = policy\<rparr>"

definition circuit_state :: "CircuitBreaker \<Rightarrow> CircuitState" where
  "circuit_state cb = CircuitState_from_u8 (cb_state cb)"

text \<open>
  The counter part of the \<open>Closed\<close> branch, on the counter and the instant of the last failure:
  reset outside the window, then increment.
\<close>

definition count_failure ::
    "duration \<Rightarrow> instant \<Rightarrow> u32 \<times> instant option \<Rightarrow> u32 \<times> (u32 \<times> instant option)" where
  "count_failure window now = (\<lambda>(failures, last).
     (let in_window = (case last of Some t \<Rightarrow> Instant_duration_since now t \<le> window | None \<Rightarrow> False);
          failures = (if \<not> in_window then 0 else failures);
          count = failures + 1
      in (count, (count, Some now))))"

definition record_failure :: "instant \<Rightarrow> CircuitBreaker \<Rightarrow> CircuitState \<times> CircuitBreaker" where
  "record_failure now cb =
     (case circuit_state cb of
        HalfOpen \<Rightarrow> (Open, cb\<lparr>cb_state := CircuitState_as_u8 Open, cb_opened_at := Some now\<rparr>)
      | Open \<Rightarrow> (Open, cb)
      | Closed \<Rightarrow>
          (let (count, failures, last) =
                 count_failure (cp_failure_window (cb_policy cb)) now
                   (cb_failures cb, cb_last_failure_at cb);
               cb = cb\<lparr>cb_failures := failures, cb_last_failure_at := last\<rparr>
           in if cp_failure_threshold (cb_policy cb) \<le> count
              then (Open, cb\<lparr>cb_state := CircuitState_as_u8 Open, cb_opened_at := Some now\<rparr>)
              else (Closed, cb)))"

definition record_success :: "CircuitBreaker \<Rightarrow> CircuitState \<times> CircuitBreaker" where
  "record_success cb =
     (Closed, cb\<lparr>cb_failures := 0, cb_state := CircuitState_as_u8 Closed, cb_opened_at := None,
                  cb_last_failure_at := None\<rparr>)"

definition circuit_tick :: "instant \<Rightarrow> CircuitBreaker \<Rightarrow> CircuitState \<times> CircuitBreaker" where
  "circuit_tick now cb =
     (if circuit_state cb \<noteq> Open then (circuit_state cb, cb)
      else case cb_opened_at cb of
             Some t \<Rightarrow>
               if cp_open_duration (cb_policy cb) \<le> Instant_duration_since now t
               then (HalfOpen, cb\<lparr>cb_state := CircuitState_as_u8 HalfOpen\<rparr>)
               else (Open, cb)
           | None \<Rightarrow> (Open, cb))"

definition circuit_allow :: "CircuitBreaker \<Rightarrow> bool" where
  "circuit_allow cb \<longleftrightarrow> circuit_state cb \<noteq> Open"

lemma circuit_state_store [simp]:
  "circuit_state (cb\<lparr>cb_state := CircuitState_as_u8 s\<rparr>) = s"
  "circuit_state (cb\<lparr>cb_opened_at := x\<rparr>) = circuit_state cb"
  "circuit_state (cb\<lparr>cb_failures := f\<rparr>) = circuit_state cb"
  "circuit_state (cb\<lparr>cb_last_failure_at := l\<rparr>) = circuit_state cb"
  by (simp_all add: circuit_state_def circuit_cell.dec_enc)

lemma circuit_state_new [simp]: "circuit_state (CircuitBreaker_new p) = Closed"
  by (simp add: circuit_state_def CircuitBreaker_new_def circuit_cell.dec_enc)

lemma count_failure_stores [simp]: "fst (snd (count_failure w now s)) = fst (count_failure w now s)"
  by (cases s) (simp add: count_failure_def Let_def)

subsection \<open>The counter as a failure window\<close>

interpretation breaker_window: failure_window
  "\<lambda>now s. (unat (fst (count_failure w now s)), snd (count_failure w now s))"
  "\<lambda>s. unat (fst s)" snd "\<lambda>_. True" "int w" "2 ^ 32" for w :: duration
proof
  fix now t :: int and s :: "u32 \<times> instant option"
  obtain n l where s: "s = (n, l)"
    by (cases s)
  show "fst (unat (fst (count_failure w now s)), snd (count_failure w now s)) = Suc (unat (fst s))"
    if "snd s = Some t" "now - t \<le> int w" "Suc (unat (fst s)) < 2 ^ 32"
    using that by (simp add: s count_failure_def Let_def time_defs unat_Suc_fits nat_le_iff)
  show "fst (unat (fst (count_failure w now s)), snd (count_failure w now s)) = 1"
    if "snd s = Some t" "int w < now - t"
    using that by (auto simp: s count_failure_def Let_def time_defs nat_le_iff)
  show "fst (unat (fst (count_failure w now s)), snd (count_failure w now s)) = 1"
    if "snd s = None"
    using that by (simp add: s count_failure_def Let_def)
  show "unat (fst (snd (unat (fst (count_failure w now s)), snd (count_failure w now s)))) =
      fst (unat (fst (count_failure w now s)), snd (count_failure w now s))"
    by (simp add: s count_failure_def Let_def)
  show "snd (snd (unat (fst (count_failure w now s)), snd (count_failure w now s))) = Some now"
    by (simp add: s count_failure_def Let_def)
qed

subsection \<open>What the breaker implements\<close>

text \<open>
  The abstract breaker: while closed it remembers the burst of failures that is going on (newest
  first; a failure further than the window from the previous one starts a new burst), once
  tripped only the instant of the trip.
\<close>

datatype breaker_view = Counting "instant list" | Tripped instant | Trial

datatype breaker_op = Failure instant | Success | Tick instant | Ask

datatype breaker_reply = State CircuitState | Allowed bool

fun breaker_exec :: "breaker_op \<Rightarrow> CircuitBreaker \<Rightarrow> breaker_reply \<times> CircuitBreaker" where
  "breaker_exec (Failure now) cb = map_prod State id (record_failure now cb)"
| "breaker_exec Success cb = map_prod State id (record_success cb)"
| "breaker_exec (Tick now) cb = map_prod State id (circuit_tick now cb)"
| "breaker_exec Ask cb = (Allowed (circuit_allow cb), cb)"

definition extend_burst :: "duration \<Rightarrow> instant \<Rightarrow> instant list \<Rightarrow> instant list" where
  "extend_burst w now ts =
     now # (case ts of [] \<Rightarrow> [] | t # _ \<Rightarrow> if now - t \<le> int w then ts else [])"

fun breaker_spec :: "CircuitPolicy \<Rightarrow> breaker_op \<Rightarrow> breaker_view \<Rightarrow> breaker_reply \<times> breaker_view" where
  "breaker_spec p (Failure now) (Counting ts) =
     (let ts' = extend_burst (cp_failure_window p) now ts
      in if unat (cp_failure_threshold p) \<le> length ts' then (State Open, Tripped now)
         else (State Closed, Counting ts'))"
| "breaker_spec p (Failure now) (Tripped t) = (State Open, Tripped t)"
| "breaker_spec p (Failure now) Trial = (State Open, Tripped now)"
| "breaker_spec p Success v = (State Closed, Counting [])"
| "breaker_spec p (Tick now) (Counting ts) = (State Closed, Counting ts)"
| "breaker_spec p (Tick now) (Tripped t) =
     (if cp_open_duration p \<le> Instant_duration_since now t then (State HalfOpen, Trial)
      else (State Open, Tripped t))"
| "breaker_spec p (Tick now) Trial = (State HalfOpen, Trial)"
| "breaker_spec p Ask v = (Allowed (\<not> (\<exists>t. v = Tripped t)), v)"

definition represents_breaker :: "CircuitPolicy \<Rightarrow> CircuitBreaker \<Rightarrow> breaker_view \<Rightarrow> bool" where
  "represents_breaker p cb v \<longleftrightarrow> cb_policy cb = p \<and>
     (case v of
        Counting ts \<Rightarrow> circuit_state cb = Closed \<and> unat (cb_failures cb) = length ts \<and>
          cb_last_failure_at cb = (case ts of [] \<Rightarrow> None | t # _ \<Rightarrow> Some t) \<and>
          (ts = [] \<or> length ts < unat (cp_failure_threshold p))
      | Tripped t \<Rightarrow> circuit_state cb = Open \<and> cb_opened_at cb = Some t
      | Trial \<Rightarrow> circuit_state cb = HalfOpen)"

lemmas breaker_defs = record_failure_def record_success_def circuit_tick_def circuit_allow_def

lemma count_failure_burst:
  assumes "unat n = length ts" and "Suc (length ts) < 2 ^ 32"
    and "l = (case ts of [] \<Rightarrow> None | t # _ \<Rightarrow> Some t)"
  shows "snd (count_failure w now (n, l)) = (fst (count_failure w now (n, l)), Some now)"
    and "unat (fst (count_failure w now (n, l))) = length (extend_burst w now ts)"
proof -
  show "snd (count_failure w now (n, l)) = (fst (count_failure w now (n, l)), Some now)"
    by (simp add: count_failure_def Let_def)
  have "unat (n + 1) = Suc (length ts)"
    using assms(1,2) by (simp add: unat_Suc_fits)
  then show "unat (fst (count_failure w now (n, l))) = length (extend_burst w now ts)"
    using assms(3)
    by (auto simp: count_failure_def Let_def extend_burst_def time_defs nat_le_iff split: list.split)
qed

lemma record_failure_counting:
  assumes "represents_breaker p cb (Counting ts)"
  shows "fst (record_failure now cb) =
      (if unat (cp_failure_threshold p) \<le> length (extend_burst (cp_failure_window p) now ts)
       then Open else Closed) \<and>
    represents_breaker p (snd (record_failure now cb)) (snd (breaker_spec p (Failure now) (Counting ts)))"
proof -
  let ?c = "count_failure (cp_failure_window p) now (cb_failures cb, cb_last_failure_at cb)"
  have "length ts < unat (cp_failure_threshold p) \<or> ts = []"
    and cb: "cb_policy cb = p" "circuit_state cb = Closed" "unat (cb_failures cb) = length ts"
      "cb_last_failure_at cb = (case ts of [] \<Rightarrow> None | t # _ \<Rightarrow> Some t)"
    using assms by (auto simp: represents_breaker_def)
  then have "Suc (length ts) < 2 ^ 32"
    using unsigned_less [of "cp_failure_threshold p", where 'a = nat] by auto
  then have "snd ?c = (fst ?c, Some now)" "unat (fst ?c) = length (extend_burst (cp_failure_window p) now ts)"
    using count_failure_burst [OF cb(3) _ cb(4)] by blast+
  then show ?thesis
    using cb by (auto simp: represents_breaker_def record_failure_def case_prod_beta Let_def
        word_le_nat_alt extend_burst_def)
qed

interpretation breaker_refines: refines breaker_exec "breaker_spec p" "represents_breaker p" "\<lambda>_. True"
  for p :: CircuitPolicy
proof
  fix cb v q
  assume "represents_breaker p cb v"
  then show "fst (breaker_exec q cb) = fst (breaker_spec p q v) \<and>
      represents_breaker p (snd (breaker_exec q cb)) (snd (breaker_spec p q v))"
  proof (cases "(p, q, v)" rule: breaker_spec.cases)
    case (1 p' now ts)
    then show ?thesis
      using record_failure_counting [of p cb ts now] \<open>represents_breaker p cb v\<close>
      by (auto simp: Let_def)
  qed (auto simp: represents_breaker_def breaker_defs circuit_state_def circuit_cell.dec_enc
      split: breaker_view.splits)
qed

lemma represents_breaker_new: "represents_breaker p (CircuitBreaker_new p) (Counting [])"
  by (simp add: represents_breaker_def) (simp add: CircuitBreaker_new_def)

text \<open>
  C19: For any policy and any sequence of failures, successes, ticks and questions, a new breaker
  answers exactly as the abstract breaker that keeps the instants of the current burst and the
  instant of the trip: the 32-bit counter never wraps and the byte always decodes to the state.
\<close>

theorem breaker_implements_bursts:
  "fst (run_ops breaker_exec ps (CircuitBreaker_new p)) =
   fst (run_ops (breaker_spec p) ps (Counting []))"
  using breaker_refines.run_refines [OF represents_breaker_new] by blast

subsection \<open>When the breaker trips and when it lets a trial through\<close>

abbreviation failures :: "instant list \<Rightarrow> CircuitBreaker \<Rightarrow> CircuitBreaker" where
  "failures \<equiv> fold (\<lambda>t cb. snd (record_failure t cb))"

abbreviation trip_count :: "CircuitPolicy \<Rightarrow> nat" where
  "trip_count p \<equiv> max 1 (unat (cp_failure_threshold p))"

lemma policy_record_failure [simp]: "cb_policy (snd (record_failure now cb)) = cb_policy cb"
  by (simp add: record_failure_def Let_def case_prod_beta split: CircuitState.split)

lemma policy_failures [simp]: "cb_policy (failures ts cb) = cb_policy cb"
  by (induction ts arbitrary: cb) simp_all

lemma open_record_failure: "circuit_state cb = Open \<Longrightarrow> record_failure now cb = (Open, cb)"
  by (simp add: record_failure_def)

lemma open_failures: "circuit_state cb = Open \<Longrightarrow> failures ts cb = cb"
  by (induction ts) (simp_all add: open_record_failure)

lemma closed_record_failure:
  fixes now :: instant
  assumes "circuit_state cb = Closed"
  defines "c \<equiv> count_failure (cp_failure_window (cb_policy cb)) now (cb_failures cb, cb_last_failure_at cb)"
  shows "circuit_state (snd (record_failure now cb)) =
      (if cp_failure_threshold (cb_policy cb) \<le> fst c then Open else Closed)"
    and "(cb_failures (snd (record_failure now cb)), cb_last_failure_at (snd (record_failure now cb))) = snd c"
  using assms by (simp_all add: record_failure_def Let_def case_prod_beta prod_eq_iff)

text \<open>Below the threshold a burst only counts.\<close>

lemma burst_counts:
  assumes "successively (\<lambda>a b. b - a \<le> int (cp_failure_window p)) ts" and "length ts < trip_count p"
  shows "circuit_state (failures ts (CircuitBreaker_new p)) = Closed \<and>
    (cb_failures (failures ts (CircuitBreaker_new p)),
     cb_last_failure_at (failures ts (CircuitBreaker_new p))) =
      fold (\<lambda>u s. snd (count_failure (cp_failure_window p) u s)) ts (0, None) \<and>
    unat (cb_failures (failures ts (CircuitBreaker_new p))) = length ts"
  using assms
proof (induction ts rule: rev_induct)
  case Nil
  then show ?case
    by simp (simp add: CircuitBreaker_new_def)
next
  case (snoc u ts)
  let ?w = "cp_failure_window p" and ?cb = "failures ts (CircuitBreaker_new p)"
  let ?f = "fold (\<lambda>u s. snd (count_failure ?w u s))"
  have IH: "circuit_state ?cb = Closed" "(cb_failures ?cb, cb_last_failure_at ?cb) = ?f ts (0, None)"
    using snoc by (auto simp: successively_append_iff)
  obtain t us where tus: "ts @ [u] = t # us"
    by (cases "ts @ [u]") auto
  have len: "Suc (length us) = Suc (length ts)" "Suc (length us) < 2 ^ 32"
    using arg_cong [OF tus, of length] snoc.prems(2)
      unsigned_less [of "cp_failure_threshold p", where 'a = nat] by auto
  have "unat (fst (?f (ts @ [u]) (0, None))) = Suc (length ts)"
    using breaker_window.burst [where t = t and s = "(0, None)" and ts = us and w = ?w] snoc.prems(1) len
    by (simp add: tus list_all_iff)
  moreover have pol: "cb_policy ?cb = p"
    by (simp add: CircuitBreaker_new_def)
  moreover note closed_record_failure [OF IH(1), of u]
  ultimately show ?case
    using snoc.prems(2) IH(2)
    by (auto simp: word_le_nat_alt prod_eq_iff)
qed

text \<open>
  Failures that follow one another within the window trip a new breaker exactly when there
  are as many of them as the threshold says (one, when the threshold is zero).
\<close>

theorem burst_trips_at_threshold:
  assumes "successively (\<lambda>a b. b - a \<le> int (cp_failure_window p)) ts"
  shows "circuit_state (failures ts (CircuitBreaker_new p)) =
    (if length ts < trip_count p then Closed else Open)"
proof (cases "length ts < trip_count p")
  case True
  then show ?thesis
    using burst_counts [OF assms] by simp
next
  case False
  let ?n = "trip_count p - 1" and ?w = "cp_failure_window p"
  have "?n < length ts"
    using False by linarith
  then obtain us u vs where ts: "ts = us @ u # vs" and us: "length us = ?n"
    using id_take_nth_drop [of ?n ts] length_take [of ?n ts] by (metis less_imp_le min.absorb2)
  have succ: "successively (\<lambda>a b. b - a \<le> int ?w) (us @ [u])" "successively (\<lambda>a b. b - a \<le> int ?w) us"
    using assms by (auto simp: ts successively_append_iff)
  let ?cb = "failures us (CircuitBreaker_new p)"
  have cb: "circuit_state ?cb = Closed" "unat (cb_failures ?cb) = length us" "cb_policy ?cb = p"
    "(cb_failures ?cb, cb_last_failure_at ?cb) = fold (\<lambda>u s. snd (count_failure ?w u s)) us (0, None)"
    using burst_counts [OF succ(2)] us by (simp_all add: CircuitBreaker_new_def)
  obtain t xs where tus: "us @ [u] = t # xs"
    by (cases "us @ [u]") auto
  have len: "length xs = length us" "Suc (length xs) < 2 ^ 32"
    using arg_cong [OF tus, of length] us unsigned_less [of "cp_failure_threshold p", where 'a = nat]
    by auto
  have "unat (fst (count_failure ?w u (cb_failures ?cb, cb_last_failure_at ?cb))) = Suc (length us)"
    using breaker_window.burst [where t = t and s = "(0, None)" and ts = xs and w = ?w, folded tus] succ(1) len
    by (simp add: cb(4) list_all_iff)
  then have "circuit_state (snd (record_failure u ?cb)) = Open"
    using closed_record_failure(1) [OF cb(1), of u] us cb(3) by (simp add: word_le_nat_alt)
  then show ?thesis
    using False by (simp add: ts open_failures)
qed

theorem burst_trips_at_threshold_witness:
  "circuit_state (failures [0, 50000000000] (CircuitBreaker_new CircuitPolicy_default)) = Closed \<and>
   circuit_state (failures [0, 50000000000, 100000000000] (CircuitBreaker_new CircuitPolicy_default)) = Open"
  using burst_trips_at_threshold [of CircuitPolicy_default "[0, 50000000000]"]
    burst_trips_at_threshold [of CircuitPolicy_default "[0, 50000000000, 100000000000]"]
  by (simp add: CircuitPolicy_default_def CircuitPolicy_new_def from_secs_def nanos_per_sec_def)

text \<open>
  The window restarts with every failure: with the default policy (three failures within 60 s)
  three failures at 0 s, 50 s and 100 s open the breaker, though no 60-second interval holds more
  than two of them.
\<close>

theorem window_is_between_failures:
  "circuit_state (failures [0, 50000000000, 100000000000] (CircuitBreaker_new CircuitPolicy_default)) = Open \<and>
   length (filter (\<lambda>t. w \<le> t \<and> t \<le> w + int (cp_failure_window CircuitPolicy_default))
     [0, 50000000000, 100000000000]) < unat (cp_failure_threshold CircuitPolicy_default)"
  by (simp add: CircuitPolicy_default_def CircuitPolicy_new_def from_secs_def nanos_per_sec_def
      record_failure_def count_failure_def CircuitBreaker_new_def circuit_state_def
      circuit_cell.dec_enc time_defs Let_def)

lemma tripped_exec:
  assumes "circuit_state cb = Open" and "cb_opened_at cb = Some t"
    and "case q of Tick now \<Rightarrow> Instant_duration_since now t < cp_open_duration (cb_policy cb)
         | Success \<Rightarrow> False | _ \<Rightarrow> True"
  shows "breaker_exec q cb = (if q = Ask then Allowed False else State Open, cb)"
  using assms by (cases q) (auto simp: breaker_defs)

text \<open>
  A breaker that tripped at \<open>t\<close> stays open, unchanged by further failures, and refuses
  everything until \<open>open_duration\<close> has passed since \<open>t\<close> (unless a success is recorded); the
  first tick from then on makes it half-open, and a failure of the trial re-opens it.
\<close>

theorem tripped_breaker_waits:
  assumes "circuit_state cb = Open" and "cb_opened_at cb = Some t"
    and "Success \<notin> set ps"
    and "\<And>now. Tick now \<in> set ps \<Longrightarrow> Instant_duration_since now t < cp_open_duration (cb_policy cb)"
    and "cp_open_duration (cb_policy cb) \<le> Instant_duration_since later t"
  shows "run_ops breaker_exec ps cb = (map (\<lambda>q. if q = Ask then Allowed False else State Open) ps, cb) \<and>
    fst (circuit_tick later cb) = HalfOpen \<and>
    circuit_allow (snd (circuit_tick later cb)) \<and>
    fst (record_failure again (snd (circuit_tick later cb))) = Open"
proof -
  have "run_ops breaker_exec ps cb = (map (\<lambda>q. if q = Ask then Allowed False else State Open) ps, cb)"
    using assms(3,4)
  proof (induction ps)
    case (Cons q ps)
    then have "breaker_exec q cb = (if q = Ask then Allowed False else State Open, cb)"
      by (intro tripped_exec [OF assms(1,2)]) (auto split: breaker_op.split)
    with Cons show ?case
      by simp
  qed simp
  then show ?thesis
    using assms by (simp add: breaker_defs)
qed

theorem tripped_breaker_waits_witness:
  "let cb = snd (record_failure 5 (CircuitBreaker_new (CircuitPolicy_new 1 10 30)))
   in run_ops breaker_exec [Ask, Failure 7, Tick 34] cb = ([Allowed False, State Open, State Open], cb) \<and>
      fst (circuit_tick 35 cb) = HalfOpen"
proof -
  let ?cb = "snd (record_failure 5 (CircuitBreaker_new (CircuitPolicy_new 1 10 30)))"
  have cb: "circuit_state ?cb = Open" "cb_opened_at ?cb = Some 5" "cp_open_duration (cb_policy ?cb) = 30"
    by (simp_all add: record_failure_def count_failure_def Let_def CircuitPolicy_new_def)
      (simp_all add: CircuitBreaker_new_def)
  have "Instant_duration_since now 5 < cp_open_duration (cb_policy ?cb)"
    if "Tick now \<in> set [Ask, Failure 7, Tick 34]" for now
    using that unfolding cb(3) by (simp add: time_defs)
  moreover have "cp_open_duration (cb_policy ?cb) \<le> Instant_duration_since 35 5"
    unfolding cb(3) by (simp add: time_defs)
  ultimately show ?thesis
    using tripped_breaker_waits [OF cb(1,2), of "[Ask, Failure 7, Tick 34]" 35]
    by (simp add: Let_def)
qed

end
