(* ===== verification/Worker_Runtime.thy ===== *)
theory Worker_Runtime
  imports Worker_Policies Worker_Types
begin

text \<open>
  src/worker: \<open>spec.rs\<close> (the builder of a worker's configuration), \<open>handle.rs\<close>, \<open>context.rs\<close>
  and \<open>watchdog.rs\<close>. The fields a handle and a context share with the supervisor through an
  \<open>Arc\<close> are fields of the handle's and the context's record; the supervisor's model keeps the one
  copy. Wall-clock nanoseconds are an \<open>i64\<close> and are read with \<open>sint\<close>.
\<close>

section \<open>Worker specification\<close>

record WorkerSpec =
  ws_name :: string
  ws_criticality :: Criticality
  ws_restart :: RestartPolicy
  ws_backoff :: BackoffPolicy
  ws_timeout :: "duration option"
  ws_heartbeat_interval :: "duration option"
  ws_circuit :: "CircuitPolicy option"

definition WorkerSpec_new :: "string \<Rightarrow> WorkerSpec" where
  "WorkerSpec_new name =
     \<lparr>ws_name = name, ws_criticality = Optional, ws_restart = OnFailure,
      ws_backoff = BackoffPolicy_default, ws_timeout = None, ws_heartbeat_interval = None,
      ws_circuit = None\<rparr>"

definition WorkerSpec_default :: WorkerSpec where
  "WorkerSpec_default = WorkerSpec_new ''''"

definition spec_critical :: "WorkerSpec \<Rightarrow> WorkerSpec" where
  "spec_critical s = s\<lparr>ws_criticality := CriticalWorker\<rparr>"

definition spec_essential :: "WorkerSpec \<Rightarrow> WorkerSpec" where
  "spec_essential s = s\<lparr>ws_criticality := Essential\<rparr>"

definition spec_optional :: "WorkerSpec \<Rightarrow> WorkerSpec" where
  "spec_optional s = s\<lparr>ws_criticality := Optional\<rparr>"

definition spec_background :: "WorkerSpec \<Rightarrow> WorkerSpec" where
  "spec_background s = s\<lparr>ws_criticality := Background\<rparr>"

definition spec_restart_never :: "WorkerSpec \<Rightarrow> WorkerSpec" where
  "spec_restart_never s = s\<lparr>ws_restart := Never\<rparr>"

definition spec_restart_on_failure :: "WorkerSpec \<Rightarrow> WorkerSpec" where
  "spec_restart_on_failure s = s\<lparr>ws_restart := OnFailure\<rparr>"

definition spec_restart_always :: "WorkerSpec \<Rightarrow> WorkerSpec" where
  "spec_restart_always s = s\<lparr>ws_restart := Always\<rparr>"

definition spec_restart_max_retries :: "u32 \<Rightarrow> duration \<Rightarrow> WorkerSpec \<Rightarrow> WorkerSpec" where
  "spec_restart_max_retries retries window s = s\<lparr>ws_restart := MaxRetries retries window\<rparr>"

definition spec_backoff_none :: "WorkerSpec \<Rightarrow> WorkerSpec" where
  "spec_backoff_none s = s\<lparr>ws_backoff := BackoffNone\<rparr>"

definition spec_backoff_fixed :: "duration \<Rightarrow> WorkerSpec \<Rightarrow> WorkerSpec" where
  "spec_backoff_fixed d s = s\<lparr>ws_backoff := Fixed d\<rparr>"

definition spec_backoff_exponential :: "duration \<Rightarrow> duration \<Rightarrow> WorkerSpec \<Rightarrow> WorkerSpec" where
  "spec_backoff_exponential base mx s = s\<lparr>ws_backoff := Exponential base mx\<rparr>"

definition spec_heartbeat :: "duration \<Rightarrow> WorkerSpec \<Rightarrow> WorkerSpec" where
  "spec_heartbeat interval s = s\<lparr>ws_heartbeat_interval := Some interval\<rparr>"

definition spec_timeout :: "duration \<Rightarrow> WorkerSpec \<Rightarrow> WorkerSpec" where
  "spec_timeout timeout s = s\<lparr>ws_timeout := Some timeout\<rparr>"

definition spec_circuit :: "CircuitPolicy \<Rightarrow> WorkerSpec \<Rightarrow> WorkerSpec" where
  "spec_circuit policy s = s\<lparr>ws_circuit := Some policy\<rparr>"

definition spec_no_circuit :: "WorkerSpec \<Rightarrow> WorkerSpec" where
  "spec_no_circuit s = s\<lparr>ws_circuit := None\<rparr>"

section \<open>Wall clock\<close>

text \<open>
  \<open>unix_nanos\<close>: the system clock as a duration since the epoch (\<open>None\<close> when it is set before the
  epoch), clamped into an \<open>i64\<close>.
\<close>

definition i64_max :: u128 where
  "i64_max = 2 ^ 63 - 1"

definition unix_nanos :: "duration option \<Rightarrow> i64" where
  "unix_nanos since_epoch =
     (case since_epoch of Some d \<Rightarrow> ucast (min (as_nanos d) i64_max) | None \<Rightarrow> 0)"

lemma unat_i64_max: "unat i64_max = 2 ^ 63 - 1"
  by (simp add: i64_max_def)

lemma sint_small: "n < 2 ^ 63 \<Longrightarrow> sint (word_of_nat n :: i64) = int n"
  by (simp add: signed_of_nat signed_take_bit_int_eq_self)

lemma sint_unix_nanos:
  assumes "\<And>d. since_epoch = Some d \<Longrightarrow> d \<le> duration_max"
  shows "sint (unix_nanos since_epoch) =
    (case since_epoch of Some d \<Rightarrow> int (min d (2 ^ 63 - 1)) | None \<Rightarrow> 0)"
proof (cases since_epoch)
  case (Some d)
  then have "unat (min (as_nanos d) i64_max) = min d (2 ^ 63 - 1)"
    using unat_as_nanos [of d] assms by (simp add: unat_min unat_i64_max)
  moreover have "(ucast (min (as_nanos d) i64_max) :: i64) = word_of_nat (unat (min (as_nanos d) i64_max))"
    by simp
  ultimately show ?thesis
    using Some by (simp add: unix_nanos_def sint_small del: of_nat_min)
qed (simp add: unix_nanos_def)

section \<open>Handle\<close>

record WorkerHandle =
  wh_id :: WorkerId
  wh_name :: string
  wh_state :: u8
  wh_cancelled :: bool
  wh_failures_in_window :: u32
  wh_last_failure_nanos :: i64

definition WorkerHandle_new :: "WorkerId \<Rightarrow> string \<Rightarrow> bool \<Rightarrow> WorkerHandle" where
  "WorkerHandle_new wid name cancelled =
     \<lparr>wh_id = wid, wh_name = name, wh_state = WorkerState_as_u8 WCreated, wh_cancelled = cancelled,
      wh_failures_in_window = 0, wh_last_failure_nanos = 0\<rparr>"

definition handle_state :: "WorkerHandle \<Rightarrow> WorkerState" where
  "handle_state h = WorkerState_from_u8 (wh_state h)"

definition handle_is_active :: "WorkerHandle \<Rightarrow> bool" where
  "handle_is_active h = WorkerState_is_active (handle_state h)"

definition handle_set_state :: "WorkerState \<Rightarrow> WorkerHandle \<Rightarrow> WorkerHandle" where
  "handle_set_state s h = h\<lparr>wh_state := WorkerState_as_u8 s\<rparr>"

definition handle_cancel :: "WorkerHandle \<Rightarrow> WorkerHandle" where
  "handle_cancel h = h\<lparr>wh_cancelled := True\<rparr>"

text \<open>\<open>now\<close> is the reading of \<open>unix_nanos\<close>.\<close>

definition handle_record_failure :: "i64 \<Rightarrow> i64 \<Rightarrow> WorkerHandle \<Rightarrow> u32 \<times> WorkerHandle" where
  "handle_record_failure window_nanos now h =
     (let last = wh_last_failure_nanos h;
          h = h\<lparr>wh_last_failure_nanos := now\<rparr>
      in if last = 0 \<or> sint window_nanos < sint (now - last)
         then (1, h\<lparr>wh_failures_in_window := 1\<rparr>)
         else (wh_failures_in_window h + 1,
               h\<lparr>wh_failures_in_window := wh_failures_in_window h + 1\<rparr>))"

lemma handle_state_set [simp]: "handle_state (handle_set_state s h) = s"
  by (simp add: handle_state_def handle_set_state_def worker_cell.dec_enc)

lemma handle_set_state_fields [simp]:
  "wh_id (handle_set_state s h) = wh_id h" "wh_name (handle_set_state s h) = wh_name h"
  "wh_cancelled (handle_set_state s h) = wh_cancelled h"
  "wh_failures_in_window (handle_set_state s h) = wh_failures_in_window h"
  "wh_last_failure_nanos (handle_set_state s h) = wh_last_failure_nanos h"
  by (simp_all add: handle_set_state_def)

lemma handle_record_failure_fields [simp]:
  "wh_id (snd (handle_record_failure w now h)) = wh_id h"
  "wh_name (snd (handle_record_failure w now h)) = wh_name h"
  "wh_cancelled (snd (handle_record_failure w now h)) = wh_cancelled h"
  "handle_state (snd (handle_record_failure w now h)) = handle_state h"
  "wh_last_failure_nanos (snd (handle_record_failure w now h)) = now"
  by (simp_all add: handle_record_failure_def Let_def handle_state_def)

interpretation handle_latch: latch handle_cancel wh_cancelled
  by unfold_locales (simp_all add: handle_cancel_def)

subsection \<open>The handle's counter as a failure window\<close>

text \<open>The instants a handle can tell apart: positive nanoseconds since the epoch that fit an \<open>i64\<close>.\<close>

definition valid_unix :: "int \<Rightarrow> bool" where
  "valid_unix t \<longleftrightarrow> 0 < t \<and> t < 2 ^ 63"

definition latest_failure :: "WorkerHandle \<Rightarrow> int option" where
  "latest_failure h =
     (if wh_last_failure_nanos h = 0 then None else Some (sint (wh_last_failure_nanos h)))"

lemma sint_valid: "valid_unix t \<Longrightarrow> sint (word_of_int t :: i64) = t"
  by (simp add: valid_unix_def signed_of_int signed_take_bit_int_eq_self)

lemma sint_diff_valid:
  assumes "valid_unix t" and "valid_unix u"
  shows "sint (word_of_int t - word_of_int u :: i64) = t - u"
proof -
  have "sint (word_of_int (t - u) :: i64) = t - u"
    using assms unfolding signed_of_int by (simp add: valid_unix_def signed_take_bit_int_eq_self)
  then show ?thesis
    by simp
qed

interpretation handle_window: failure_window
  "\<lambda>now h. (unat (fst (handle_record_failure w (word_of_int now) h)),
            snd (handle_record_failure w (word_of_int now) h))"
  "\<lambda>h. unat (wh_failures_in_window h)" latest_failure valid_unix "sint w" "2 ^ 32" for w :: i64
proof
  fix now t :: int and h :: WorkerHandle
  let ?r = "handle_record_failure w (word_of_int now) h"
  have diff: "sint (word_of_int now - wh_last_failure_nanos h) = now - t"
    if "valid_unix now" "valid_unix t" "latest_failure h = Some t"
    using that sint_diff_valid [of now t] by (auto simp: latest_failure_def split: if_splits)
  show "fst (unat (fst ?r), snd ?r) = Suc (unat (wh_failures_in_window h))"
    if "valid_unix now" "valid_unix t" "latest_failure h = Some t" "now - t \<le> sint w"
      "Suc (unat (wh_failures_in_window h)) < 2 ^ 32"
    using that diff [OF that(1-3)]
    by (auto simp: handle_record_failure_def latest_failure_def Let_def unat_Suc_fits split: if_splits)
  show "fst (unat (fst ?r), snd ?r) = 1"
    if "valid_unix now" "valid_unix t" "latest_failure h = Some t" "sint w < now - t"
    using that diff [OF that(1-3)] by (auto simp: handle_record_failure_def Let_def)
  show "fst (unat (fst ?r), snd ?r) = 1" if "valid_unix now" "latest_failure h = None"
    using that by (auto simp: handle_record_failure_def latest_failure_def Let_def split: if_splits)
  show "unat (wh_failures_in_window (snd (unat (fst ?r), snd ?r))) = fst (unat (fst ?r), snd ?r)"
    by (simp add: handle_record_failure_def Let_def)
  show "latest_failure (snd (unat (fst ?r), snd ?r)) = Some now" if "valid_unix now"
    using that sint_valid [OF that] by (auto simp: latest_failure_def valid_unix_def)
qed

section \<open>Context\<close>

text \<open>What a running worker sees: its identity, the cancellation flag and the heartbeat cell.\<close>

record WorkerContext =
  ctx_worker_id :: WorkerId
  ctx_worker_name :: string
  ctx_cancelled :: bool
  ctx_last_heartbeat :: i64

definition WorkerContext_new :: "WorkerId \<Rightarrow> string \<Rightarrow> bool \<Rightarrow> i64 \<Rightarrow> WorkerContext" where
  "WorkerContext_new wid name cancelled heartbeat =
     \<lparr>ctx_worker_id = wid, ctx_worker_name = name, ctx_cancelled = cancelled,
      ctx_last_heartbeat = heartbeat\<rparr>"

definition ctx_heartbeat :: "duration option \<Rightarrow> WorkerContext \<Rightarrow> WorkerContext" where
  "ctx_heartbeat since_epoch ctx = ctx\<lparr>ctx_last_heartbeat := unix_nanos since_epoch\<rparr>"

section \<open>Watchdog\<close>

record WatchdogTarget =
  wt_id :: WorkerId
  wt_name :: string
  wt_last_heartbeat_nanos :: i64
  wt_heartbeat_interval :: duration

record WatchdogTimeout =
  to_id :: WorkerId
  to_name :: string
  to_silent_for :: duration

definition DEFAULT_TICK :: duration where
  "DEFAULT_TICK = from_secs 1"

text \<open>The saturating operations on \<open>i128\<close>, on the integers they denote.\<close>

definition saturate_i128 :: "int \<Rightarrow> int" where
  "saturate_i128 n = max (- (2 ^ 127)) (min n (2 ^ 127 - 1))"

definition u64_from_nanos :: "int \<Rightarrow> u64" where
  "u64_from_nanos n =
     (if n < 0 then 0 else if uint (- 1 :: u64) < n then - 1 else word_of_int n)"

definition check_target :: "i64 \<Rightarrow> WatchdogTarget \<Rightarrow> WatchdogTimeout list" where
  "check_target now_nanos target =
     (if sint (wt_last_heartbeat_nanos target) \<le> 0 then []
      else let interval_nanos = sint (ucast (as_nanos (wt_heartbeat_interval target)) :: i64);
               threshold = saturate_i128 (interval_nanos * 2);
               silent_nanos = saturate_i128 (sint now_nanos - sint (wt_last_heartbeat_nanos target))
           in if threshold < silent_nanos
              then [\<lparr>to_id = wt_id target, to_name = wt_name target,
                     to_silent_for = from_nanos (u64_from_nanos silent_nanos)\<rparr>]
              else [])"

definition watchdog_check :: "WatchdogTarget list \<Rightarrow> i64 \<Rightarrow> WatchdogTimeout list" where
  "watchdog_check targets now_nanos = concat (map (check_target now_nanos) targets)"

lemma sint_i64_range: "- (2 ^ 63) \<le> sint (n :: i64)" "sint (n :: i64) < 2 ^ 63"
  using sint_greater_eq [of n] sint_less [of n] by simp_all

lemma saturate_i128_id: "- (2 ^ 127) \<le> n \<Longrightarrow> n < 2 ^ 127 \<Longrightarrow> saturate_i128 n = n"
  by (simp add: saturate_i128_def)

lemma from_u64_nanos: "0 \<le> n \<Longrightarrow> n < 2 ^ 64 \<Longrightarrow> from_nanos (u64_from_nanos n) = nat n"
proof -
  assume "0 \<le> n" "n < 2 ^ 64"
  then obtain k where "n = int k" "k < 2 ^ 64"
    by (metis nonneg_int_cases of_nat_less_iff of_nat_numeral of_nat_power)
  then show ?thesis
    by (simp add: from_nanos_def u64_from_nanos_def unsigned_of_nat take_bit_nat_eq_self
        unsigned_minus_1_eq_mask mask_eq_exp_minus_1)
qed

lemma sint_interval:
  assumes "d < 2 ^ 63"
  shows "sint (ucast (as_nanos d) :: i64) = int d"
proof -
  have "(ucast (as_nanos d) :: i64) = word_of_nat d"
    using assms by (simp add: as_nanos_def unsigned_of_nat take_bit_nat_eq_self)
  then show ?thesis
    using assms by (simp add: sint_small)
qed

lemma check_target_exact:
  assumes "wt_heartbeat_interval t < 2 ^ 63"
  shows "check_target now t =
    (if 0 < sint (wt_last_heartbeat_nanos t) \<and>
        2 * int (wt_heartbeat_interval t) < sint now - sint (wt_last_heartbeat_nanos t)
     then [\<lparr>to_id = wt_id t, to_name = wt_name t,
            to_silent_for = nat (sint now - sint (wt_last_heartbeat_nanos t))\<rparr>]
     else [])"
proof -
  let ?silent = "sint now - sint (wt_last_heartbeat_nanos t)"
  have "saturate_i128 ?silent = ?silent"
    using sint_i64_range [of now] sint_i64_range [of "wt_last_heartbeat_nanos t"]
    by (intro saturate_i128_id) simp_all
  moreover have "saturate_i128 (int (wt_heartbeat_interval t) * 2) = 2 * int (wt_heartbeat_interval t)"
    using assms by (subst saturate_i128_id) simp_all
  moreover have "from_nanos (u64_from_nanos ?silent) = nat ?silent"
    if "0 < sint (wt_last_heartbeat_nanos t)" "2 * int (wt_heartbeat_interval t) < ?silent"
    using that sint_i64_range [of now] by (intro from_u64_nanos) simp_all
  ultimately show ?thesis
    using assms by (auto simp: check_target_def sint_interval Let_def)
qed

text \<open>
  For heartbeat intervals below 2^63 ns the watchdog reports, in the order of its targets,
  exactly the workers that have beaten at least once and have been silent for more than twice
  their interval, each with the exact time of its silence.
\<close>

theorem watchdog_reports_the_silent:
  assumes "\<And>t. t \<in> set targets \<Longrightarrow> wt_heartbeat_interval t < 2 ^ 63"
  shows "watchdog_check targets now =
    map (\<lambda>t. \<lparr>to_id = wt_id t, to_name = wt_name t,
              to_silent_for = nat (sint now - sint (wt_last_heartbeat_nanos t))\<rparr>)
      (filter (\<lambda>t. 0 < sint (wt_last_heartbeat_nanos t) \<and>
          2 * int (wt_heartbeat_interval t) < sint now - sint (wt_last_heartbeat_nanos t)) targets)"
  using assms
proof (induction targets)
  case Nil
  then show ?case by (simp add: watchdog_check_def)
next
  case (Cons t targets)
  from Cons.IH Cons.prems have "watchdog_check targets now =
    map (\<lambda>t. \<lparr>to_id = wt_id t, to_name = wt_name t,
              to_silent_for = nat (sint now - sint (wt_last_heartbeat_nanos t))\<rparr>)
      (filter (\<lambda>t. 0 < sint (wt_last_heartbeat_nanos t) \<and>
          2 * int (wt_heartbeat_interval t) < sint now - sint (wt_last_heartbeat_nanos t)) targets)"
    by simp
  with Cons.prems show ?case
    by (simp add: watchdog_check_def check_target_exact)
qed

theorem watchdog_reports_the_silent_witness:
  "watchdog_check
     [\<lparr>wt_id = WorkerId 1, wt_name = ''a'', wt_last_heartbeat_nanos = 1000, wt_heartbeat_interval = 400\<rparr>,
      \<lparr>wt_id = WorkerId 2, wt_name = ''b'', wt_last_heartbeat_nanos = 1000, wt_heartbeat_interval = 500\<rparr>,
      \<lparr>wt_id = WorkerId 3, wt_name = ''c'', wt_last_heartbeat_nanos = 0, wt_heartbeat_interval = 1\<rparr>] 2000 =
   [\<lparr>to_id = WorkerId 1, to_name = ''a'', to_silent_for = 1000\<rparr>]"
  by (subst watchdog_reports_the_silent) auto

text \<open>
  The interval is cut to an \<open>i64\<close> before it is compared: with \<open>Duration::MAX\<close> ("never") it
  becomes -1, and a worker that beats at this very instant is reported silent, for 0 ns.
\<close>

theorem watchdog_truncates_long_intervals:
  "watchdog_check
     [\<lparr>wt_id = WorkerId 1, wt_name = ''a'', wt_last_heartbeat_nanos = 5, wt_heartbeat_interval = duration_max\<rparr>] 5 =
   [\<lparr>to_id = WorkerId 1, to_name = ''a'', to_silent_for = 0\<rparr>]"
proof -
  have "(ucast (as_nanos duration_max) :: i64) = - 1"
    by (simp add: as_nanos_def duration_max_value)
  then show ?thesis
    by (simp add: watchdog_check_def check_target_def saturate_i128_def u64_from_nanos_def from_nanos_def)
qed

end
