(* ===== verification/Shutdown.thy ===== *)
theory Shutdown
  imports Metrics Worker_Types
begin

text \<open>
  src/shutdown: \<open>token.rs\<close>, \<open>hook.rs\<close>, \<open>report.rs\<close>, \<open>coordinator.rs\<close> and \<open>drain.rs\<close>.
  A cancellation token is known by the calls made on it: the list of tokens on which \<open>cancel\<close> was
  called, a child token being its parent's path extended; a token reads cancelled when it or
  one of its ancestors was cancelled. A hook is code of the consumer: it is given by its name and by what
  awaiting it under a time-out yields. Texts the code asks the translation library or the
  formatter of the standard library for are the parameters \<open>tr\<close> (key, fallback) and \<open>dbg\<close>.
\<close>

section \<open>Tokens\<close>

type_synonym token = "nat list"

definition ShutdownToken_new :: token where
  "ShutdownToken_new = []"

definition ShutdownToken_child :: "nat \<Rightarrow> token \<Rightarrow> token" where
  "ShutdownToken_child n tok = tok @ [n]"

definition ShutdownToken_is_signalled :: "token \<Rightarrow> token list \<Rightarrow> bool" where
  "ShutdownToken_is_signalled tok cancelled \<longleftrightarrow> list_ex (\<lambda>p. take (length p) tok = p) cancelled"

definition ShutdownToken_signal :: "token \<Rightarrow> token list \<Rightarrow> token list" where
  "ShutdownToken_signal tok cancelled =
     (if ShutdownToken_is_signalled tok cancelled then cancelled else tok # cancelled)"

interpretation token_latch: latch "ShutdownToken_signal tok" "ShutdownToken_is_signalled tok" for tok
  by unfold_locales (simp_all add: ShutdownToken_signal_def ShutdownToken_is_signalled_def)

lemma signalled_after_signal:
  "ShutdownToken_is_signalled tok (ShutdownToken_signal p c) \<longleftrightarrow>
   take (length p) tok = p \<or> ShutdownToken_is_signalled tok c"
proof (cases "ShutdownToken_is_signalled p c")
  case True
  then obtain q where q: "q \<in> set c" "take (length q) p = q"
    by (auto simp: ShutdownToken_is_signalled_def list_ex_iff)
  have "take (length q) tok = q" if "take (length p) tok = p"
    using that q(2) by (metis min.absorb1 length_take nat_le_linear take_all take_take)
  with True q(1) show ?thesis
    by (auto simp: ShutdownToken_signal_def ShutdownToken_is_signalled_def list_ex_iff)
qed (auto simp: ShutdownToken_signal_def ShutdownToken_is_signalled_def)

text \<open>A parent's signal reaches its children, a child's reaches neither parent nor sibling.\<close>

lemma signal_goes_down:
  "ShutdownToken_is_signalled (ShutdownToken_child n tok) (ShutdownToken_signal tok c)"
  by (simp add: signalled_after_signal ShutdownToken_child_def)

lemma signal_stays_below:
  "ShutdownToken_is_signalled tok (ShutdownToken_signal (ShutdownToken_child n tok) c) \<longleftrightarrow>
     ShutdownToken_is_signalled tok c"
  "m \<noteq> n \<Longrightarrow> ShutdownToken_is_signalled (ShutdownToken_child m tok)
     (ShutdownToken_signal (ShutdownToken_child n tok) c) \<longleftrightarrow>
     ShutdownToken_is_signalled (ShutdownToken_child m tok) c"
  by (auto simp: signalled_after_signal ShutdownToken_child_def)

section \<open>Hooks and reports\<close>

record HookError =
  he_hook_name :: string
  he_source :: string

definition HookError_new :: "string \<Rightarrow> string \<Rightarrow> HookError" where
  "HookError_new hook_name src = \<lparr>he_hook_name = hook_name, he_source = src\<rparr>"

definition HookError_from_message :: "string \<Rightarrow> string \<Rightarrow> HookError" where
  "HookError_from_message hook_name msg = \<lparr>he_hook_name = hook_name, he_source = msg\<rparr>"

definition HookError_fmt :: "(string \<Rightarrow> string \<Rightarrow> string) \<Rightarrow> HookError \<Rightarrow> string" where
  "HookError_fmt tr e =
     tr ''kernel.shutdown.hook.failed'' ''shutdown hook failed'' @ '': '' @ he_hook_name e @ '': '' @ he_source e"

text \<open>What awaiting a hook under a time-out yields.\<close>

datatype hook_answer = HookReturned "HookError + unit" | HookTimedOut | HookPanicked panic_payload

text \<open>\<open>hk_run\<close> takes the context's deadline and the time-out.\<close>

record hook =
  hk_name :: string
  hk_run :: "instant \<Rightarrow> duration \<Rightarrow> hook_answer"

definition ShutdownContext_remaining :: "instant \<Rightarrow> instant \<Rightarrow> duration" where
  "ShutdownContext_remaining now deadline =
     (case checked_duration_since deadline now of Some d \<Rightarrow> d | None \<Rightarrow> 0)"

record ShutdownReport =
  sr_started_at :: instant
  sr_completed_at :: instant
  sr_workers_drained :: nat
  sr_workers_aborted :: nat
  sr_hooks_succeeded :: "string list"
  sr_hooks_failed :: "(string \<times> string) list"
  sr_subsystems_shutdown :: "string list"
  sr_subsystems_failed :: "(string \<times> string) list"

definition ShutdownReport_duration :: "ShutdownReport \<Rightarrow> duration" where
  "ShutdownReport_duration r = Instant_duration_since (sr_completed_at r) (sr_started_at r)"

definition ShutdownReport_is_clean :: "ShutdownReport \<Rightarrow> bool" where
  "ShutdownReport_is_clean r \<longleftrightarrow>
     sr_workers_aborted r = 0 \<and> sr_hooks_failed r = [] \<and> sr_subsystems_failed r = []"

section \<open>Coordinator\<close>

record ShutdownCoordinator =
  co_cancelled :: "token list"
  co_grace :: duration
  co_hooks :: "hook list"
  co_completed :: bool

definition DEFAULT_GRACE :: duration where
  "DEFAULT_GRACE = from_secs 10"

definition ShutdownCoordinator_new :: "duration \<Rightarrow> ShutdownCoordinator" where
  "ShutdownCoordinator_new grace =
     \<lparr>co_cancelled = [], co_grace = grace, co_hooks = [], co_completed = False\<rparr>"

definition ShutdownCoordinator_with_default_grace :: ShutdownCoordinator where
  "ShutdownCoordinator_with_default_grace = ShutdownCoordinator_new DEFAULT_GRACE"

definition register_hook :: "hook \<Rightarrow> ShutdownCoordinator \<Rightarrow> ShutdownCoordinator" where
  "register_hook h co = co\<lparr>co_hooks := co_hooks co @ [h]\<rparr>"

definition hook_count :: "ShutdownCoordinator \<Rightarrow> nat" where
  "hook_count co = length (co_hooks co)"

definition co_is_signalled :: "ShutdownCoordinator \<Rightarrow> bool" where
  "co_is_signalled co = ShutdownToken_is_signalled ShutdownToken_new (co_cancelled co)"

text \<open>The clock readings of one call; \<open>sc_hook i\<close> is the one before hook \<open>i\<close>.\<close>

record shutdown_clock =
  sc_started :: instant
  sc_std_started :: instant
  sc_hook :: "nat \<Rightarrow> instant"
  sc_completed :: instant

text \<open>The loop over the hooks; \<open>None\<close> is a panic of a hook, which unwinds out of the loop.\<close>

fun run_hooks ::
    "(string \<Rightarrow> string \<Rightarrow> string) \<Rightarrow> (duration \<Rightarrow> string) \<Rightarrow> instant \<Rightarrow> (nat \<Rightarrow> instant) \<Rightarrow> nat \<Rightarrow>
     hook list \<Rightarrow> string list \<Rightarrow> (string \<times> string) list \<Rightarrow>
     (string list \<times> (string \<times> string) list) option" where
  "run_hooks tr dbg deadline now i [] succeeded failed = Some (succeeded, failed)"
| "run_hooks tr dbg deadline now i (h # hs) succeeded failed =
     (let name = hk_name h;
          remaining = (case checked_duration_since deadline (now i) of Some d \<Rightarrow> d | None \<Rightarrow> 0)
      in if remaining = 0
         then run_hooks tr dbg deadline now (Suc i) hs succeeded
                (failed @ [(name, ''deadline expired before hook ran'')])
         else case hk_run h deadline remaining of
                HookReturned (Inr _) \<Rightarrow>
                  run_hooks tr dbg deadline now (Suc i) hs (succeeded @ [name]) failed
              | HookReturned (Inl e) \<Rightarrow>
                  run_hooks tr dbg deadline now (Suc i) hs succeeded (failed @ [(name, HookError_fmt tr e)])
              | HookTimedOut \<Rightarrow>
                  run_hooks tr dbg deadline now (Suc i) hs succeeded
                    (failed @ [(name, ''hook timed out after '' @ dbg remaining)])
              | HookPanicked p \<Rightarrow> None)"

definition empty_report :: "instant \<Rightarrow> instant \<Rightarrow> ShutdownReport" where
  "empty_report started completed =
     \<lparr>sr_started_at = started, sr_completed_at = completed, sr_workers_drained = 0,
      sr_workers_aborted = 0, sr_hooks_succeeded = [], sr_hooks_failed = [],
      sr_subsystems_shutdown = [], sr_subsystems_failed = []\<rparr>"

text \<open>
  \<open>ShutdownCoordinator::shutdown\<close>; a \<open>None\<close> in place of the report is a panic, in which case the
  state and the effects are those reached when it happened.
\<close>

definition coordinator_shutdown ::
    "(string \<Rightarrow> string \<Rightarrow> string) \<Rightarrow> (duration \<Rightarrow> string) \<Rightarrow> shutdown_clock \<Rightarrow> ShutdownCoordinator \<Rightarrow>
     ShutdownReport option \<times> ShutdownCoordinator \<times> effect list" where
  "coordinator_shutdown tr dbg clock co =
     (let already_done = co_completed co;
          co = co\<lparr>co_completed := True\<rparr>
      in if already_done
         then (Some (empty_report (sc_started clock) (sc_completed clock)), co, [])
         else case instant_plus (sc_std_started clock) (co_grace co) of
                None \<Rightarrow> (None, co, [])
              | Some deadline \<Rightarrow>
                  (let started = [Emit (Lifecycle (ShutdownStarted (sc_started clock)))];
                       co = co\<lparr>co_cancelled := ShutdownToken_signal ShutdownToken_new (co_cancelled co)\<rparr>;
                       hooks = co_hooks co;
                       co = co\<lparr>co_hooks := []\<rparr>
                   in case run_hooks tr dbg deadline (sc_hook clock) 0 hooks [] [] of
                        None \<Rightarrow> (None, co, started)
                      | Some (succeeded, failed) \<Rightarrow>
                          (let report = (empty_report (sc_started clock) (sc_completed clock))
                                 \<lparr>sr_hooks_succeeded := succeeded, sr_hooks_failed := failed\<rparr>
                           in (Some report, co,
                               started @ [Emit (Lifecycle (ShutdownCompleted (ShutdownReport_duration report)
                                 (sr_workers_drained report) (sr_workers_aborted report)
                                 (sc_completed clock)))]))))"

subsection \<open>What a shutdown does\<close>

text \<open>The verdict on one hook: \<open>None\<close> when it succeeded, otherwise the recorded failure.\<close>

definition hook_verdict ::
    "(string \<Rightarrow> string \<Rightarrow> string) \<Rightarrow> (duration \<Rightarrow> string) \<Rightarrow> instant \<Rightarrow> instant \<Rightarrow> hook \<Rightarrow> string option" where
  "hook_verdict tr dbg deadline now h =
     (if deadline \<le> now then Some ''deadline expired before hook ran''
      else case hk_run h deadline (nat (deadline - now)) of
             HookReturned (Inr _) \<Rightarrow> None
           | HookReturned (Inl e) \<Rightarrow> Some (HookError_fmt tr e)
           | HookTimedOut \<Rightarrow> Some (''hook timed out after '' @ dbg (nat (deadline - now)))
           | HookPanicked p \<Rightarrow> None)"

definition hook_never_panics :: "hook \<Rightarrow> bool" where
  "hook_never_panics h \<longleftrightarrow> (\<forall>deadline d p. hk_run h deadline d \<noteq> HookPanicked p)"

text \<open>Name and verdict of every hook, in registration order.\<close>

definition hook_verdicts ::
    "(string \<Rightarrow> string \<Rightarrow> string) \<Rightarrow> (duration \<Rightarrow> string) \<Rightarrow> instant \<Rightarrow> (nat \<Rightarrow> instant) \<Rightarrow> nat \<Rightarrow>
     hook list \<Rightarrow> (string \<times> string option) list" where
  "hook_verdicts tr dbg deadline now i hs =
     map (\<lambda>(j, h). (hk_name h, hook_verdict tr dbg deadline (now j) h)) (enumerate i hs)"

definition succeeded_of :: "(string \<times> string option) list \<Rightarrow> string list" where
  "succeeded_of vs = map fst (filter (\<lambda>v. snd v = None) vs)"

definition failed_of :: "(string \<times> string option) list \<Rightarrow> (string \<times> string) list" where
  "failed_of vs = map (\<lambda>v. (fst v, the (snd v))) (filter (\<lambda>v. snd v \<noteq> None) vs)"

lemma run_hooks_verdicts:
  "list_all hook_never_panics hs \<Longrightarrow>
   run_hooks tr dbg deadline now i hs succ fail =
     Some (succ @ succeeded_of (hook_verdicts tr dbg deadline now i hs),
           fail @ failed_of (hook_verdicts tr dbg deadline now i hs))"
proof (induction hs arbitrary: i succ fail)
  case Nil
  then show ?case
    by (simp add: hook_verdicts_def succeeded_of_def failed_of_def)
next
  case (Cons h hs)
  define remaining where "remaining = (case checked_duration_since deadline (now i) of Some d \<Rightarrow> d | None \<Rightarrow> 0)"
  have rem: "remaining = nat (deadline - now i)" "remaining = 0 \<longleftrightarrow> deadline \<le> now i"
    by (auto simp: remaining_def checked_duration_since_def)
  have np: "hk_run h deadline remaining \<noteq> HookPanicked p" for p
    using Cons.prems by (simp add: hook_never_panics_def)
  have vs: "hook_verdicts tr dbg deadline now i (h # hs) =
      (hk_name h, hook_verdict tr dbg deadline (now i) h) # hook_verdicts tr dbg deadline now (Suc i) hs"
    by (simp add: hook_verdicts_def)
  show ?case
    using Cons np rem
    by (cases "hk_run h deadline remaining"; cases "remaining = 0")
      (auto simp: vs Let_def hook_verdict_def succeeded_of_def failed_of_def
        simp flip: remaining_def split: sum.splits)
qed

lemma verdicts_partition:
  "length (succeeded_of vs) + length (failed_of vs) = length vs"
  using sum_length_filter_compl [of "\<lambda>v. snd v = None" vs] by (simp add: succeeded_of_def failed_of_def)


definition demo_coordinator :: ShutdownCoordinator where
  "demo_coordinator =
     register_hook \<lparr>hk_name = ''flush'', hk_run = \<lambda>_ _. HookReturned (Inr ())\<rparr>
      (register_hook \<lparr>hk_name = ''close'', hk_run = \<lambda>_ _. HookReturned (Inl (HookError_new ''close'' ''io''))\<rparr>
        (ShutdownCoordinator_new 10))"


text \<open>
  A grace period that does not fit the clock (\<open>Duration::MAX\<close>) makes the first \<open>shutdown\<close>
  panic after it has marked itself done: no event is emitted, the token is not signalled, no hook
  runs, and from then on every call reports a clean shutdown that never took place.
\<close>

theorem huge_grace_never_shuts_down:
  assumes "\<not> co_completed co" and "instant_max < sc_std_started clock + int (co_grace co)"
  shows "\<exists>co'. coordinator_shutdown tr dbg clock co = (None, co', []) \<and>
    co_is_signalled co' = co_is_signalled co \<and> co_hooks co' = co_hooks co \<and>
    coordinator_shutdown tr dbg clock' co' =
      (Some (empty_report (sc_started clock') (sc_completed clock')), co', []) \<and>
    ShutdownReport_is_clean (empty_report (sc_started clock') (sc_completed clock'))"
  using assms
  by (simp add: coordinator_shutdown_def instant_plus_def Instant_checked_add_def Let_def
      co_is_signalled_def empty_report_def ShutdownReport_is_clean_def)

theorem huge_grace_never_shuts_down_witness:
  "\<exists>co'. coordinator_shutdown (\<lambda>k fb. fb) (\<lambda>d. [])
      \<lparr>sc_started = 1, sc_std_started = 2, sc_hook = int, sc_completed = 9\<rparr>
      (ShutdownCoordinator_new duration_max) = (None, co', []) \<and> \<not> co_is_signalled co'"
  using huge_grace_never_shuts_down [of "ShutdownCoordinator_new duration_max"
      "\<lparr>sc_started = 1, sc_std_started = 2, sc_hook = int, sc_completed = 9\<rparr>" "\<lambda>k fb. fb" "\<lambda>d. []"]
  by (fastforce simp: ShutdownCoordinator_new_def instant_max_def nanos_per_sec_def duration_max_value
      co_is_signalled_def ShutdownToken_is_signalled_def)

section \<open>Draining a join set\<close>

text \<open>
  What joining a task yields. A join set with tasks in it is the list of what joining them will
  yield, in the order in which they end; \<open>in_time\<close> of them end before the deadline.
\<close>

datatype join_result = JoinedOk | JoinPanicked | JoinCancelled

record DrainOutcome =
  do_drained :: nat
  do_aborted :: nat
  do_elapsed :: duration

definition DrainOutcome_total :: "DrainOutcome \<Rightarrow> nat" where
  "DrainOutcome_total o1 = do_drained o1 + do_aborted o1"

definition DrainOutcome_is_clean :: "DrainOutcome \<Rightarrow> bool" where
  "DrainOutcome_is_clean o1 \<longleftrightarrow> do_aborted o1 = 0"

fun count_in_time :: "join_result \<Rightarrow> nat \<times> nat \<Rightarrow> nat \<times> nat" where
  "count_in_time JoinedOk (drained, aborted) = (drained + 1, aborted)"
| "count_in_time JoinCancelled (drained, aborted) = (drained, aborted + 1)"
| "count_in_time JoinPanicked (drained, aborted) = (drained + 1, aborted)"

fun count_after_abort :: "join_result \<Rightarrow> nat \<times> nat \<Rightarrow> nat \<times> nat" where
  "count_after_abort JoinedOk (drained, aborted) = (drained + 1, aborted)"
| "count_after_abort JoinCancelled (drained, aborted) = (drained, aborted + 1)"
| "count_after_abort JoinPanicked (drained, aborted) = (drained, aborted + 1)"

definition drain ::
    "instant \<Rightarrow> duration \<Rightarrow> nat \<Rightarrow> join_result list \<Rightarrow> instant \<Rightarrow> DrainOutcome option" where
  "drain started grace in_time tasks now =
     (let outcome = (\<lambda>(drained, aborted).
            \<lparr>do_drained = drained, do_aborted = aborted, do_elapsed = Instant_elapsed now started\<rparr>)
      in if tasks = [] then Some (outcome (0, 0))
         else case instant_plus started grace of
                None \<Rightarrow> None
              | Some deadline \<Rightarrow>
                  (let counts = fold count_in_time (take in_time tasks) (0, 0);
                       rest = drop in_time tasks
                   in Some (outcome (if rest = [] then counts else fold count_after_abort rest counts))))"

lemma fold_count_in_time:
  "fold count_in_time rs (d, a) =
     (d + length (filter (\<lambda>r. r \<noteq> JoinCancelled) rs), a + length (filter (\<lambda>r. r = JoinCancelled) rs))"
proof (induction rs arbitrary: d a)
  case (Cons r rs)
  then show ?case
    by (cases r) simp_all
qed simp

lemma fold_count_after_abort:
  "fold count_after_abort rs (d, a) =
     (d + length (filter (\<lambda>r. r = JoinedOk) rs), a + length (filter (\<lambda>r. r \<noteq> JoinedOk) rs))"
proof (induction rs arbitrary: d a)
  case (Cons r rs)
  then show ?case
    by (cases r) simp_all
qed simp

text \<open>
  A drain whose grace fits the clock counts every task of the set exactly once. It aborts
  nothing unless a task was cancelled, or ended other than normally after the deadline: a task
  that panics counts as drained before the deadline and as aborted after it.
\<close>

theorem drain_counts_every_task:
  assumes "started + int grace \<le> instant_max"
  shows "\<exists>outcome. drain started grace in_time tasks now = Some outcome \<and>
    DrainOutcome_total outcome = length tasks \<and>
    do_aborted outcome = length (filter (\<lambda>r. r = JoinCancelled) (take in_time tasks)) +
      length (filter (\<lambda>r. r \<noteq> JoinedOk) (drop in_time tasks)) \<and>
    (DrainOutcome_is_clean outcome \<longleftrightarrow>
      JoinCancelled \<notin> set (take in_time tasks) \<and> set (drop in_time tasks) \<subseteq> {JoinedOk})"
proof -
  let ?t = "take in_time tasks" and ?d = "drop in_time tasks"
  define outcome where "outcome =
    \<lparr>do_drained = length (filter (\<lambda>r. r \<noteq> JoinCancelled) ?t) + length (filter (\<lambda>r. r = JoinedOk) ?d),
     do_aborted = length (filter (\<lambda>r. r = JoinCancelled) ?t) + length (filter (\<lambda>r. r \<noteq> JoinedOk) ?d),
     do_elapsed = Instant_elapsed now started\<rparr>"
  have "drain started grace in_time tasks now = Some outcome"
    using assms by (auto simp: drain_def outcome_def instant_plus_def Instant_checked_add_def Let_def
        fold_count_in_time fold_count_after_abort)
  moreover have "DrainOutcome_total outcome = length tasks"
    using sum_length_filter_compl [of "\<lambda>r. r = JoinCancelled" ?t]
      sum_length_filter_compl [of "\<lambda>r. r = JoinedOk" ?d] arg_cong [OF append_take_drop_id [of in_time tasks], of length]
    by (simp add: outcome_def DrainOutcome_total_def)
  moreover have "DrainOutcome_is_clean outcome \<longleftrightarrow>
      JoinCancelled \<notin> set ?t \<and> set ?d \<subseteq> {JoinedOk}"
    by (auto simp: outcome_def DrainOutcome_is_clean_def filter_empty_conv)
  ultimately show ?thesis
    by (simp add: outcome_def)
qed

theorem drain_counts_every_task_witness:
  "\<exists>outcome. drain 0 5 2 [JoinedOk, JoinPanicked, JoinPanicked, JoinCancelled] 7 = Some outcome \<and>
    DrainOutcome_total outcome = 4 \<and> do_aborted outcome = 2"
  using drain_counts_every_task [of 0 5 2 "[JoinedOk, JoinPanicked, JoinPanicked, JoinCancelled]" 7]
  by (auto simp: instant_max_def nanos_per_sec_def)

end
