(* ===== verification/Shutdown_Concurrent.thy ===== *)
theory Shutdown_Concurrent
  imports Shutdown
begin

text \<open>
  \<open>ShutdownCoordinator\<close> of src/shutdown/coordinator.rs under concurrent calls of \<open>register_hook\<close> and \<open>shutdown\<close>. The two
  mutexes (\<open>completed\<close> and \<open>hooks\<close>), the token and each hook that is awaited are one step each. \<open>cw_registered\<close> and \<open>cw_ran\<close>
  record, oldest first, the hooks that were registered and those the loop has dealt with.
\<close>

section \<open>Steps\<close>

text \<open>Where a call of \<open>shutdown\<close> is. A panic drops the hooks that were still to run.\<close>

datatype coordinator_pc =
    ShutIdle
  | Marked instant instant
  | Announced instant instant
  | Signalled instant instant
  | RunningHooks instant instant "hook list" "string list" "(string \<times> string) list"
  | ShutPanicked "hook list"

record coordinator_world =
  cw_co :: ShutdownCoordinator
  cw_pc :: "nat \<Rightarrow> coordinator_pc"
  cw_registered :: "hook list"
  cw_ran :: "hook list"
  cw_reports :: "ShutdownReport list"
  cw_log :: "effect list"

abbreviation shut_pc :: "nat \<Rightarrow> coordinator_pc \<Rightarrow> coordinator_world \<Rightarrow> coordinator_world" where
  "shut_pc t pc w \<equiv> w\<lparr>cw_pc := (cw_pc w)(t := pc)\<rparr>"

inductive coordinator_step ::
    "(string \<Rightarrow> string \<Rightarrow> string) \<Rightarrow> (duration \<Rightarrow> string) \<Rightarrow> coordinator_world \<Rightarrow> coordinator_world \<Rightarrow> bool"
  for tr dbg where
  registers: "coordinator_step tr dbg w
    (w\<lparr>cw_co := register_hook h (cw_co w), cw_registered := cw_registered w @ [h]\<rparr>)"
| marks: "cw_pc w t = ShutIdle \<Longrightarrow> \<not> co_completed (cw_co w) \<Longrightarrow>
    coordinator_step tr dbg w (shut_pc t (Marked started std_started) (w\<lparr>cw_co := (cw_co w)\<lparr>co_completed := True\<rparr>\<rparr>))"
| already_done: "cw_pc w t = ShutIdle \<Longrightarrow> co_completed (cw_co w) \<Longrightarrow>
    coordinator_step tr dbg w (w\<lparr>cw_reports := cw_reports w @ [empty_report started now]\<rparr>)"
| overflows: "cw_pc w t = Marked started std_started \<Longrightarrow> instant_plus std_started (co_grace (cw_co w)) = None \<Longrightarrow>
    coordinator_step tr dbg w (shut_pc t (ShutPanicked []) w)"
| announces: "cw_pc w t = Marked started std_started \<Longrightarrow> instant_plus std_started (co_grace (cw_co w)) = Some deadline \<Longrightarrow>
    coordinator_step tr dbg w (shut_pc t (Announced started deadline)
      (w\<lparr>cw_log := cw_log w @ [Emit (Lifecycle (ShutdownStarted started))]\<rparr>))"
| signals: "cw_pc w t = Announced started deadline \<Longrightarrow>
    coordinator_step tr dbg w (shut_pc t (Signalled started deadline)
      (w\<lparr>cw_co := (cw_co w)\<lparr>co_cancelled := ShutdownToken_signal ShutdownToken_new (co_cancelled (cw_co w))\<rparr>\<rparr>))"
| takes_hooks: "cw_pc w t = Signalled started deadline \<Longrightarrow>
    coordinator_step tr dbg w (shut_pc t (RunningHooks started deadline (co_hooks (cw_co w)) [] [])
      (w\<lparr>cw_co := (cw_co w)\<lparr>co_hooks := []\<rparr>\<rparr>))"
| runs_hook: "cw_pc w t = RunningHooks started deadline (h # hs) succeeded failed \<Longrightarrow>
    run_hooks tr dbg deadline (\<lambda>_. now) 0 [h] succeeded failed = Some (succeeded', failed') \<Longrightarrow>
    coordinator_step tr dbg w (shut_pc t (RunningHooks started deadline hs succeeded' failed') (w\<lparr>cw_ran := cw_ran w @ [h]\<rparr>))"
| hook_panics: "cw_pc w t = RunningHooks started deadline (h # hs) succeeded failed \<Longrightarrow>
    run_hooks tr dbg deadline (\<lambda>_. now) 0 [h] succeeded failed = None \<Longrightarrow>
    coordinator_step tr dbg w (shut_pc t (ShutPanicked hs) (w\<lparr>cw_ran := cw_ran w @ [h]\<rparr>))"
| reports: "cw_pc w t = RunningHooks started deadline [] succeeded failed \<Longrightarrow>
    report = (empty_report started completed)\<lparr>sr_hooks_succeeded := succeeded, sr_hooks_failed := failed\<rparr> \<Longrightarrow>
    coordinator_step tr dbg w (shut_pc t ShutIdle (w\<lparr>cw_reports := cw_reports w @ [report],
      cw_log := cw_log w @ [Emit (Lifecycle (ShutdownCompleted (ShutdownReport_duration report)
        (sr_workers_drained report) (sr_workers_aborted report) completed))]\<rparr>))"

definition coordinator_start :: "duration \<Rightarrow> coordinator_world \<Rightarrow> bool" where
  "coordinator_start grace w \<longleftrightarrow>
     w = \<lparr>cw_co = ShutdownCoordinator_new grace, cw_pc = (\<lambda>_. ShutIdle), cw_registered = [], cw_ran = [],
          cw_reports = [], cw_log = []\<rparr>"

section \<open>Invariant\<close>

fun is_started :: "effect \<Rightarrow> bool" where
  "is_started (Emit (Lifecycle (ShutdownStarted _))) = True"
| "is_started _ = False"

fun is_completed :: "effect \<Rightarrow> bool" where
  "is_completed (Emit (Lifecycle (ShutdownCompleted _ _ _ _))) = True"
| "is_completed _ = False"

abbreviation started_count :: "coordinator_world \<Rightarrow> nat" where
  "started_count w \<equiv> length (filter is_started (cw_log w))"

abbreviation completed_count :: "coordinator_world \<Rightarrow> nat" where
  "completed_count w \<equiv> length (filter is_completed (cw_log w))"

text \<open>What holds when the one call that is past its first lock is at a place.\<close>

fun holder_ok :: "coordinator_world \<Rightarrow> coordinator_pc \<Rightarrow> bool" where
  "holder_ok w ShutIdle \<longleftrightarrow>
     (if co_completed (cw_co w)
      then cw_registered w = cw_ran w @ co_hooks (cw_co w) \<and> started_count w = 1 \<and> completed_count w = 1
      else cw_registered w = co_hooks (cw_co w) \<and> cw_ran w = [] \<and> started_count w = 0 \<and> completed_count w = 0)"
| "holder_ok w (Marked _ _) \<longleftrightarrow> co_completed (cw_co w) \<and> cw_registered w = co_hooks (cw_co w) \<and> cw_ran w = [] \<and>
     started_count w = 0 \<and> completed_count w = 0"
| "holder_ok w (Announced _ _) \<longleftrightarrow> co_completed (cw_co w) \<and> cw_registered w = co_hooks (cw_co w) \<and> cw_ran w = [] \<and>
     started_count w = 1 \<and> completed_count w = 0"
| "holder_ok w (Signalled _ _) \<longleftrightarrow> co_completed (cw_co w) \<and> cw_registered w = co_hooks (cw_co w) \<and> cw_ran w = [] \<and>
     started_count w = 1 \<and> completed_count w = 0"
| "holder_ok w (RunningHooks _ _ hs succeeded failed) \<longleftrightarrow> co_completed (cw_co w) \<and>
     cw_registered w = cw_ran w @ hs @ co_hooks (cw_co w) \<and> length succeeded + length failed = length (cw_ran w) \<and>
     started_count w = 1 \<and> completed_count w = 0"
| "holder_ok w (ShutPanicked hs) \<longleftrightarrow> co_completed (cw_co w) \<and>
     cw_registered w = cw_ran w @ hs @ co_hooks (cw_co w) \<and> started_count w \<le> 1 \<and> completed_count w = 0"

definition coordinator_inv :: "coordinator_world \<Rightarrow> bool" where
  "coordinator_inv w \<longleftrightarrow> (\<exists>t. (\<forall>u. u \<noteq> t \<longrightarrow> cw_pc w u = ShutIdle) \<and> holder_ok w (cw_pc w t))"

lemma run_hooks_one:
  "run_hooks tr dbg deadline now i [h] s f = Some (s', f') \<Longrightarrow> length s' + length f' = Suc (length s + length f)"
  by (auto simp: Let_def split: if_splits hook_answer.splits sum.splits)

lemma coordinator_invI:
  "(\<And>u. u \<noteq> t \<Longrightarrow> cw_pc w u = ShutIdle) \<Longrightarrow> holder_ok w (cw_pc w t) \<Longrightarrow> coordinator_inv w"
  by (auto simp: coordinator_inv_def)

lemma before_completed: "holder_ok w pc \<Longrightarrow> \<not> co_completed (cw_co w) \<Longrightarrow> pc = ShutIdle"
  by (cases pc) simp_all

lemma coordinator_inv_step:
  assumes inv: "coordinator_inv w" and step: "coordinator_step tr dbg w w'"
  shows "coordinator_inv w'"
proof -
  obtain t where idle: "\<And>u. u \<noteq> t \<Longrightarrow> cw_pc w u = ShutIdle" and ok: "holder_ok w (cw_pc w t)"
    using inv by (auto simp: coordinator_inv_def)
  have mine: "u = t" if "cw_pc w u = pc" "pc \<noteq> ShutIdle" for u pc
    using idle that by metis
  show ?thesis
    using step
  proof cases
    case (registers h)
    then show ?thesis
      using idle ok by (cases "cw_pc w t") (auto intro!: coordinator_invI [of t] simp: register_hook_def)
  next
    case (marks u started std_started)
    then have t: "cw_pc w t = ShutIdle"
      using ok before_completed by blast
    have "cw_pc w v = ShutIdle" for v
      using idle t by (cases "v = t") simp_all
    then show ?thesis
      using ok marks t by (intro coordinator_invI [of u]) simp_all
  next
    case (already_done u started now)
    then show ?thesis
      using idle ok by (cases "cw_pc w t") (auto intro!: coordinator_invI [of t])
  next
    case (overflows u started std_started)
    then have "u = t"
      using mine by blast
    then show ?thesis
      using overflows idle ok by (intro coordinator_invI [of t]) simp_all
  next
    case (announces u started std_started deadline)
    then have "u = t"
      using mine by blast
    then show ?thesis
      using announces idle ok by (intro coordinator_invI [of t]) simp_all
  next
    case (signals u started deadline)
    then have "u = t"
      using mine by blast
    then show ?thesis
      using signals idle ok by (intro coordinator_invI [of t]) simp_all
  next
    case (takes_hooks u started deadline)
    then have "u = t"
      using mine by blast
    then show ?thesis
      using takes_hooks idle ok by (intro coordinator_invI [of t]) simp_all
  next
    case (runs_hook u started deadline h hs succeeded failed now succeeded' failed')
    then have "u = t"
      using mine by blast
    then show ?thesis
      using runs_hook idle ok run_hooks_one [OF runs_hook(3)] by (intro coordinator_invI [of t]) simp_all
  next
    case (hook_panics u started deadline h hs succeeded failed now)
    then have "u = t"
      using mine by blast
    then show ?thesis
      using hook_panics idle ok by (intro coordinator_invI [of t]) simp_all
  next
    case (reports u started deadline succeeded failed report completed)
    then have "u = t"
      using mine by blast
    then show ?thesis
      using reports idle ok by (intro coordinator_invI [of t]) simp_all
  qed
qed

interpretation coordinating: invariant_system "coordinator_start grace" "coordinator_step tr dbg" coordinator_inv for grace tr dbg
proof unfold_locales
  show "coordinator_start grace w \<Longrightarrow> coordinator_inv w" for w
    by (auto simp: coordinator_start_def coordinator_inv_def ShutdownCoordinator_new_def)
qed (rule coordinator_inv_step)

section \<open>Property\<close>

text \<open>
  C30: However calls of \<open>register_hook\<close> and \<open>shutdown\<close> interleave, the hooks that have run are a prefix of those registered, in
  that order and each once; at most one call works on them; none runs before a shutdown has begun; when the shutdown is over and did
  not panic, every hook that is not still in the list, because it was registered too late, has run; and each of the two
  shutdown events is emitted at most once.
\<close>

theorem concurrent_shutdowns_run_hooks_once:
  assumes "coordinator_start grace w0" and "(coordinator_step tr dbg)\<^sup>*\<^sup>* w0 w"
  shows "(\<exists>rest. cw_registered w = cw_ran w @ rest @ co_hooks (cw_co w)) \<and>
    (\<forall>t u. cw_pc w t \<noteq> ShutIdle \<longrightarrow> cw_pc w u \<noteq> ShutIdle \<longrightarrow> t = u) \<and>
    (\<not> co_completed (cw_co w) \<longrightarrow> cw_ran w = []) \<and>
    ((\<forall>t. cw_pc w t = ShutIdle) \<longrightarrow> co_completed (cw_co w) \<longrightarrow> cw_registered w = cw_ran w @ co_hooks (cw_co w)) \<and>
    length (filter is_started (cw_log w)) \<le> 1 \<and> length (filter is_completed (cw_log w)) \<le> 1"
proof -
  obtain t where idle: "\<And>u. u \<noteq> t \<Longrightarrow> cw_pc w u = ShutIdle" and ok: "holder_ok w (cw_pc w t)"
    using coordinating.inv_reachable [OF assms] by (auto simp: coordinator_inv_def)
  have "\<forall>u v. cw_pc w u \<noteq> ShutIdle \<longrightarrow> cw_pc w v \<noteq> ShutIdle \<longrightarrow> u = v"
    using idle by metis
  moreover have "(\<exists>rest. cw_registered w = cw_ran w @ rest @ co_hooks (cw_co w)) \<and>
      (\<not> co_completed (cw_co w) \<longrightarrow> cw_ran w = []) \<and> started_count w \<le> 1 \<and> completed_count w \<le> 1"
    using ok by (cases "cw_pc w t") (auto split: if_splits)
  moreover have "(\<forall>t. cw_pc w t = ShutIdle) \<longrightarrow> co_completed (cw_co w) \<longrightarrow> cw_registered w = cw_ran w @ co_hooks (cw_co w)"
    using ok by (metis holder_ok.simps(1))
  ultimately show ?thesis
    by simp
qed

text \<open>A complete run: a hook is registered, one call runs it, and a second hook comes too late.\<close>

theorem concurrent_shutdowns_run_hooks_once_witness:
  "\<exists>w0 w h late. coordinator_start 10 w0 \<and> (coordinator_step (\<lambda>k d. k) (\<lambda>d. ''''))\<^sup>*\<^sup>* w0 w \<and>
     cw_registered w = [h, late] \<and> cw_ran w = [h] \<and> length (filter is_completed (cw_log w)) \<le> 1"
proof -
  let ?step = "coordinator_step (\<lambda>k d. k) (\<lambda>d. '''')"
  let ?h = "\<lparr>hk_name = ''flush'', hk_run = \<lambda>d r. HookReturned (Inr ())\<rparr>"
  let ?late = "\<lparr>hk_name = ''late'', hk_run = \<lambda>d r. HookTimedOut\<rparr>"
  let ?w0 = "\<lparr>cw_co = ShutdownCoordinator_new 10, cw_pc = (\<lambda>_. ShutIdle), cw_registered = [], cw_ran = [],
    cw_reports = [], cw_log = []\<rparr>"
  let ?w1 = "?w0\<lparr>cw_co := register_hook ?h (cw_co ?w0), cw_registered := [?h]\<rparr>"
  let ?w2 = "shut_pc 0 (Marked 1 2) (?w1\<lparr>cw_co := (cw_co ?w1)\<lparr>co_completed := True\<rparr>\<rparr>)"
  let ?w3 = "shut_pc 0 (Announced 1 12) (?w2\<lparr>cw_log := [Emit (Lifecycle (ShutdownStarted 1))]\<rparr>)"
  let ?w4 = "shut_pc 0 (Signalled 1 12) (?w3\<lparr>cw_co := (cw_co ?w3)\<lparr>co_cancelled :=
    ShutdownToken_signal ShutdownToken_new (co_cancelled (cw_co ?w3))\<rparr>\<rparr>)"
  let ?w5 = "shut_pc 0 (RunningHooks 1 12 [?h] [] []) (?w4\<lparr>cw_co := (cw_co ?w4)\<lparr>co_hooks := []\<rparr>\<rparr>)"
  let ?w6 = "shut_pc 0 (RunningHooks 1 12 [] [''flush''] []) (?w5\<lparr>cw_ran := [?h]\<rparr>)"
  let ?w7 = "?w6\<lparr>cw_co := register_hook ?late (cw_co ?w6), cw_registered := [?h, ?late]\<rparr>"
  note [simp] = ShutdownCoordinator_new_def register_hook_def instant_plus_def Instant_checked_add_def
    instant_max_def nanos_per_sec_def checked_duration_since_def
  have start: "coordinator_start 10 ?w0"
    by (simp add: coordinator_start_def)
  have "?step ?w0 ?w1"
    using coordinator_step.registers [of _ _ ?w0 ?h] by simp
  moreover have "?step ?w1 ?w2"
    using coordinator_step.marks [of ?w1 0 _ _ 1 2] by simp
  moreover have "?step ?w2 ?w3"
    using coordinator_step.announces [of ?w2 0 1 2 12] by simp
  moreover have "?step ?w3 ?w4"
    using coordinator_step.signals [of ?w3 0 1 12] by simp
  moreover have "?step ?w4 ?w5"
    using coordinator_step.takes_hooks [of ?w4 0 1 12] by simp
  moreover have "?step ?w5 ?w6"
    using coordinator_step.runs_hook [of ?w5 0 1 12 ?h "[]" "[]" "[]" _ _ 3 "[''flush'']" "[]"] by simp
  moreover have "?step ?w6 ?w7"
    using coordinator_step.registers [of _ _ ?w6 ?late] by simp
  ultimately have run: "?step\<^sup>*\<^sup>* ?w0 ?w7"
    by (meson converse_rtranclp_into_rtranclp rtranclp.rtrancl_refl)
  have "length (filter is_completed (cw_log ?w7)) \<le> 1"
    using concurrent_shutdowns_run_hooks_once [OF start run] by blast
  moreover have "cw_registered ?w7 = [?h, ?late]" "cw_ran ?w7 = [?h]"
    by simp_all
  ultimately show ?thesis
    using start run by blast
qed

end
