(* ===== verification/Shutdown_Latch.thy ===== *)
theory Shutdown_Latch
  imports Primitives
begin

text \<open>
  src/kernel/handles.rs: the shutdown latch. \<open>ShutdownInner\<close> is a flag, a mutex that guards
  nothing and a condition variable. The first section is the flag as the rest of the kernel uses
  it. The second is the protocol: any number of threads that signal or wait, one atomic action at
  a time, where the code between two actions of a thread is its program counter. \<open>notify_all\<close>
  wakes the threads that sleep at that moment and no others; a sleeping thread may also wake by
  itself, and with a deadline it may time out.
\<close>

section \<open>The flag\<close>

record ShutdownInner =
  si_signalled :: bool

definition ShutdownInner_new :: ShutdownInner where
  "ShutdownInner_new = \<lparr>si_signalled = False\<rparr>"

definition ShutdownHandle_signal :: "ShutdownInner \<Rightarrow> ShutdownInner" where
  "ShutdownHandle_signal i = i\<lparr>si_signalled := True\<rparr>"

definition ShutdownHandle_is_signalled :: "ShutdownInner \<Rightarrow> bool" where
  "ShutdownHandle_is_signalled i = si_signalled i"

text \<open>The deadline \<open>wait_timeout\<close> computes first; the sum panics when it does not fit.\<close>

definition wait_timeout_deadline :: "instant \<Rightarrow> duration \<Rightarrow> instant option" where
  "wait_timeout_deadline now timeout = instant_plus now timeout"

interpretation shutdown_flag: latch ShutdownHandle_signal ShutdownHandle_is_signalled
  by unfold_locales (simp_all add: ShutdownHandle_signal_def ShutdownHandle_is_signalled_def)

section \<open>Signalling and waiting\<close>

text \<open>
  A waiter carries its deadline: \<open>None\<close> in \<open>wait_for_signal\<close>, \<open>Some\<close> in
  \<open>wait_for_signal_until\<close>. \<open>Waking d to\<close> is a thread that has left the sleep and must take the
  mutex again, \<open>to\<close> telling whether it timed out; \<open>Rechecking\<close> is the same thread with the mutex.
  The result of a wait is whether the signal was seen.
\<close>

datatype latch_pc =
    SignalStart | SignalLocked | SignalStored | SignalNotify | SignalDone
  | WaitStart "instant option" | Checking "instant option" | Deciding "instant option"
  | Sleeping "instant option" | Waking "instant option" bool | Rechecking "instant option" bool
  | WaitDone "instant option" bool

record latch_state =
  ls_inner :: ShutdownInner
  ls_parker :: "nat option"
  ls_pc :: "nat \<Rightarrow> latch_pc"

fun notified :: "latch_pc \<Rightarrow> latch_pc" where
  "notified (Sleeping d) = Waking d False"
| "notified pc = pc"

abbreviation goto :: "nat \<Rightarrow> latch_pc \<Rightarrow> latch_state \<Rightarrow> latch_state" where
  "goto t pc s \<equiv> s\<lparr>ls_pc := (ls_pc s)(t := pc)\<rparr>"

abbreviation acquire :: "nat \<Rightarrow> latch_state \<Rightarrow> latch_state" where
  "acquire t s \<equiv> s\<lparr>ls_parker := Some t\<rparr>"

abbreviation release :: "latch_state \<Rightarrow> latch_state" where
  "release s \<equiv> s\<lparr>ls_parker := None\<rparr>"

abbreviation signalled :: "latch_state \<Rightarrow> bool" where
  "signalled s \<equiv> ShutdownHandle_is_signalled (ls_inner s)"

inductive latch_step :: "latch_state \<Rightarrow> latch_state \<Rightarrow> bool" where
  signal_lock: "ls_pc s t = SignalStart \<Longrightarrow> ls_parker s = None \<Longrightarrow>
    latch_step s (goto t SignalLocked (acquire t s))"
| signal_store: "ls_pc s t = SignalLocked \<Longrightarrow>
    latch_step s (goto t SignalStored (s\<lparr>ls_inner := ShutdownHandle_signal (ls_inner s)\<rparr>))"
| signal_unlock: "ls_pc s t = SignalStored \<Longrightarrow>
    latch_step s (goto t SignalNotify (release s))"
| signal_notify: "ls_pc s t = SignalNotify \<Longrightarrow>
    latch_step s (goto t SignalDone (s\<lparr>ls_pc := notified \<circ> ls_pc s\<rparr>))"
| wait_lock: "ls_pc s t = WaitStart d \<Longrightarrow> ls_parker s = None \<Longrightarrow>
    latch_step s (goto t (Checking d) (acquire t s))"
| check_signalled: "ls_pc s t = Checking d \<Longrightarrow> signalled s \<Longrightarrow>
    latch_step s (goto t (WaitDone d True) (release s))"
| check_not_signalled: "ls_pc s t = Checking d \<Longrightarrow> \<not> signalled s \<Longrightarrow>
    latch_step s (goto t (Deciding d) s)"
| deadline_passed: "ls_pc s t = Deciding (Some dl) \<Longrightarrow> dl \<le> now \<Longrightarrow>
    latch_step s (goto t (WaitDone (Some dl) False) (release s))"
| sleep: "ls_pc s t = Deciding d \<Longrightarrow> (case d of Some dl \<Rightarrow> now < dl | None \<Rightarrow> True) \<Longrightarrow>
    latch_step s (goto t (Sleeping d) (release s))"
| spurious_wake: "ls_pc s t = Sleeping d \<Longrightarrow> latch_step s (goto t (Waking d False) s)"
| time_out: "ls_pc s t = Sleeping (Some dl) \<Longrightarrow> latch_step s (goto t (Waking (Some dl) True) s)"
| wake_lock: "ls_pc s t = Waking d to \<Longrightarrow> ls_parker s = None \<Longrightarrow>
    latch_step s (goto t (Rechecking d to) (acquire t s))"
| recheck_timed_out: "ls_pc s t = Rechecking d True \<Longrightarrow> \<not> signalled s \<Longrightarrow>
    latch_step s (goto t (WaitDone d False) (release s))"
| recheck_loop: "ls_pc s t = Rechecking d to \<Longrightarrow> \<not> (to \<and> \<not> signalled s) \<Longrightarrow>
    latch_step s (goto t (Checking d) s)"

inductive_cases latch_stepE: "latch_step s s'"

text \<open>Before anything happened: every thread is about to signal or about to wait.\<close>

definition latch_start :: "latch_state \<Rightarrow> bool" where
  "latch_start s \<longleftrightarrow> \<not> signalled s \<and> ls_parker s = None \<and>
     (\<forall>t. ls_pc s t = SignalStart \<or> (\<exists>d. ls_pc s t = WaitStart d))"

section \<open>The invariant of the protocol\<close>

text \<open>The actions a thread takes with the mutex held.\<close>

fun holds_parker :: "latch_pc \<Rightarrow> bool" where
  "holds_parker SignalLocked = True"
| "holds_parker SignalStored = True"
| "holds_parker (Checking d) = True"
| "holds_parker (Deciding d) = True"
| "holds_parker (Rechecking d to) = True"
| "holds_parker pc = False"

fun has_stored :: "latch_pc \<Rightarrow> bool" where
  "has_stored SignalStored = True"
| "has_stored SignalNotify = True"
| "has_stored SignalDone = True"
| "has_stored (WaitDone d b) = b"
| "has_stored pc = False"

definition parker_owned :: "latch_state \<Rightarrow> bool" where
  "parker_owned s \<longleftrightarrow> (\<forall>t. holds_parker (ls_pc s t) \<longleftrightarrow> ls_parker s = Some t)"

definition stores_seen :: "latch_state \<Rightarrow> bool" where
  "stores_seen s \<longleftrightarrow> (\<forall>t. has_stored (ls_pc s t) \<longrightarrow> signalled s)"

definition deciding_unsignalled :: "latch_state \<Rightarrow> bool" where
  "deciding_unsignalled s \<longleftrightarrow> (\<forall>t d. ls_pc s t = Deciding d \<longrightarrow> \<not> signalled s)"

definition sleeper_will_wake :: "latch_state \<Rightarrow> bool" where
  "sleeper_will_wake s \<longleftrightarrow> (\<forall>t d. ls_pc s t = Sleeping d \<longrightarrow> signalled s \<longrightarrow>
     (\<exists>u. ls_pc s u = SignalStored \<or> ls_pc s u = SignalNotify))"

definition none_sleeps_after_signal :: "latch_state \<Rightarrow> bool" where
  "none_sleeps_after_signal s \<longleftrightarrow> (\<forall>t d u. ls_pc s t = Sleeping d \<longrightarrow> ls_pc s u \<noteq> SignalDone)"

text \<open>What a thread without a deadline never does.\<close>

fun timed_out_untimed :: "latch_pc \<Rightarrow> bool" where
  "timed_out_untimed (Waking None to) = to"
| "timed_out_untimed (Rechecking None to) = to"
| "timed_out_untimed (WaitDone None b) = (\<not> b)"
| "timed_out_untimed pc = False"

definition untimed_waits :: "latch_state \<Rightarrow> bool" where
  "untimed_waits s \<longleftrightarrow> (\<forall>t. \<not> timed_out_untimed (ls_pc s t))"

definition latch_inv :: "latch_state \<Rightarrow> bool" where
  "latch_inv s \<longleftrightarrow> parker_owned s \<and> stores_seen s \<and> deciding_unsignalled s \<and>
     sleeper_will_wake s \<and> none_sleeps_after_signal s \<and> untimed_waits s"

lemma holds_notified [simp]: "holds_parker (notified pc) = holds_parker pc"
  by (cases pc) simp_all

lemma stored_notified [simp]: "has_stored (notified pc) = has_stored pc"
  by (cases pc) simp_all

lemma notified_sleeps [simp]: "notified pc \<noteq> Sleeping d"
  by (cases pc) simp_all

lemma notified_deciding [simp]: "notified pc = Deciding d \<longleftrightarrow> pc = Deciding d"
  by (cases pc) simp_all

lemma signalled_signal [simp]: "ShutdownHandle_is_signalled (ShutdownHandle_signal i)"
  by (rule shutdown_flag.raise_raises)

lemma latch_inv_start: "latch_start s \<Longrightarrow> latch_inv s"
proof -
  assume start: "latch_start s"
  then have pc: "ls_pc s t = SignalStart \<or> (\<exists>d. ls_pc s t = WaitStart d)" for t
    by (simp add: latch_start_def)
  have "\<not> holds_parker (ls_pc s t)" "\<not> has_stored (ls_pc s t)" "ls_pc s t \<noteq> Deciding d"
    "ls_pc s t \<noteq> Sleeping d" "\<not> timed_out_untimed (ls_pc s t)" for t d
    using pc [of t] by auto
  with start show ?thesis
    by (simp add: latch_start_def latch_inv_def parker_owned_def stores_seen_def
        deciding_unsignalled_def sleeper_will_wake_def none_sleeps_after_signal_def untimed_waits_def)
qed

lemma parker_owned_step:
  assumes "parker_owned s" and "latch_step s s'"
  shows "parker_owned s'"
proof -
  have own: "ls_pc s u = pc \<Longrightarrow> holds_parker pc \<longleftrightarrow> ls_parker s = Some u" for u pc
    using assms(1) by (auto simp: parker_owned_def)
  have "holds_parker (ls_pc s' u) \<longleftrightarrow> ls_parker s' = Some u" for u
    using assms(2)
    by (rule latch_step.cases) (use own [OF refl, of u] in \<open>auto dest!: own split: if_splits\<close>)
  then show ?thesis
    by (simp add: parker_owned_def)
qed

lemma stores_seen_step:
  assumes "stores_seen s" and "latch_step s s'"
  shows "stores_seen s'"
proof -
  have seen: "ls_pc s u = pc \<Longrightarrow> has_stored pc \<Longrightarrow> signalled s" for u pc
    using assms(1) by (auto simp: stores_seen_def)
  have "has_stored (ls_pc s' u) \<longrightarrow> signalled s'" for u
    using assms(2)
    by (rule latch_step.cases) (use seen [OF refl, of u] in \<open>auto dest!: seen split: if_splits\<close>)
  then show ?thesis
    by (simp add: stores_seen_def)
qed

lemma held_alone:
  "parker_owned s \<Longrightarrow> holds_parker (ls_pc s t) \<Longrightarrow> holds_parker (ls_pc s u) \<Longrightarrow> u = t"
  by (auto simp: parker_owned_def)

lemma deciding_unsignalled_step:
  assumes "deciding_unsignalled s" and "parker_owned s" and "latch_step s s'"
  shows "deciding_unsignalled s'"
proof -
  have dec: "ls_pc s u = Deciding d \<Longrightarrow> \<not> signalled s" for u d
    using assms(1) by (auto simp: deciding_unsignalled_def)
  have alone: "ls_pc s t = SignalLocked \<Longrightarrow> ls_pc s u \<noteq> Deciding d" for t u d
    using held_alone [OF assms(2), of t u] by auto
  have "ls_pc s' u = Deciding d \<longrightarrow> \<not> signalled s'" for u d
    using assms(3)
    by (rule latch_step.cases) (auto dest: dec alone split: if_splits)
  then show ?thesis
    by (simp add: deciding_unsignalled_def)
qed

lemma untimed_notified [simp]: "timed_out_untimed (notified pc) = timed_out_untimed pc"
proof (cases pc)
  case (Sleeping d)
  then show ?thesis
    by (cases d) simp_all
qed simp_all

lemma untimed_waits_step:
  assumes "untimed_waits s" and "latch_step s s'"
  shows "untimed_waits s'"
proof -
  have un: "\<not> timed_out_untimed (ls_pc s u)" for u
    using assms(1) by (simp add: untimed_waits_def)
  have pc: "ls_pc s u = Waking None True \<Longrightarrow> False" "ls_pc s u = Rechecking None True \<Longrightarrow> False" for u
    using un [of u] by auto
  have "\<not> timed_out_untimed (ls_pc s' u)" for u
    using assms(2)
  proof cases
    case (wake_lock t d to)
    then show ?thesis
      using un [of u] pc [of t] by (cases d; cases to) auto
  next
    case (recheck_timed_out t d)
    then show ?thesis
      using un [of u] pc [of t] by (cases d) auto
  next
    case (spurious_wake t d)
    then show ?thesis
      using un [of u] by (cases d) auto
  next
    case (check_signalled t d)
    then show ?thesis
      using un [of u] by (cases d) auto
  qed (use un [of u] in auto)
  then show ?thesis
    by (simp add: untimed_waits_def)
qed

lemma none_sleeps_after_signal_step:
  assumes "none_sleeps_after_signal s" and "stores_seen s" and "deciding_unsignalled s"
    and "latch_step s s'"
  shows "none_sleeps_after_signal s'"
proof -
  have none: "ls_pc s t = SignalDone \<Longrightarrow> ls_pc s u \<noteq> Sleeping d" for t u d
    using assms(1) by (auto simp: none_sleeps_after_signal_def)
  have dec: "ls_pc s t = SignalDone \<Longrightarrow> ls_pc s u \<noteq> Deciding d" for t u d
    using assms(2,3) unfolding stores_seen_def deciding_unsignalled_def by (metis has_stored.simps(3))
  have "ls_pc s' u = Sleeping d \<longrightarrow> ls_pc s' t \<noteq> SignalDone" for u t d
    using assms(4)
    by (rule latch_step.cases) (auto dest: none dec split: if_splits)
  then show ?thesis
    by (simp add: none_sleeps_after_signal_def)
qed

lemma sleeper_will_wake_step:
  assumes "sleeper_will_wake s" and "deciding_unsignalled s" and "latch_step s s'"
  shows "sleeper_will_wake s'"
proof -
  let ?waker = "\<lambda>s v. ls_pc s v = SignalStored \<or> ls_pc s v = SignalNotify"
  have wake: "\<exists>v. ?waker s v" if "ls_pc s u = Sleeping d" "signalled s" for u d
    using assms(1) that by (auto simp: sleeper_will_wake_def)
  have dec: "ls_pc s u = Deciding d \<Longrightarrow> \<not> signalled s" for u d
    using assms(2) by (auto simp: deciding_unsignalled_def)
  have "\<exists>v. ?waker s' v" if sl: "ls_pc s' u = Sleeping d" and sg: "signalled s'" for u d
  proof (cases "ls_pc s u = Sleeping d \<and> signalled s")
    case True
    then obtain v where v: "?waker s v"
      using wake by blast
    have "?waker s' v"
      using assms(3) v sl True by (cases rule: latch_step.cases) (auto split: if_splits)
    then show ?thesis ..
  next
    case False
    show ?thesis
      using assms(3) False sl sg dec by (cases rule: latch_step.cases) (auto split: if_splits)
  qed
  then show ?thesis
    by (auto simp: sleeper_will_wake_def)
qed

interpretation latch_protocol: invariant_system latch_start latch_step latch_inv
proof
  show "latch_start s \<Longrightarrow> latch_inv s" for s
    by (rule latch_inv_start)
  show "latch_inv s \<Longrightarrow> latch_step s t \<Longrightarrow> latch_inv t" for s t
    unfolding latch_inv_def
    using parker_owned_step stores_seen_step deciding_unsignalled_step
      none_sleeps_after_signal_step sleeper_will_wake_step untimed_waits_step by blast
qed

interpretation latch_never_lowered: latch_system
  "\<lambda>s. s\<lparr>ls_inner := ShutdownHandle_signal (ls_inner s)\<rparr>" signalled latch_step
proof
  show "signalled (s\<lparr>ls_inner := ShutdownHandle_signal (ls_inner s)\<rparr>)" for s :: latch_state
    by simp
  show "signalled s \<Longrightarrow> s\<lparr>ls_inner := ShutdownHandle_signal (ls_inner s)\<rparr> = s" for s :: latch_state
    by (simp add: shutdown_flag.raise_again)
  show "signalled s \<Longrightarrow> latch_step s t \<Longrightarrow> signalled t" for s t
    by (erule latch_step.cases) simp_all
qed

section \<open>No wake-up is lost\<close>

text \<open>
  C22: However many threads signal and wait, and however their actions interleave: once one call of
  \<open>signal\<close> has returned the flag is up for good and no thread sleeps; and a wait without a
  deadline returns only after the flag went up, never because of a time-out.
\<close>

theorem no_wakeup_is_lost:
  assumes "latch_start s0" and "latch_step\<^sup>*\<^sup>* s0 s"
  shows "(ls_pc s u = SignalDone \<longrightarrow> signalled s \<and> ls_pc s t \<noteq> Sleeping d) \<and>
    (ls_pc s t = WaitDone None b \<longrightarrow> b \<and> signalled s) \<and>
    (signalled s \<longrightarrow> latch_step\<^sup>*\<^sup>* s s' \<longrightarrow> signalled s')"
proof -
  have inv: "latch_inv s"
    using assms by (rule latch_protocol.inv_reachable)
  have seen: "has_stored (ls_pc s v) \<Longrightarrow> signalled s" for v
    using inv by (auto simp: latch_inv_def stores_seen_def)
  have "b" if "ls_pc s t = WaitDone None b"
  proof -
    have "\<not> timed_out_untimed (ls_pc s t)"
      using inv by (simp add: latch_inv_def untimed_waits_def)
    with that show ?thesis
      by simp
  qed
  moreover have "ls_pc s u = SignalDone \<longrightarrow> ls_pc s t \<noteq> Sleeping d"
    using inv by (auto simp: latch_inv_def none_sleeps_after_signal_def)
  ultimately show ?thesis
    using seen [of u] seen [of t] latch_never_lowered.raised_forever [of s s'] by auto
qed

text \<open>A run: thread 1 falls asleep, thread 0 signals and wakes it.\<close>

definition demo_start :: latch_state where
  "demo_start = \<lparr>ls_inner = ShutdownInner_new, ls_parker = None,
     ls_pc = (\<lambda>t. if t = 0 then SignalStart else WaitStart None)\<rparr>"

lemma demo_run:
  "latch_start demo_start \<and>
   (\<exists>s. latch_step\<^sup>*\<^sup>* demo_start s \<and> ls_pc s 0 = SignalDone \<and> ls_pc s 1 = Waking None False)"
proof -
  let ?s0 = demo_start
  let ?s1 = "goto 1 (Checking None) (acquire 1 ?s0)"
  let ?s2 = "goto 1 (Deciding None) ?s1"
  let ?s3 = "goto 1 (Sleeping None) (release ?s2)"
  let ?s4 = "goto 0 SignalLocked (acquire 0 ?s3)"
  let ?s5 = "goto 0 SignalStored (?s4\<lparr>ls_inner := ShutdownHandle_signal (ls_inner ?s4)\<rparr>)"
  let ?s6 = "goto 0 SignalNotify (release ?s5)"
  let ?s7 = "goto 0 SignalDone (?s6\<lparr>ls_pc := notified \<circ> ls_pc ?s6\<rparr>)"
  have start: "latch_start ?s0"
    by (simp add: latch_start_def demo_start_def ShutdownInner_new_def ShutdownHandle_is_signalled_def)
  have "latch_step ?s0 ?s1"
    by (rule latch_step.wait_lock) (simp_all add: demo_start_def)
  moreover have "latch_step ?s1 ?s2"
    by (rule latch_step.check_not_signalled)
      (simp_all add: demo_start_def ShutdownInner_new_def ShutdownHandle_is_signalled_def)
  moreover have "latch_step ?s2 ?s3"
    by (rule latch_step.sleep) simp_all
  moreover have "latch_step ?s3 ?s4"
    by (rule latch_step.signal_lock) (simp_all add: demo_start_def)
  moreover have "latch_step ?s4 ?s5"
    by (rule latch_step.signal_store) simp
  moreover have "latch_step ?s5 ?s6"
    by (rule latch_step.signal_unlock) simp
  moreover have "latch_step ?s6 ?s7"
    by (rule latch_step.signal_notify) simp
  ultimately have "latch_step\<^sup>*\<^sup>* ?s0 ?s7"
    by (meson converse_rtranclp_into_rtranclp rtranclp.rtrancl_refl)
  moreover have "ls_pc ?s7 0 = SignalDone" "ls_pc ?s7 1 = Waking None False"
    by simp_all
  ultimately show ?thesis
    using start by blast
qed

theorem no_wakeup_is_lost_witness:
  "\<exists>s. latch_step\<^sup>*\<^sup>* demo_start s \<and> ls_pc s 0 = SignalDone \<and> signalled s \<and> ls_pc s 1 \<noteq> Sleeping None"
proof -
  obtain s where s: "latch_start demo_start" "latch_step\<^sup>*\<^sup>* demo_start s" "ls_pc s 0 = SignalDone"
    using demo_run by blast
  then show ?thesis
    using no_wakeup_is_lost [OF s(1,2), of 0 1 None] by blast
qed

text \<open>A thread that has the mutex gives it back, and a waiter with the mutex returns.\<close>

lemma checking_returns:
  "ls_pc s t = Checking d \<Longrightarrow> signalled s \<Longrightarrow>
   latch_step\<^sup>*\<^sup>* s (goto t (WaitDone d True) (release s))"
  by (blast intro: latch_step.check_signalled)

lemma rechecking_returns:
  assumes "ls_pc s t = Rechecking d to" and "signalled s"
  shows "latch_step\<^sup>*\<^sup>* s (goto t (WaitDone d True) (release s))"
proof -
  have "latch_step s (goto t (Checking d) s)"
    using assms by (intro latch_step.recheck_loop) auto
  moreover have "latch_step\<^sup>*\<^sup>* (goto t (Checking d) s)
      (goto t (WaitDone d True) (release (goto t (Checking d) s)))"
    using assms(2) by (intro checking_returns) simp_all
  ultimately show ?thesis
    by (simp add: converse_rtranclp_into_rtranclp)
qed

lemma signaller_releases:
  assumes "ls_pc s v = SignalLocked \<or> ls_pc s v = SignalStored"
  shows "\<exists>s'. latch_step\<^sup>*\<^sup>* s s' \<and> ls_parker s' = None \<and> (\<forall>t. t \<noteq> v \<longrightarrow> ls_pc s' t = ls_pc s t)"
proof -
  have stored: "\<exists>s'. latch_step\<^sup>*\<^sup>* s s' \<and> ls_parker s' = None \<and> (\<forall>t. t \<noteq> v \<longrightarrow> ls_pc s' t = ls_pc s t)"
    if "ls_pc s v = SignalStored" for s
    using latch_step.signal_unlock [OF that]
    by (intro exI [of _ "goto v SignalNotify (release s)"]) auto
  show ?thesis
  proof (cases "ls_pc s v = SignalStored")
    case False
    let ?s = "goto v SignalStored (s\<lparr>ls_inner := ShutdownHandle_signal (ls_inner s)\<rparr>)"
    have "latch_step s ?s"
      using False assms by (intro latch_step.signal_store) simp
    moreover obtain s' where "latch_step\<^sup>*\<^sup>* ?s s'" "ls_parker s' = None"
        "\<forall>t. t \<noteq> v \<longrightarrow> ls_pc s' t = ls_pc ?s t"
      using stored [of ?s] by auto
    ultimately show ?thesis
      by (intro exI [of _ s']) (auto intro: converse_rtranclp_into_rtranclp)
  qed (rule stored)
qed

lemma mutex_comes_free:
  assumes inv: "latch_inv s" and sig: "signalled s"
  shows "\<exists>s'. latch_step\<^sup>*\<^sup>* s s' \<and> ls_parker s' = None \<and>
    (\<forall>t. ls_parker s \<noteq> Some t \<longrightarrow> ls_pc s' t = ls_pc s t)"
proof (cases "ls_parker s")
  case None
  then show ?thesis
    by blast
next
  case (Some v)
  then have "holds_parker (ls_pc s v)"
    using inv by (simp add: latch_inv_def parker_owned_def)
  then consider (signaller) "ls_pc s v = SignalLocked \<or> ls_pc s v = SignalStored"
    | (checks) d where "ls_pc s v = Checking d" | (decides) d where "ls_pc s v = Deciding d"
    | (rechecks) d to where "ls_pc s v = Rechecking d to"
    by (cases "ls_pc s v") auto
  then show ?thesis
  proof cases
    case signaller
    then show ?thesis
      using signaller_releases [of s v] Some by auto
  next
    case checks
    then show ?thesis
      using checking_returns [OF checks sig] Some
      by (intro exI [of _ "goto v (WaitDone d True) (release s)"]) auto
  next
    case decides
    then show ?thesis
      using inv sig by (auto simp: latch_inv_def deciding_unsignalled_def)
  next
    case rechecks
    then show ?thesis
      using rechecking_returns [OF rechecks sig] Some
      by (intro exI [of _ "goto v (WaitDone d True) (release s)"]) auto
  qed
qed

fun is_waiting :: "latch_pc \<Rightarrow> bool" where
  "is_waiting (WaitStart d) = True"
| "is_waiting (Checking d) = True"
| "is_waiting (Deciding d) = True"
| "is_waiting (Sleeping d) = True"
| "is_waiting (Waking d to) = True"
| "is_waiting (Rechecking d to) = True"
| "is_waiting pc = False"

lemma unlocked_waiter_returns:
  assumes "ls_parker s = None" and "signalled s"
    and "ls_pc s t = WaitStart d \<or> ls_pc s t = Waking d to"
  shows "\<exists>s'. latch_step\<^sup>*\<^sup>* s s' \<and> ls_pc s' t = WaitDone d True"
  using assms(3)
proof
  assume pc: "ls_pc s t = WaitStart d"
  let ?s = "goto t (Checking d) (acquire t s)"
  have "latch_step s ?s"
    using pc assms(1) by (rule latch_step.wait_lock)
  moreover have "latch_step\<^sup>*\<^sup>* ?s (goto t (WaitDone d True) (release ?s))"
    using assms(2) by (intro checking_returns) simp_all
  ultimately show ?thesis
    by (intro exI [of _ "goto t (WaitDone d True) (release ?s)"]) (auto intro: converse_rtranclp_into_rtranclp)
next
  assume pc: "ls_pc s t = Waking d to"
  let ?s = "goto t (Rechecking d to) (acquire t s)"
  have "latch_step s ?s"
    using pc assms(1) by (rule latch_step.wake_lock)
  moreover have "latch_step\<^sup>*\<^sup>* ?s (goto t (WaitDone d True) (release ?s))"
    using assms(2) by (intro rechecking_returns [where to = to]) simp_all
  ultimately show ?thesis
    by (intro exI [of _ "goto t (WaitDone d True) (release ?s)"]) (auto intro: converse_rtranclp_into_rtranclp)
qed

text \<open>
  C23: Once a call of \<open>signal\<close> has returned, every thread that is anywhere inside a wait can
  run to the end of it and report the signal, whoever holds the mutex now: no state of the
  protocol leaves a waiter stuck.
\<close>

theorem every_waiter_returns:
  assumes "latch_start s0" and "latch_step\<^sup>*\<^sup>* s0 s"
    and "ls_pc s u = SignalDone" and "is_waiting (ls_pc s t)"
  shows "\<exists>s' d. latch_step\<^sup>*\<^sup>* s s' \<and> ls_pc s' t = WaitDone d True"
proof -
  have inv: "latch_inv s"
    using assms(1,2) by (rule latch_protocol.inv_reachable)
  then have sig: "signalled s"
    using assms(3) unfolding latch_inv_def stores_seen_def by (metis has_stored.simps(3))
  have awake: "ls_pc s t \<noteq> Sleeping d" "ls_pc s t \<noteq> Deciding d" for d
    using inv assms(3) sig
    by (auto simp: latch_inv_def none_sleeps_after_signal_def deciding_unsignalled_def)
  show ?thesis
  proof (cases "ls_parker s = Some t")
    case True
    then have "holds_parker (ls_pc s t)"
      using inv by (simp add: latch_inv_def parker_owned_def)
    then obtain d to where "ls_pc s t = Checking d \<or> ls_pc s t = Rechecking d to"
      using assms(4) awake by (cases "ls_pc s t") auto
    then have "latch_step\<^sup>*\<^sup>* s (goto t (WaitDone d True) (release s))"
      using checking_returns rechecking_returns sig by blast
    then show ?thesis
      by (intro exI [of _ "goto t (WaitDone d True) (release s)"]) auto
  next
    case False
    then have "\<not> holds_parker (ls_pc s t)"
      using inv by (simp add: latch_inv_def parker_owned_def)
    then obtain d to where pc: "ls_pc s t = WaitStart d \<or> ls_pc s t = Waking d to"
      using assms(4) awake by (cases "ls_pc s t") auto
    obtain s' where s': "latch_step\<^sup>*\<^sup>* s s'" "ls_parker s' = None" "ls_pc s' t = ls_pc s t"
      using mutex_comes_free [OF inv sig] False by blast
    then show ?thesis
      using unlocked_waiter_returns [of s' t d to] pc latch_never_lowered.raised_forever [OF s'(1) sig]
      by (metis rtranclp_trans)
  qed
qed

theorem every_waiter_returns_witness:
  "\<exists>s s' d. latch_step\<^sup>*\<^sup>* demo_start s \<and> ls_pc s 1 = Waking None False \<and>
    latch_step\<^sup>*\<^sup>* s s' \<and> ls_pc s' 1 = WaitDone d True"
proof -
  obtain s where s: "latch_start demo_start" "latch_step\<^sup>*\<^sup>* demo_start s" "ls_pc s 0 = SignalDone"
      "ls_pc s 1 = Waking None False"
    using demo_run by blast
  then show ?thesis
    using every_waiter_returns [OF s(1-3), of 1] by auto
qed

end
