(* ===== verification/Health_Concurrent.thy ===== *)
theory Health_Concurrent
  imports Health_Registry "HOL-Library.Multiset"
begin

text \<open>
  \<open>HealthInner::report\<close> of src/health/registry.rs under concurrent calls, from the load of the aggregate to the last event:
  the load, the locked section and each event that is emitted after it are one step each. What the calls have committed is
  kept as a history, and what they owe is recomputed from it.
\<close>

section \<open>Steps\<close>

text \<open>A call that has loaded the aggregate, and one that has left the lock and still has events to emit.\<close>

datatype health_call = Loaded string HealthStatus HealthStatus | Announcing "effect list"

text \<open>Name, previous status, new status, aggregate as loaded, aggregate as decided, and time of a locked section.\<close>

type_synonym commits = "(string \<times> HealthStatus option \<times> HealthStatus \<times> HealthStatus \<times> HealthStatus \<times> instant) list"

text \<open>\<open>hw_stale\<close>: some locked section ran with an aggregate that was no longer the one in the cell.\<close>

record health_world =
  hw_registry :: HealthRegistry
  hw_calls :: "health_call list"
  hw_commits :: commits
  hw_stale :: bool
  hw_log :: "effect list"

inductive health_step :: "health_world \<Rightarrow> health_world \<Rightarrow> bool" where
  report_loads: "health_step w (w\<lparr>hw_calls := hw_calls w @ [Loaded k s (hr_load (hw_registry w))]\<rparr>)"
| report_commits: "hw_calls w = xs @ Loaded k s a # ys \<Longrightarrow> report_commit a k s now (hw_registry w) = (r, fx) \<Longrightarrow>
    prev = hr_subsystem k (hw_registry w) \<Longrightarrow> new = next_aggregate a prev s (hr_subsystems r) \<Longrightarrow>
    health_step w (w\<lparr>hw_registry := r, hw_calls := xs @ Announcing fx # ys,
      hw_commits := hw_commits w @ [(k, prev, s, a, new, now)], hw_stale := hw_stale w \<or> a \<noteq> hr_load (hw_registry w)\<rparr>)"
| report_emits: "hw_calls w = xs @ Announcing (e # fx) # ys \<Longrightarrow>
    health_step w (w\<lparr>hw_calls := xs @ Announcing fx # ys, hw_log := hw_log w @ [e]\<rparr>)"
| report_returns: "hw_calls w = xs @ Announcing [] # ys \<Longrightarrow> health_step w (w\<lparr>hw_calls := xs @ ys\<rparr>)"

definition health_start :: "bool \<Rightarrow> health_world \<Rightarrow> bool" where
  "health_start events w \<longleftrightarrow>
     w = \<lparr>hw_registry = HealthInner_new events, hw_calls = [], hw_commits = [], hw_stale = False, hw_log = []\<rparr>"

section \<open>What the history says\<close>

text \<open>The status of a name, and whether every commit found the one that the commit before it left.\<close>

fun replay :: "(string \<Rightarrow> HealthStatus option) \<Rightarrow> commits \<Rightarrow> string \<Rightarrow> HealthStatus option" where
  "replay m [] = m"
| "replay m ((k, _, s, _) # cs) = replay (m(k \<mapsto> s)) cs"

abbreviation committed :: "commits \<Rightarrow> string \<Rightarrow> HealthStatus option" where
  "committed \<equiv> replay Map.empty"

fun chained :: "(string \<Rightarrow> HealthStatus option) \<Rightarrow> commits \<Rightarrow> bool" where
  "chained m [] \<longleftrightarrow> True"
| "chained m ((k, prev, s, _) # cs) \<longleftrightarrow> prev = m k \<and> chained (m(k \<mapsto> s)) cs"

definition announcements :: "bool \<Rightarrow> commits \<Rightarrow> effect list" where
  "announcements events cs = concat (map (\<lambda>(k, prev, s, a, new, now).
     if events \<and> prev \<noteq> Some s then report_effects k prev s a new now else []) cs)"

fun owed_events :: "health_call \<Rightarrow> effect list" where
  "owed_events (Loaded _ _ _) = []"
| "owed_events (Announcing fx) = fx"

lemma replay_snoc [simp]: "replay m (cs @ [(k, p, s, q)]) = (replay m cs)(k \<mapsto> s)"
proof (induction cs arbitrary: m)
  case (Cons c cs)
  then show ?case
    by (cases c) (simp del: fun_upd_apply)
qed simp

lemma chained_snoc: "chained m (cs @ [(k, p, s, q)]) \<longleftrightarrow> chained m cs \<and> p = replay m cs k"
proof (induction cs arbitrary: m)
  case (Cons c cs)
  then show ?case
    by (cases c) (auto simp del: fun_upd_apply)
qed simp

lemma announcements_snoc [simp]:
  "announcements e (cs @ [(k, prev, s, a, new, now)]) =
     announcements e cs @ (if e \<and> prev \<noteq> Some s then report_effects k prev s a new now else [])"
  by (simp add: announcements_def)

section \<open>Invariant\<close>

definition reported :: "commits \<Rightarrow> HealthStatus set" where
  "reported cs = insert H_Healthy ((\<lambda>(_, _, s, _). s) ` set cs)"

fun call_ok :: "HealthStatus set \<Rightarrow> health_call \<Rightarrow> bool" where
  "call_ok S (Loaded _ _ a) \<longleftrightarrow> a \<in> S"
| "call_ok S (Announcing _) \<longleftrightarrow> True"

definition concurrent_inv :: "bool \<Rightarrow> health_world \<Rightarrow> bool" where
  "concurrent_inv events w \<longleftrightarrow>
     hr_events (hw_registry w) = events \<and> distinct (keys (hr_subsystems (hw_registry w))) \<and>
     map_of (hr_subsystems (hw_registry w)) = committed (hw_commits w) \<and> chained Map.empty (hw_commits w) \<and>
     mset (hw_log w) + mset (concat (map owed_events (hw_calls w))) = mset (announcements events (hw_commits w)) \<and>
     ran (committed (hw_commits w)) \<subseteq> reported (hw_commits w) \<and> hr_load (hw_registry w) \<in> reported (hw_commits w) \<and>
     (\<forall>c \<in> set (hw_calls w). call_ok (reported (hw_commits w)) c) \<and>
     (\<not> hw_stale w \<longrightarrow> hr_load (hw_registry w) = worst (vals (hr_subsystems (hw_registry w))))"

lemma reported_snoc [simp]: "reported (cs @ [(k, p, s, q)]) = insert s (reported cs)"
  by (auto simp: reported_def)

lemma call_ok_mono: "call_ok S c \<Longrightarrow> call_ok (insert s S) c"
  by (cases c) simp_all

lemma report_commit_fields:
  assumes "report_commit a k s now r = (r', fx)"
  shows "hr_events r' = hr_events r" "hr_subsystems r' = AList.update k s (hr_subsystems r)"
    "hr_load r' = (let new = next_aggregate a (hr_subsystem k r) s (hr_subsystems r') in if new \<noteq> a then new else hr_load r)"
    "fx = (if hr_events r \<and> hr_subsystem k r \<noteq> Some s
       then report_effects k (hr_subsystem k r) s a (next_aggregate a (hr_subsystem k r) s (hr_subsystems r')) now else [])"
  using assms by (auto simp: report_commit_def Let_def hr_subsystem_def split: if_splits)

lemma worst_of_map:
  assumes "distinct (keys m)" and "ran (map_of m) \<subseteq> S" and "H_Healthy \<in> S"
  shows "worst (vals m) \<in> S"
proof (cases "m = []")
  case False
  then obtain k where "map_of m k = Some (worst (vals m))"
    using worst_in [of "vals m"] set_vals_map_of [OF assms(1)] by auto
  then show ?thesis
    using assms(2) by (auto simp: ran_def)
qed (simp add: assms(3))

lemma concurrent_inv_step:
  assumes inv: "concurrent_inv events w" and step: "health_step w w'"
  shows "concurrent_inv events w'"
  using step
proof cases
  case (report_loads k s)
  then show ?thesis
    using inv by (auto simp: concurrent_inv_def)
next
  case (report_commits xs k s a ys now r fx prev new)
  let ?r = "hw_registry w" and ?m = "hr_subsystems (hw_registry w)" and ?S = "insert s (reported (hw_commits w))"
  note r = report_commit_fields [OF report_commits(3)]
  have dist: "distinct (keys ?m)" "distinct (keys (hr_subsystems r))" and m: "map_of ?m = committed (hw_commits w)"
    and a: "a \<in> reported (hw_commits w)"
    using inv report_commits(2) by (auto simp: concurrent_inv_def r(2))
  have ran: "ran (map_of (hr_subsystems r)) \<subseteq> ?S"
    using inv unfolding r(2) by (auto simp: concurrent_inv_def ran_def split: if_splits)
  have prev: "prev = map_of ?m k" and new: "new = next_aggregate a prev s (hr_subsystems r)"
    using report_commits(4,5) by (simp_all add: hr_subsystem_def)
  have "new \<in> ?S"
    using worst_of_map [OF dist(2) ran] a by (auto simp: new next_aggregate_def reported_def)
  then have load: "hr_load r \<in> ?S"
    using r(3) new report_commits(4) inv by (auto simp: concurrent_inv_def Let_def)
  have fresh: "hr_load r = worst (vals (hr_subsystems r))" if "\<not> hw_stale w" "a = hr_load ?r"
    using that inv next_aggregate_worst [OF dist(1), of a k s] r(2,3) report_commits(4)
    by (simp add: concurrent_inv_def Let_def hr_subsystem_def)
  have "mset (hw_log w) + mset (concat (map owed_events (xs @ Announcing fx # ys))) =
      mset (announcements events (hw_commits w @ [(k, prev, s, a, new, now)]))"
    using inv report_commits(2) r(4) new report_commits(4) by (auto simp: concurrent_inv_def)
  moreover have "chained Map.empty (hw_commits w @ [(k, prev, s, a, new, now)])"
    using inv m by (simp add: concurrent_inv_def chained_snoc prev)
  moreover have "\<forall>c \<in> set (xs @ Announcing fx # ys). call_ok ?S c"
    using inv report_commits(2) by (auto simp: concurrent_inv_def intro: call_ok_mono)
  moreover have "map_of (hr_subsystems r) = (committed (hw_commits w))(k \<mapsto> s)"
    using m by (simp add: r(2))
  ultimately show ?thesis
    using inv dist(2) ran load fresh r(1) unfolding report_commits(1)
    by (simp add: concurrent_inv_def)
next
  case (report_emits xs e fx ys)
  then show ?thesis
    using inv by (simp add: concurrent_inv_def ac_simps)
next
  case (report_returns xs ys)
  then show ?thesis
    using inv by (simp add: concurrent_inv_def)
qed

interpretation reporting: invariant_system "health_start events" health_step "concurrent_inv events" for events
proof unfold_locales
  show "health_start events w \<Longrightarrow> concurrent_inv events w" for w
    by (simp add: health_start_def concurrent_inv_def HealthInner_new_def announcements_def reported_def
        hr_load_def HealthStatus_from_u8_def)
qed (rule concurrent_inv_step)

section \<open>Property\<close>

text \<open>
  C14: However calls of \<open>report\<close> interleave, the table holds the last committed status of every name, each commit replaced the
  status that the commit before it under that name had left, the events emitted and those still owed are exactly the announcements of
  the commits, the aggregate is \<open>Healthy\<close> or a status that was reported, and it is the worst of the table as long as no commit
  used an aggregate that had changed since it was loaded.
\<close>

theorem concurrent_reports_are_announced_once:
  assumes "health_start events w0" and "health_step\<^sup>*\<^sup>* w0 w"
  shows "(\<forall>k. hr_subsystem k (hw_registry w) = committed (hw_commits w) k) \<and> chained Map.empty (hw_commits w) \<and>
    mset (hw_log w) + mset (concat (map owed_events (hw_calls w))) = mset (announcements events (hw_commits w)) \<and>
    hr_load (hw_registry w) \<in> reported (hw_commits w) \<and>
    (\<not> hw_stale w \<longrightarrow> hr_load (hw_registry w) = worst (vals (hr_subsystems (hw_registry w))))"
  using reporting.inv_reachable [OF assms] by (simp add: concurrent_inv_def hr_subsystem_def)

text \<open>Two racing reports: the second commits with an aggregate loaded before the first.\<close>

theorem concurrent_reports_are_announced_once_witness:
  "\<exists>w0 w. health_start True w0 \<and> health_step\<^sup>*\<^sup>* w0 w \<and> hw_stale w \<and>
     hw_log w = [Emit (Health (SubsystemChanged ''db'' H_Unknown H_Critical 1))] \<and>
     hr_subsystem ''db'' (hw_registry w) = Some H_Critical \<and> hr_subsystem ''api'' (hw_registry w) = Some H_Degraded \<and>
     chained Map.empty (hw_commits w) \<and> size (mset (announcements True (hw_commits w))) = 4"
proof -
  let ?w0 = "\<lparr>hw_registry = HealthInner_new True, hw_calls = [], hw_commits = [], hw_stale = False, hw_log = []\<rparr>"
  let ?w1 = "?w0\<lparr>hw_calls := [Loaded ''db'' H_Critical H_Healthy]\<rparr>"
  let ?w2 = "?w0\<lparr>hw_calls := [Loaded ''db'' H_Critical H_Healthy, Loaded ''api'' H_Degraded H_Healthy]\<rparr>"
  let ?c1 = "report_commit H_Healthy ''db'' H_Critical 1 (HealthInner_new True)"
  let ?r1 = "fst ?c1" and ?m1 = "(''db'', None, H_Critical, H_Healthy, H_Critical, 1)"
  let ?w3 = "?w0\<lparr>hw_registry := ?r1, hw_calls := [Announcing (snd ?c1), Loaded ''api'' H_Degraded H_Healthy],
    hw_commits := [?m1]\<rparr>"
  let ?c2 = "report_commit H_Healthy ''api'' H_Degraded 2 ?r1"
  let ?r2 = "fst ?c2" and ?m2 = "(''api'', None, H_Degraded, H_Healthy, H_Degraded, 2)"
  let ?w4 = "?w0\<lparr>hw_registry := ?r2, hw_calls := [Announcing (snd ?c1), Announcing (snd ?c2)],
    hw_commits := [?m1, ?m2], hw_stale := True\<rparr>"
  let ?w5 = "?w4\<lparr>hw_calls := [Announcing (tl (snd ?c1)), Announcing (snd ?c2)], hw_log := [hd (snd ?c1)]\<rparr>"
  have load: "hr_load (HealthInner_new True) = H_Healthy"
    by (simp add: HealthInner_new_def hr_load_def HealthStatus_from_u8_def)
  note r1 = report_commit_fields [of H_Healthy "''db''" H_Critical 1 "HealthInner_new True" ?r1 "snd ?c1"]
  note r2 = report_commit_fields [of H_Healthy "''api''" H_Degraded 2 ?r1 ?r2 "snd ?c2"]
  have new: "hr_subsystems (HealthInner_new True) = []" "hr_events (HealthInner_new True)"
    by (simp_all add: HealthInner_new_def)
  have r1': "hr_subsystems ?r1 = [(''db'', H_Critical)]" "hr_load ?r1 = H_Critical" "hr_events ?r1"
    "snd ?c1 = [Emit (Health (SubsystemChanged ''db'' H_Unknown H_Critical 1)), Emit (Health (AggregateChanged H_Healthy H_Critical 1))]"
    using r1 new by (simp_all add: hr_subsystem_def next_aggregate_def HealthStatus_order report_effects_def Let_def)
  have r2': "hr_subsystems ?r2 = [(''db'', H_Critical), (''api'', H_Degraded)]"
    using r2 r1' by simp
  have start: "health_start True ?w0"
    by (simp add: health_start_def)
  have "health_step ?w0 ?w1"
    using health_step.report_loads [of ?w0 "''db''" H_Critical] by (simp add: load)
  moreover have "health_step ?w1 ?w2"
    using health_step.report_loads [of ?w1 "''api''" H_Degraded] by (simp add: load)
  moreover have "health_step ?w2 ?w3"
    using health_step.report_commits [of ?w2 "[]" "''db''" H_Critical H_Healthy "[Loaded ''api'' H_Degraded H_Healthy]" 1 ?r1
        "snd ?c1" None H_Critical] r1'(1)
    by (simp add: load new hr_subsystem_def next_aggregate_def HealthStatus_order)
  moreover have "health_step ?w3 ?w4"
    using health_step.report_commits [of ?w3 "[Announcing (snd ?c1)]" "''api''" H_Degraded H_Healthy "[]" 2 ?r2
        "snd ?c2" None H_Degraded] r1'(1,2) r2'
    by (simp add: hr_subsystem_def next_aggregate_def HealthStatus_order)
  moreover have "health_step ?w4 ?w5"
    using health_step.report_emits [of ?w4 "[]" "hd (snd ?c1)" "tl (snd ?c1)" "[Announcing (snd ?c2)]"] by (simp add: r1'(4))
  ultimately have run: "health_step\<^sup>*\<^sup>* ?w0 ?w5"
    by (meson converse_rtranclp_into_rtranclp rtranclp.rtrancl_refl)
  have "chained Map.empty (hw_commits ?w5)"
    using concurrent_reports_are_announced_once [OF start run] by blast
  moreover have "size (mset (announcements True (hw_commits ?w5))) = 4"
    by (simp add: announcements_def report_effects_def Let_def)
  ultimately show ?thesis
    using start run by (intro exI [of _ ?w0] exI [of _ ?w5]) (simp add: r1'(4) r2' hr_subsystem_def)
qed

end
