(* ===== verification/Supervisor.thy ===== *)
theory Supervisor
  imports Worker_Runtime Health_Registry Shutdown Shutdown_Latch
begin

text \<open>
  src/worker/supervisor.rs. The supervisor's state is a record; its handlers are functions on it,
  and a step relation runs them on what the runtime delivers: a task that ended, a watchdog tick,
  a cancellation. The join set and the timers are tokio's: \<open>sv_tasks\<close> are the tasks the supervisor has
  spawned and not yet joined, and the \<open>k\<close>-th spawned task has the id \<open>k\<close> (ids are only compared).
  A worker's body is code of the consumer; it appears as the outcome of its task, its heartbeats
  and its use of its handle.

  The map of registered workers is an association list; the step \<open>rehash\<close> puts it into any other
  order, so no property depends on the order in which the code walks the hash map. Effects are
  collected, oldest first, in \<open>sv_log\<close>.
\<close>

section \<open>State\<close>

definition SUPERVISOR_SHUTDOWN_GRACE :: duration where
  "SUPERVISOR_SHUTDOWN_GRACE = from_secs 5"

definition FAILURE_WINDOW_NANOS :: i64 where
  "FAILURE_WINDOW_NANOS = 60 * 1000000000"

datatype SupervisorOutcome = Completed | FailedWith WorkerError | PanickedWith PanicReason

datatype WorkerRunner = SyncRunner | AsyncRunner

record RegisteredWorker =
  rw_handle :: WorkerHandle
  rw_spec :: WorkerSpec
  rw_runner :: WorkerRunner
  rw_last_heartbeat :: i64
  rw_attempts :: u32
  rw_circuit :: "CircuitBreaker option"

datatype stage = Registering | Looping | Finished_run

record Supervisor =
  sv_registered :: "(WorkerId \<times> RegisteredWorker) list"
  sv_tasks :: "(nat \<times> WorkerId) list"
  sv_spawned :: nat
  sv_task_to_worker :: "(nat \<times> WorkerId) list"
  sv_cancelled :: bool
  sv_health :: HealthRegistry
  sv_shutdown :: ShutdownInner
  sv_id_gen :: IdGenerator
  sv_handles :: "WorkerId list"
  sv_stage :: stage
  sv_log :: "effect list"

definition Supervisor_new :: "HealthRegistry \<Rightarrow> ShutdownInner \<Rightarrow> Supervisor" where
  "Supervisor_new health shutdown =
     \<lparr>sv_registered = [], sv_tasks = [], sv_spawned = 0, sv_task_to_worker = [],
      sv_cancelled = False, sv_health = health, sv_shutdown = shutdown,
      sv_id_gen = IdGenerator_new, sv_handles = [], sv_stage = Registering, sv_log = []\<rparr>"

text \<open>The readings of the clocks a handler makes, by purpose and worker.\<close>

record readings =
  rd_event :: "WorkerId \<Rightarrow> instant"
  rd_breaker :: "WorkerId \<Rightarrow> instant"
  rd_circuit :: "WorkerId \<Rightarrow> instant"
  rd_restart :: "WorkerId \<Rightarrow> instant"
  rd_started :: "WorkerId \<Rightarrow> instant"
  rd_health :: "WorkerId \<Rightarrow> instant"
  rd_timeout :: "WorkerId \<Rightarrow> instant"
  rd_stopping :: "WorkerId \<Rightarrow> instant"
  rd_stopped :: "WorkerId \<Rightarrow> instant"
  rd_unix :: "duration option"
  rd_cancelled_in_backoff :: bool

abbreviation WEv :: "WorkerLifecycleEvent \<Rightarrow> effect" where
  "WEv e \<equiv> Emit (Worker (WorkerEvent_new e))"

definition get_worker :: "WorkerId \<Rightarrow> Supervisor \<Rightarrow> RegisteredWorker option" where
  "get_worker w s = map_of (sv_registered s) w"

definition put_worker :: "WorkerId \<Rightarrow> RegisteredWorker \<Rightarrow> Supervisor \<Rightarrow> Supervisor" where
  "put_worker w r s = s\<lparr>sv_registered := AList.update w r (sv_registered s)\<rparr>"

definition on_handle :: "(WorkerHandle \<Rightarrow> WorkerHandle) \<Rightarrow> WorkerId \<Rightarrow> Supervisor \<Rightarrow> Supervisor" where
  "on_handle f w s =
     (case get_worker w s of
        Some r \<Rightarrow> put_worker w (r\<lparr>rw_handle := f (rw_handle r)\<rparr>) s
      | None \<Rightarrow> s)"

abbreviation set_worker_state :: "WorkerState \<Rightarrow> WorkerId \<Rightarrow> Supervisor \<Rightarrow> Supervisor" where
  "set_worker_state st \<equiv> on_handle (handle_set_state st)"

definition log_fx :: "effect list \<Rightarrow> Supervisor \<Rightarrow> Supervisor" where
  "log_fx fx s = s\<lparr>sv_log := sv_log s @ fx\<rparr>"

section \<open>Registration and spawning\<close>

definition register_inner :: "WorkerSpec \<Rightarrow> WorkerRunner \<Rightarrow> Supervisor \<Rightarrow> WorkerId \<times> Supervisor" where
  "register_inner spec runner s =
     (let (w, gen) = next_worker_id (sv_id_gen s);
          handle = WorkerHandle_new w (ws_name spec) False;
          circuit = map_option CircuitBreaker_new (ws_circuit spec);
          registered = \<lparr>rw_handle = handle, rw_spec = spec, rw_runner = runner,
                        rw_last_heartbeat = 0, rw_attempts = 0, rw_circuit = circuit\<rparr>
      in (w, (put_worker w registered s)\<lparr>sv_id_gen := gen, sv_handles := sv_handles s @ [w]\<rparr>))"

text \<open>
  The context a new task gets. Its token is the handle's, a child of the supervisor's: it reads
  cancelled when either was cancelled.
\<close>

definition spawn_context :: "WorkerId \<Rightarrow> RegisteredWorker \<Rightarrow> Supervisor \<Rightarrow> WorkerContext" where
  "spawn_context w r s =
     WorkerContext_new w (wh_name (rw_handle r)) (wh_cancelled (rw_handle r) \<or> sv_cancelled s)
       (rw_last_heartbeat r)"

definition spawn_one :: "readings \<Rightarrow> WorkerId \<Rightarrow> Supervisor \<Rightarrow> Supervisor" where
  "spawn_one rd w s =
     (case get_worker w s of
        None \<Rightarrow> s
      | Some r \<Rightarrow>
          (let s = set_worker_state WStarting w s;
               tid = sv_spawned s;
               s = s\<lparr>sv_spawned := Suc tid, sv_tasks := sv_tasks s @ [(tid, w)]\<rparr>;
               s = s\<lparr>sv_task_to_worker := AList.update tid w (sv_task_to_worker s)\<rparr>;
               s = set_worker_state WRunning w s
           in log_fx [WEv (Ev_Started w (ws_name (rw_spec r)) (rd_started rd w))] s))"

definition spawn_one_if_idle :: "readings \<Rightarrow> WorkerId \<Rightarrow> Supervisor \<Rightarrow> Supervisor" where
  "spawn_one_if_idle rd w s =
     (if w \<in> set (vals (sv_task_to_worker s)) then s else spawn_one rd w s)"

section \<open>Outcomes\<close>

definition run_sync :: "(WorkerError + unit) unwind \<Rightarrow> SupervisorOutcome" where
  "run_sync u =
     (case catch_panic u of
        Inr (Inr _) \<Rightarrow> Completed
      | Inr (Inl e) \<Rightarrow> FailedWith e
      | Inl reason \<Rightarrow> PanickedWith reason)"

definition run_async :: "WorkerError + unit \<Rightarrow> SupervisorOutcome" where
  "run_async r = (case r of Inr _ \<Rightarrow> Completed | Inl e \<Rightarrow> FailedWith e)"

definition worker_name_for :: "WorkerId \<Rightarrow> Supervisor \<Rightarrow> string" where
  "worker_name_for w s = (case get_worker w s of Some r \<Rightarrow> ws_name (rw_spec r) | None \<Rightarrow> [])"

definition advance_circuit :: "readings \<Rightarrow> WorkerId \<Rightarrow> bool \<Rightarrow> Supervisor \<Rightarrow> bool \<times> Supervisor" where
  "advance_circuit rd w has_failed s =
     (case get_worker w s of
        None \<Rightarrow> (False, s)
      | Some r \<Rightarrow>
          (case rw_circuit r of
             None \<Rightarrow> (False, s)
           | Some breaker \<Rightarrow>
               (let prior = circuit_state breaker;
                    (nxt, breaker) = (if has_failed then record_failure (rd_breaker rd w) breaker
                                      else record_success breaker);
                    s = put_worker w (r\<lparr>rw_circuit := Some breaker\<rparr>) s;
                    name = ws_name (rw_spec r);
                    s = (if prior \<noteq> Open \<and> nxt = Open
                         then log_fx [WEv (Ev_CircuitOpened w name (saturating_add (rw_attempts r) 1)
                                (rd_circuit rd w))] s
                         else if prior = HalfOpen \<and> nxt = Closed
                         then log_fx [WEv (Ev_CircuitClosed w name (rd_circuit rd w))] s
                         else s)
                in (circuit_state breaker = Open, s))))"

fun apply_criticality :: "instant \<Rightarrow> string \<Rightarrow> Criticality \<Rightarrow> Supervisor \<Rightarrow> Supervisor" where
  "apply_criticality now name CriticalWorker s =
     s\<lparr>sv_shutdown := ShutdownHandle_signal (sv_shutdown s)\<rparr>"
| "apply_criticality now name Essential s =
     (let (h, fx) = HealthHandle_report name H_Unhealthy now (sv_health s)
      in log_fx fx (s\<lparr>sv_health := h\<rparr>))"
| "apply_criticality now name Optional s =
     (let (h, fx) = HealthHandle_report name H_Degraded now (sv_health s)
      in log_fx fx (s\<lparr>sv_health := h\<rparr>))"
| "apply_criticality now name Background s = s"

text \<open>
  The last part of \<open>maybe_restart\<close>. The wait for the backoff races with the supervisor's
  cancellation; \<open>rd_cancelled_in_backoff\<close> says that the token was cancelled meanwhile.
\<close>

definition restart_or_stop ::
    "readings \<Rightarrow> WorkerId \<Rightarrow> bool \<Rightarrow> bool \<Rightarrow> duration \<Rightarrow> u32 \<Rightarrow> string \<Rightarrow> Criticality \<Rightarrow> Supervisor \<Rightarrow> Supervisor" where
  "restart_or_stop rd w has_failed restart delay attempts name crit s =
     (if restart
      then let s = set_worker_state WRestarting w s
           in if delay \<noteq> 0 \<and> rd_cancelled_in_backoff rd then s\<lparr>sv_cancelled := True\<rparr>
              else spawn_one rd w
                     (log_fx [WEv (Ev_Restarted w name (saturating_add attempts 1) (rd_restart rd w)),
                              Counter WORKERS_RESTARTED 1 [(''worker'', name)]] s)
      else let s = log_fx [WEv (Ev_Stopped w name (rd_stopped rd w))] (set_worker_state WStopped w s)
           in if has_failed then apply_criticality (rd_health rd w) name crit s else s)"

definition maybe_restart :: "readings \<Rightarrow> WorkerId \<Rightarrow> bool \<Rightarrow> Supervisor \<Rightarrow> Supervisor" where
  "maybe_restart rd w has_failed s =
     (let (circuit_open, s) = advance_circuit rd w has_failed s
      in case get_worker w s of
           None \<Rightarrow> s
         | Some r \<Rightarrow>
             (let (attempts, handle) =
                    (if has_failed
                     then handle_record_failure FAILURE_WINDOW_NANOS (unix_nanos (rd_unix rd)) (rw_handle r)
                     else (0, rw_handle r));
                  policy_allows = should_restart has_failed attempts (ws_restart (rw_spec r));
                  s = put_worker w (r\<lparr>rw_handle := handle, rw_attempts := attempts\<rparr>) s
              in restart_or_stop rd w has_failed (policy_allows \<and> \<not> circuit_open)
                   (backoff_delay attempts (ws_backoff (rw_spec r))) attempts
                   (ws_name (rw_spec r)) (ws_criticality (rw_spec r)) s))"

fun outcome_event :: "WorkerId \<Rightarrow> string \<Rightarrow> instant \<Rightarrow> SupervisorOutcome \<Rightarrow> WorkerLifecycleEvent" where
  "outcome_event w name now Completed = Ev_Stopped w name now"
| "outcome_event w name now (FailedWith err) = Ev_Failed w name (we_message err) now"
| "outcome_event w name now (PanickedWith reason) = Ev_Panicked w name reason now"

definition handle_outcome :: "readings \<Rightarrow> WorkerId \<Rightarrow> SupervisorOutcome \<Rightarrow> Supervisor \<Rightarrow> Supervisor" where
  "handle_outcome rd w outcome s =
     (case get_worker w s of
        None \<Rightarrow> s
      | Some r \<Rightarrow>
          (let has_failed = (outcome \<noteq> Completed);
               s = log_fx [WEv (outcome_event w (ws_name (rw_spec r)) (rd_event rd w) outcome)] s;
               s = (if has_failed
                    then log_fx [Counter WORKERS_FAILED 1 [(''worker'', worker_name_for w s)]] s
                    else s)
           in maybe_restart rd w has_failed s))"

section \<open>Watchdog\<close>

definition watchdog_targets :: "(WorkerId \<times> RegisteredWorker) list \<Rightarrow> WatchdogTarget list" where
  "watchdog_targets m =
     concat (map (\<lambda>(w, r).
       case ws_heartbeat_interval (rw_spec r) of
         None \<Rightarrow> []
       | Some interval \<Rightarrow>
           [\<lparr>wt_id = wh_id (rw_handle r), wt_name = ws_name (rw_spec r),
             wt_last_heartbeat_nanos = rw_last_heartbeat r, wt_heartbeat_interval = interval\<rparr>]) m)"

definition tick_worker :: "instant \<Rightarrow> RegisteredWorker \<Rightarrow> bool \<times> RegisteredWorker" where
  "tick_worker now r =
     (case rw_circuit r of
        None \<Rightarrow> (False, r)
      | Some breaker \<Rightarrow>
          (let prior = circuit_state breaker;
               (after, breaker) = circuit_tick now breaker
           in (prior = Open \<and> after = HalfOpen, r\<lparr>rw_circuit := Some breaker\<rparr>)))"

definition half_open_worker :: "readings \<Rightarrow> WorkerId \<times> string \<Rightarrow> Supervisor \<Rightarrow> Supervisor" where
  "half_open_worker rd = (\<lambda>(w, name) s.
     spawn_one_if_idle rd w (log_fx [WEv (Ev_CircuitHalfOpened w name (rd_circuit rd w))] s))"

definition time_out_worker :: "readings \<Rightarrow> WatchdogTimeout \<Rightarrow> Supervisor \<Rightarrow> Supervisor" where
  "time_out_worker rd t s =
     on_handle handle_cancel (to_id t)
       (log_fx [WEv (Ev_Timeout (to_id t) (to_name t) (to_silent_for t) (rd_timeout rd (to_id t)))] s)"

definition watchdog_tick :: "readings \<Rightarrow> Supervisor \<Rightarrow> Supervisor" where
  "watchdog_tick rd s =
     (let timeouts = watchdog_check (watchdog_targets (sv_registered s)) (unix_nanos (rd_unix rd));
          ticked = map (\<lambda>(w, r). (w, tick_worker (rd_breaker rd w) r)) (sv_registered s);
          half = map (\<lambda>(w, b, r). (w, ws_name (rw_spec r))) (filter (\<lambda>(w, b, r). b) ticked);
          s = s\<lparr>sv_registered := map (\<lambda>(w, b, r). (w, r)) ticked\<rparr>;
          s = fold (half_open_worker rd) half s
      in fold (time_out_worker rd) timeouts s)"

section \<open>Shutting down\<close>

definition stop_worker :: "readings \<Rightarrow> WorkerId \<Rightarrow> Supervisor \<Rightarrow> Supervisor" where
  "stop_worker rd w s =
     log_fx [WEv (Ev_Stopping w (rd_stopping rd w))]
       (on_handle handle_cancel w (set_worker_state WStopping w s))"

definition finish_worker :: "readings \<Rightarrow> WorkerId \<Rightarrow> Supervisor \<Rightarrow> Supervisor" where
  "finish_worker rd w s =
     log_fx [WEv (Ev_Stopped w (worker_name_for w s) (rd_stopped rd w))] (set_worker_state WStopped w s)"

text \<open>
  One joined task of the drain. The code counts the same way before and after it aborts the
  stragglers, so the loops before and after the grace period are one.
\<close>

definition join_drained :: "nat \<times> join_result \<Rightarrow> (nat \<times> nat) \<times> Supervisor \<Rightarrow> (nat \<times> nat) \<times> Supervisor" where
  "join_drained = (\<lambda>(tid, res) ((drained, aborted), s).
     (if res = JoinCancelled then (drained, aborted + 1) else (drained + 1, aborted),
      s\<lparr>sv_tasks := AList.delete tid (sv_tasks s),
        sv_task_to_worker := AList.delete tid (sv_task_to_worker s)\<rparr>))"

definition shutdown_all ::
    "readings \<Rightarrow> (nat \<times> join_result) list \<Rightarrow> Supervisor \<Rightarrow> (nat \<times> nat) \<times> Supervisor" where
  "shutdown_all rd joined s =
     (let ids = keys (sv_registered s);
          s = fold (stop_worker rd) ids s;
          (counts, s) = fold join_drained joined ((0, 0), s)
      in (counts, fold (finish_worker rd) ids s))"

text \<open>What the public methods add: the kind of runner, and the drain on its own.\<close>

definition Supervisor_register :: "WorkerSpec \<Rightarrow> Supervisor \<Rightarrow> WorkerId \<times> Supervisor" where
  "Supervisor_register spec = register_inner spec SyncRunner"

definition Supervisor_register_async :: "WorkerSpec \<Rightarrow> Supervisor \<Rightarrow> WorkerId \<times> Supervisor" where
  "Supervisor_register_async spec = register_inner spec AsyncRunner"

definition drain_all ::
    "readings \<Rightarrow> (nat \<times> join_result) list \<Rightarrow> Supervisor \<Rightarrow> (nat \<times> nat) \<times> Supervisor" where
  "drain_all = shutdown_all"

section \<open>The run loop\<close>

definition start_run :: "readings \<Rightarrow> Supervisor \<Rightarrow> Supervisor" where
  "start_run rd s = fold (spawn_one rd) (keys (sv_registered s)) (s\<lparr>sv_stage := Looping\<rparr>)"

definition join_task :: "readings \<Rightarrow> nat \<Rightarrow> WorkerId \<Rightarrow> SupervisorOutcome option \<Rightarrow> Supervisor \<Rightarrow> Supervisor" where
  "join_task rd tid w outcome s =
     (let s = s\<lparr>sv_tasks := AList.delete tid (sv_tasks s),
                sv_task_to_worker := AList.delete tid (sv_task_to_worker s)\<rparr>
      in case outcome of Some out \<Rightarrow> handle_outcome rd w out s | None \<Rightarrow> s)"

text \<open>
  The loop takes the cancellation first (\<open>biased\<close>), so ticks and joined tasks are handled while
  the token is not cancelled. A task that was aborted (\<open>None\<close>) is ignored. Around the loop, workers
  beat, handles and the token are cancelled, and other parts report health or signal shutdown.
\<close>

inductive sup_step :: "Supervisor \<Rightarrow> Supervisor \<Rightarrow> bool" where
  register: "sv_stage s = Registering \<Longrightarrow> ig_next (sv_id_gen s) \<noteq> - 1 \<Longrightarrow>
    sup_step s (snd (register_inner spec runner s))"
| start: "sv_stage s = Registering \<Longrightarrow> sup_step s (start_run rd s)"
| joined: "sv_stage s = Looping \<Longrightarrow> \<not> sv_cancelled s \<Longrightarrow> (tid, w) \<in> set (sv_tasks s) \<Longrightarrow>
    sup_step s (join_task rd tid w outcome s)"
| tick: "sv_stage s = Looping \<Longrightarrow> \<not> sv_cancelled s \<Longrightarrow> sup_step s (watchdog_tick rd s)"
| shut_down: "sv_stage s = Looping \<Longrightarrow> sv_cancelled s \<Longrightarrow> set (keys joined) = set (keys (sv_tasks s)) \<Longrightarrow>
    distinct (keys joined) \<Longrightarrow>
    sup_step s (snd (shutdown_all rd joined s)\<lparr>sv_stage := Finished_run\<rparr>)"
| heartbeat: "get_worker w s = Some r \<Longrightarrow>
    sup_step s (put_worker w (r\<lparr>rw_last_heartbeat := unix_nanos since_epoch\<rparr>) s)"
| cancel_handle: "sup_step s (on_handle handle_cancel w s)"
| cancel: "sup_step s (s\<lparr>sv_cancelled := True\<rparr>)"
| report_health: "HealthHandle_report name st now (sv_health s) = (h, fx) \<Longrightarrow>
    sup_step s (log_fx fx (s\<lparr>sv_health := h\<rparr>))"
| signal_shutdown: "sup_step s (s\<lparr>sv_shutdown := ShutdownHandle_signal (sv_shutdown s)\<rparr>)"
| rehash: "distinct (keys m) \<Longrightarrow> set m = set (sv_registered s) \<Longrightarrow>
    sup_step s (s\<lparr>sv_registered := m\<rparr>)"

section \<open>Steps that leave the tasks alone\<close>

text \<open>
  \<open>evolves\<close>: workers stay registered under their id with their specification, and cancellations
  and the shutdown signal are not taken back. \<open>quiet\<close>: nothing is registered, spawned or joined.
\<close>

definition keeps_worker :: "RegisteredWorker \<Rightarrow> RegisteredWorker \<Rightarrow> bool" where
  "keeps_worker r r' \<longleftrightarrow> rw_spec r' = rw_spec r \<and> wh_id (rw_handle r') = wh_id (rw_handle r) \<and>
     (wh_cancelled (rw_handle r) \<longrightarrow> wh_cancelled (rw_handle r'))"

definition evolves :: "Supervisor \<Rightarrow> Supervisor \<Rightarrow> bool" where
  "evolves s s' \<longleftrightarrow>
     (\<forall>w r. get_worker w s = Some r \<longrightarrow> (\<exists>r'. get_worker w s' = Some r' \<and> keeps_worker r r')) \<and>
     (sv_cancelled s \<longrightarrow> sv_cancelled s') \<and>
     (ShutdownHandle_is_signalled (sv_shutdown s) \<longrightarrow> ShutdownHandle_is_signalled (sv_shutdown s'))"

definition quiet :: "Supervisor \<Rightarrow> Supervisor \<Rightarrow> bool" where
  "quiet s s' \<longleftrightarrow> evolves s s' \<and> (\<forall>w. get_worker w s = None \<longrightarrow> get_worker w s' = None) \<and>
     distinct (keys (sv_registered s')) = distinct (keys (sv_registered s)) \<and>
     sv_tasks s' = sv_tasks s \<and> sv_task_to_worker s' = sv_task_to_worker s \<and>
     sv_spawned s' = sv_spawned s \<and> sv_stage s' = sv_stage s \<and> sv_id_gen s' = sv_id_gen s"

lemma keeps_worker_refl [simp]: "keeps_worker r r"
  by (simp add: keeps_worker_def)

lemma evolves_refl [simp]: "evolves s s"
  by (auto simp: evolves_def)

lemma evolves_worker:
  "evolves s s' \<Longrightarrow> get_worker w s = Some r \<Longrightarrow> get_worker w s' = Some r' \<Longrightarrow> keeps_worker r r'"
  unfolding evolves_def by (metis option.inject)

lemma evolves_trans [trans]: "evolves s t \<Longrightarrow> evolves t u \<Longrightarrow> evolves s u"
  unfolding evolves_def keeps_worker_def by metis

lemma quiet_refl [simp]: "quiet s s"
  by (simp add: quiet_def)

lemma quiet_trans [trans]: "quiet s t \<Longrightarrow> quiet t u \<Longrightarrow> quiet s u"
  unfolding quiet_def using evolves_trans by metis

lemma quiet_fold: "(\<And>x s. x \<in> set xs \<Longrightarrow> quiet s (f x s)) \<Longrightarrow> quiet s (fold f xs s)"
  by (induction xs arbitrary: s) (auto intro: quiet_trans)

lemma get_put [simp]: "get_worker v (put_worker w r s) = (if v = w then Some r else get_worker v s)"
  by (simp add: get_worker_def put_worker_def)

lemma put_worker_fields [simp]:
  "sv_tasks (put_worker w r s) = sv_tasks s"
  "sv_task_to_worker (put_worker w r s) = sv_task_to_worker s"
  "sv_spawned (put_worker w r s) = sv_spawned s" "sv_stage (put_worker w r s) = sv_stage s"
  "sv_cancelled (put_worker w r s) = sv_cancelled s" "sv_shutdown (put_worker w r s) = sv_shutdown s"
  "sv_health (put_worker w r s) = sv_health s" "sv_id_gen (put_worker w r s) = sv_id_gen s"
  "sv_log (put_worker w r s) = sv_log s"
  "distinct (keys (sv_registered (put_worker w r s))) = distinct (keys (sv_registered s))"
  by (simp_all add: put_worker_def)

lemma log_fx_fields [simp]:
  "get_worker w (log_fx fx s) = get_worker w s" "sv_registered (log_fx fx s) = sv_registered s"
  "sv_tasks (log_fx fx s) = sv_tasks s" "sv_task_to_worker (log_fx fx s) = sv_task_to_worker s"
  "sv_spawned (log_fx fx s) = sv_spawned s" "sv_stage (log_fx fx s) = sv_stage s"
  "sv_cancelled (log_fx fx s) = sv_cancelled s" "sv_shutdown (log_fx fx s) = sv_shutdown s"
  "sv_health (log_fx fx s) = sv_health s" "sv_id_gen (log_fx fx s) = sv_id_gen s"
  "sv_log (log_fx fx s) = sv_log s @ fx"
  by (simp_all add: log_fx_def get_worker_def)

lemma get_worker_update [simp]:
  "get_worker w (s\<lparr>sv_tasks := ts\<rparr>) = get_worker w s"
  "get_worker w (s\<lparr>sv_task_to_worker := ts\<rparr>) = get_worker w s"
  "get_worker w (s\<lparr>sv_spawned := n\<rparr>) = get_worker w s"
  "get_worker w (s\<lparr>sv_stage := st\<rparr>) = get_worker w s"
  "get_worker w (s\<lparr>sv_cancelled := b\<rparr>) = get_worker w s"
  "get_worker w (s\<lparr>sv_health := h\<rparr>) = get_worker w s"
  "get_worker w (s\<lparr>sv_shutdown := i\<rparr>) = get_worker w s"
  "get_worker w (s\<lparr>sv_id_gen := g\<rparr>) = get_worker w s"
  "get_worker w (s\<lparr>sv_handles := hs\<rparr>) = get_worker w s"
  "get_worker w (s\<lparr>sv_log := fx\<rparr>) = get_worker w s"
  by (simp_all add: get_worker_def)

lemma get_on_handle [simp]:
  "get_worker v (on_handle f w s) =
     (if v = w then map_option (\<lambda>r. r\<lparr>rw_handle := f (rw_handle r)\<rparr>) (get_worker v s)
      else get_worker v s)"
  by (auto simp: on_handle_def split: option.split)

lemma on_handle_fields [simp]:
  "sv_tasks (on_handle f w s) = sv_tasks s" "sv_task_to_worker (on_handle f w s) = sv_task_to_worker s"
  "sv_spawned (on_handle f w s) = sv_spawned s" "sv_stage (on_handle f w s) = sv_stage s"
  "sv_cancelled (on_handle f w s) = sv_cancelled s" "sv_shutdown (on_handle f w s) = sv_shutdown s"
  "sv_health (on_handle f w s) = sv_health s" "sv_id_gen (on_handle f w s) = sv_id_gen s"
  "sv_log (on_handle f w s) = sv_log s"
  "distinct (keys (sv_registered (on_handle f w s))) = distinct (keys (sv_registered s))"
  by (auto simp: on_handle_def split: option.split)

lemma handle_cancel_fields [simp]:
  "wh_id (handle_cancel h) = wh_id h" "wh_cancelled (handle_cancel h)"
  "handle_state (handle_cancel h) = handle_state h"
  by (simp_all add: handle_cancel_def handle_state_def)

lemma quiet_log [simp]: "quiet s (log_fx fx s)"
  by (simp add: quiet_def evolves_def)

lemma quiet_put: "get_worker w s = Some r \<Longrightarrow> keeps_worker r r' \<Longrightarrow> quiet s (put_worker w r' s)"
  by (auto simp: quiet_def evolves_def)

lemma quiet_on_handle:
  "(\<And>h. wh_id (f h) = wh_id h \<and> (wh_cancelled h \<longrightarrow> wh_cancelled (f h))) \<Longrightarrow> quiet s (on_handle f w s)"
  by (auto simp: quiet_def evolves_def keeps_worker_def)

lemma quiet_set_state [simp]: "quiet s (set_worker_state st w s)"
  by (rule quiet_on_handle) simp

lemma quiet_cancel_handle [simp]: "quiet s (on_handle handle_cancel w s)"
  by (rule quiet_on_handle) simp

lemma quiet_fields [simp]:
  "quiet s (s\<lparr>sv_cancelled := True\<rparr>)" "quiet s (s\<lparr>sv_health := h\<rparr>)"
  "quiet s (s\<lparr>sv_shutdown := ShutdownHandle_signal (sv_shutdown s)\<rparr>)"
  by (simp_all add: quiet_def evolves_def shutdown_flag.raise_raises)

lemma quiet_advance_circuit: "quiet s (snd (advance_circuit rd w f s))"
proof (cases "get_worker w s")
  case (Some r)
  show ?thesis
  proof (cases "rw_circuit r")
    case (Some b)
    let ?n = "if f then record_failure (rd_breaker rd w) b else record_success b"
    have "quiet s (put_worker w (r\<lparr>rw_circuit := Some (snd ?n)\<rparr>) s)"
      using \<open>get_worker w s = Some r\<close> by (rule quiet_put) (simp add: keeps_worker_def)
    then show ?thesis
      using Some \<open>get_worker w s = Some r\<close>
      by (auto simp: advance_circuit_def Let_def case_prod_beta intro: quiet_trans)
  qed (simp add: advance_circuit_def Some)
qed (simp add: advance_circuit_def)

lemma quiet_apply_criticality: "quiet s (apply_criticality now name c s)"
  by (cases c) (auto simp: case_prod_beta Let_def intro: quiet_trans [OF quiet_fields(2) quiet_log])

section \<open>What an outcome decides\<close>

text \<open>The failure count, the breaker and the decision that \<open>maybe_restart\<close> arrives at.\<close>

definition failures_after :: "readings \<Rightarrow> bool \<Rightarrow> RegisteredWorker \<Rightarrow> u32" where
  "failures_after rd has_failed r =
     (if has_failed
      then fst (handle_record_failure FAILURE_WINDOW_NANOS (unix_nanos (rd_unix rd)) (rw_handle r)) else 0)"

definition circuit_after :: "readings \<Rightarrow> WorkerId \<Rightarrow> bool \<Rightarrow> RegisteredWorker \<Rightarrow> CircuitBreaker option" where
  "circuit_after rd w has_failed r =
     map_option (\<lambda>b. snd (if has_failed then record_failure (rd_breaker rd w) b else record_success b))
       (rw_circuit r)"

definition restarts :: "readings \<Rightarrow> WorkerId \<Rightarrow> bool \<Rightarrow> RegisteredWorker \<Rightarrow> bool" where
  "restarts rd w has_failed r \<longleftrightarrow>
     should_restart has_failed (failures_after rd has_failed r) (ws_restart (rw_spec r)) \<and>
     (case circuit_after rd w has_failed r of Some b \<Rightarrow> circuit_allow b | None \<Rightarrow> True)"

definition after_outcome :: "readings \<Rightarrow> WorkerId \<Rightarrow> bool \<Rightarrow> RegisteredWorker \<Rightarrow> RegisteredWorker" where
  "after_outcome rd w has_failed r =
     r\<lparr>rw_circuit := circuit_after rd w has_failed r,
       rw_handle := (if has_failed
         then snd (handle_record_failure FAILURE_WINDOW_NANOS (unix_nanos (rd_unix rd)) (rw_handle r))
         else rw_handle r),
       rw_attempts := failures_after rd has_failed r\<rparr>"

lemma after_outcome_fields [simp]:
  "rw_spec (after_outcome rd w f r) = rw_spec r"
  "rw_runner (after_outcome rd w f r) = rw_runner r"
  "rw_last_heartbeat (after_outcome rd w f r) = rw_last_heartbeat r"
  "rw_circuit (after_outcome rd w f r) = circuit_after rd w f r"
  "wh_id (rw_handle (after_outcome rd w f r)) = wh_id (rw_handle r)"
  "wh_cancelled (rw_handle (after_outcome rd w f r)) = wh_cancelled (rw_handle r)"
  by (simp_all add: after_outcome_def)

lemma advance_circuit_result:
  assumes "get_worker w s = Some r"
  shows "fst (advance_circuit rd w f s) \<longleftrightarrow>
      (case circuit_after rd w f r of Some b \<Rightarrow> \<not> circuit_allow b | None \<Rightarrow> False)"
    and "get_worker w (snd (advance_circuit rd w f s)) = Some (r\<lparr>rw_circuit := circuit_after rd w f r\<rparr>)"
    and "sv_cancelled (snd (advance_circuit rd w f s)) = sv_cancelled s \<and> sv_shutdown (snd (advance_circuit rd w f s)) = sv_shutdown s \<and> sv_health (snd (advance_circuit rd w f s)) = sv_health s"
proof -
  have "rw_circuit r = None \<Longrightarrow> r\<lparr>rw_circuit := None\<rparr> = r"
    by (cases r) simp
  then show "fst (advance_circuit rd w f s) \<longleftrightarrow>
      (case circuit_after rd w f r of Some b \<Rightarrow> \<not> circuit_allow b | None \<Rightarrow> False)"
    and "get_worker w (snd (advance_circuit rd w f s)) = Some (r\<lparr>rw_circuit := circuit_after rd w f r\<rparr>)"
    and "sv_cancelled (snd (advance_circuit rd w f s)) = sv_cancelled s \<and> sv_shutdown (snd (advance_circuit rd w f s)) = sv_shutdown s \<and> sv_health (snd (advance_circuit rd w f s)) = sv_health s"
    using assms by (auto simp: advance_circuit_def circuit_after_def circuit_allow_def Let_def
        case_prod_beta split: option.split)
qed

lemma maybe_restart_decides:
  assumes "get_worker w s = Some r"
  shows "maybe_restart rd w f s =
    restart_or_stop rd w f (restarts rd w f r)
      (backoff_delay (failures_after rd f r) (ws_backoff (rw_spec r)))
      (failures_after rd f r) (ws_name (rw_spec r)) (ws_criticality (rw_spec r))
      (put_worker w (after_outcome rd w f r) (snd (advance_circuit rd w f s)))"
proof -
  note a = advance_circuit_result [OF assms, of rd f]
  have ok: "\<not> fst (advance_circuit rd w f s) \<longleftrightarrow>
      (case circuit_after rd w f r of Some b \<Rightarrow> circuit_allow b | None \<Rightarrow> True)"
    by (simp add: a(1) split: option.split)
  show ?thesis
    unfolding maybe_restart_def Let_def case_prod_beta a(2) restarts_def ok [symmetric]
    by (cases f) (simp_all add: after_outcome_def failures_after_def)
qed

lemma handle_outcome_decides:
  assumes r: "get_worker w s = Some r"
  obtains s1 where
    "handle_outcome rd w out s =
       restart_or_stop rd w (out \<noteq> Completed) (restarts rd w (out \<noteq> Completed) r)
         (backoff_delay (failures_after rd (out \<noteq> Completed) r) (ws_backoff (rw_spec r)))
         (failures_after rd (out \<noteq> Completed) r) (ws_name (rw_spec r)) (ws_criticality (rw_spec r)) s1"
    "quiet s s1" "get_worker w s1 = Some (after_outcome rd w (out \<noteq> Completed) r)"
    "sv_cancelled s1 = sv_cancelled s" "sv_shutdown s1 = sv_shutdown s" "sv_health s1 = sv_health s"
proof -
  let ?f = "out \<noteq> Completed"
  let ?l = "log_fx [WEv (outcome_event w (ws_name (rw_spec r)) (rd_event rd w) out)] s"
  define s0 where "s0 = (if ?f
    then log_fx [Counter WORKERS_FAILED 1 [(''worker'', worker_name_for w ?l)]] ?l else ?l)"
  have s0: "get_worker w s0 = Some r" "quiet s s0" "sv_cancelled s0 = sv_cancelled s"
    "sv_shutdown s0 = sv_shutdown s" "sv_health s0 = sv_health s"
    using r by (auto simp: s0_def intro: quiet_trans [OF quiet_log quiet_log])
  let ?a = "snd (advance_circuit rd w ?f s0)"
  let ?s1 = "put_worker w (after_outcome rd w ?f r) ?a"
  note a = advance_circuit_result [OF s0(1), of rd ?f]
  have "quiet s ?a"
    using s0(2) quiet_advance_circuit by (rule quiet_trans)
  moreover have "quiet ?a ?s1"
    using a(2) by (rule quiet_put) (simp add: keeps_worker_def)
  ultimately have "quiet s ?s1"
    by (rule quiet_trans)
  moreover have "handle_outcome rd w out s = maybe_restart rd w ?f s0"
    using r by (simp add: handle_outcome_def s0_def Let_def)
  moreover have "maybe_restart rd w ?f s0 =
       restart_or_stop rd w ?f (restarts rd w ?f r)
         (backoff_delay (failures_after rd ?f r) (ws_backoff (rw_spec r)))
         (failures_after rd ?f r) (ws_name (rw_spec r)) (ws_criticality (rw_spec r)) ?s1"
    by (rule maybe_restart_decides [OF s0(1)])
  ultimately show ?thesis
    using a(3) s0 by (intro that [of ?s1]) simp_all
qed

lemma restart_or_stop_quiet:
  assumes "\<not> restart \<or> delay \<noteq> 0 \<and> rd_cancelled_in_backoff rd"
  shows "quiet s (restart_or_stop rd w f restart delay n name c s)"
proof -
  have stop: "quiet s (log_fx fx (set_worker_state WStopped w s))" for fx
    by (rule quiet_trans [OF quiet_set_state quiet_log])
  have cancel: "quiet s ((set_worker_state WRestarting w s)\<lparr>sv_cancelled := True\<rparr>)"
    by (rule quiet_trans [OF quiet_set_state quiet_fields(1)])
  show ?thesis
    using assms stop cancel quiet_trans [OF stop quiet_apply_criticality]
    by (simp add: restart_or_stop_def Let_def)
qed

lemma restart_or_stop_spawns:
  assumes "restart" and "delay = 0 \<or> \<not> rd_cancelled_in_backoff rd"
  obtains s1 where "restart_or_stop rd w f restart delay n name c s = spawn_one rd w s1" "quiet s s1"
    "get_worker w s1 = map_option (\<lambda>r. r\<lparr>rw_handle := handle_set_state WRestarting (rw_handle r)\<rparr>) (get_worker w s)"
    "sv_cancelled s1 = sv_cancelled s" "sv_shutdown s1 = sv_shutdown s" "sv_health s1 = sv_health s"
proof -
  let ?s1 = "log_fx [WEv (Ev_Restarted w name (saturating_add n 1) (rd_restart rd w)),
    Counter WORKERS_RESTARTED 1 [(''worker'', name)]] (set_worker_state WRestarting w s)"
  have "quiet s ?s1"
    by (rule quiet_trans [OF quiet_set_state quiet_log])
  then show ?thesis
    using assms by (intro that [of ?s1]) (auto simp: restart_or_stop_def Let_def)
qed

section \<open>The invariant of the supervisor\<close>

text \<open>
  The map from task ids to workers mirrors the join set, every worker has at most one task, and
  every task belongs to a registered worker; workers are registered under the id their handle carries.
\<close>

definition sup_inv :: "Supervisor \<Rightarrow> bool" where
  "sup_inv s \<longleftrightarrow>
     sv_task_to_worker s = sv_tasks s \<and>
     distinct (keys (sv_tasks s)) \<and> distinct (vals (sv_tasks s)) \<and>
     (\<forall>t \<in> set (keys (sv_tasks s)). t < sv_spawned s) \<and>
     (\<forall>w \<in> set (vals (sv_tasks s)). get_worker w s \<noteq> None) \<and>
     distinct (keys (sv_registered s)) \<and>
     (\<forall>w r. get_worker w s = Some r \<longrightarrow> wh_id (rw_handle r) = w \<and>
        WorkerId_as_u64 w < ig_next (sv_id_gen s)) \<and>
     (sv_stage s = Registering \<longrightarrow> sv_tasks s = [])"

lemma inv_quiet: "sup_inv s \<Longrightarrow> quiet s s' \<Longrightarrow> sup_inv s'"
proof -
  assume inv: "sup_inv s" and q: "quiet s s'"
  have "wh_id (rw_handle r) = w \<and> WorkerId_as_u64 w < ig_next (sv_id_gen s')"
    if r: "get_worker w s' = Some r" for w r
  proof -
    obtain r0 where r0: "get_worker w s = Some r0"
      using q r by (cases "get_worker w s") (auto simp: quiet_def)
    have "keeps_worker r0 r"
      using q r0 r by (intro evolves_worker [of s s' w]) (simp_all add: quiet_def)
    with r0 inv q show ?thesis
      by (auto simp: sup_inv_def quiet_def keeps_worker_def)
  qed
  moreover have "get_worker w s' \<noteq> None" if "get_worker w s \<noteq> None" for w
    using q that unfolding quiet_def evolves_def by (metis not_None_eq)
  ultimately show ?thesis
    using inv q by (simp add: sup_inv_def quiet_def)
qed

lemma update_fresh: "k \<notin> set (keys m) \<Longrightarrow> AList.update k v m = m @ [(k, v)]"
  by (induction m) auto

lemma spawn_one_tasks:
  "get_worker w s \<noteq> None \<Longrightarrow> sv_tasks (spawn_one rd w s) = sv_tasks s @ [(sv_spawned s, w)]"
  by (auto simp: spawn_one_def Let_def)

lemma spawn_one_evolves:
  "evolves s (spawn_one rd w s)" "get_worker v (spawn_one rd w s) = None \<longleftrightarrow> get_worker v s = None"
  by (auto simp: spawn_one_def Let_def evolves_def keeps_worker_def split: option.splits)

lemma spawn_one_other [simp]:
  "sv_cancelled (spawn_one rd w s) = sv_cancelled s" "sv_shutdown (spawn_one rd w s) = sv_shutdown s"
  "sv_health (spawn_one rd w s) = sv_health s" "sv_stage (spawn_one rd w s) = sv_stage s"
  "sv_id_gen (spawn_one rd w s) = sv_id_gen s"
  by (simp_all add: spawn_one_def Let_def split: option.splits)

lemma inv_spawn:
  assumes inv: "sup_inv s" and idle: "w \<notin> set (vals (sv_tasks s))" and st: "sv_stage s \<noteq> Registering"
  shows "sup_inv (spawn_one rd w s)"
proof (cases "get_worker w s")
  case None
  then show ?thesis
    using inv by (simp add: spawn_one_def)
next
  case (Some r)
  have "sv_spawned s \<notin> set (keys (sv_tasks s))"
    using inv by (auto simp: sup_inv_def)
  with assms Some show ?thesis
    by (auto simp: sup_inv_def spawn_one_def Let_def update_fresh)
qed

lemma inv_joined:
  assumes inv: "sup_inv s"
  shows "sup_inv (s\<lparr>sv_tasks := AList.delete t (sv_tasks s),
    sv_task_to_worker := AList.delete t (sv_task_to_worker s)\<rparr>)"
proof -
  have sub: "set (AList.delete t m) \<subseteq> set m" for m :: "(nat \<times> WorkerId) list"
    by (auto simp: AList.delete_eq)
  have "distinct (keys (AList.delete t m))" "distinct (vals (AList.delete t m))"
    if "distinct (keys m)" "distinct (vals m)" for m :: "(nat \<times> WorkerId) list"
    using that by (auto simp: AList.delete_eq distinct_map_filter)
  then show ?thesis
    using inv sub [of "sv_tasks s"] unfolding sup_inv_def by auto
qed

lemma joined_idle:
  assumes "sup_inv s" and "(t, w) \<in> set (sv_tasks s)"
  shows "w \<notin> set (vals (AList.delete t (sv_tasks s)))"
proof
  assume "w \<in> set (vals (AList.delete t (sv_tasks s)))"
  then obtain u where "(u, w) \<in> set (sv_tasks s)" "u \<noteq> t"
    by (auto simp: AList.delete_eq)
  moreover have "inj_on snd (set (sv_tasks s))"
    using assms(1) by (simp add: sup_inv_def distinct_map)
  ultimately show False
    using assms(2) inj_onD [of snd "set (sv_tasks s)" "(t, w)" "(u, w)"] by simp
qed

lemma inv_outcome:
  assumes inv: "sup_inv s" and idle: "w \<notin> set (vals (sv_tasks s))" and st: "sv_stage s \<noteq> Registering"
  shows "sup_inv (handle_outcome rd w out s) \<and> evolves s (handle_outcome rd w out s)"
proof (cases "get_worker w s")
  case None
  then show ?thesis
    using inv by (simp add: handle_outcome_def)
next
  case (Some r)
  let ?f = "out \<noteq> Completed"
  let ?delay = "backoff_delay (failures_after rd ?f r) (ws_backoff (rw_spec r))"
  obtain s1 where s1: "handle_outcome rd w out s = restart_or_stop rd w ?f (restarts rd w ?f r) ?delay
       (failures_after rd ?f r) (ws_name (rw_spec r)) (ws_criticality (rw_spec r)) s1" "quiet s s1"
    using handle_outcome_decides [OF Some, of rd out] by blast
  show ?thesis
  proof (cases "restarts rd w ?f r \<and> (?delay = 0 \<or> \<not> rd_cancelled_in_backoff rd)")
    case True
    then obtain s2 where s2: "handle_outcome rd w out s = spawn_one rd w s2" "quiet s1 s2"
      using restart_or_stop_spawns [of "restarts rd w ?f r" ?delay rd] s1(1) by metis
    have q: "quiet s s2"
      using s1(2) s2(2) by (rule quiet_trans)
    then have "sup_inv (spawn_one rd w s2)"
      using inv_quiet [OF inv q] idle st by (intro inv_spawn) (auto simp: quiet_def)
    moreover have "evolves s (spawn_one rd w s2)"
      using q spawn_one_evolves(1) [of s2 rd w] by (auto simp: quiet_def intro: evolves_trans)
    ultimately show ?thesis
      by (simp add: s2(1))
  next
    case False
    then have "quiet s (handle_outcome rd w out s)"
      unfolding s1(1) using s1(2) by (intro quiet_trans [OF s1(2) restart_or_stop_quiet]) auto
    then show ?thesis
      using inv inv_quiet by (auto simp: quiet_def)
  qed
qed

lemma inv_spawn_if_idle:
  "sup_inv s \<Longrightarrow> sv_stage s \<noteq> Registering \<Longrightarrow>
   sup_inv (spawn_one_if_idle rd w s) \<and> evolves s (spawn_one_if_idle rd w s)"
  using inv_spawn [of s w rd] spawn_one_evolves(1) [of s rd w]
  by (auto simp: spawn_one_if_idle_def sup_inv_def)

lemma spawn_if_idle_stage [simp]: "sv_stage (spawn_one_if_idle rd w s) = sv_stage s"
  by (simp add: spawn_one_if_idle_def)

lemma half_open_stage [simp]: "sv_stage (half_open_worker rd p s) = sv_stage s"
  by (cases p) (simp add: half_open_worker_def)

lemma inv_half_open:
  "sup_inv s \<Longrightarrow> sv_stage s \<noteq> Registering \<Longrightarrow>
   sup_inv (half_open_worker rd p s) \<and> evolves s (half_open_worker rd p s)"
proof (cases p)
  case (Pair w name)
  let ?s = "log_fx [WEv (Ev_CircuitHalfOpened w name (rd_circuit rd w))] s"
  assume "sup_inv s" "sv_stage s \<noteq> Registering"
  then have "sup_inv ?s" "sv_stage ?s \<noteq> Registering"
    by (auto intro: inv_quiet)
  then have "sup_inv (spawn_one_if_idle rd w ?s) \<and> evolves ?s (spawn_one_if_idle rd w ?s)"
    by (rule inv_spawn_if_idle)
  moreover have "evolves s ?s"
    using quiet_log [of s] by (simp add: quiet_def)
  ultimately show ?thesis
    by (auto simp: Pair half_open_worker_def intro: evolves_trans)
qed

lemma inv_fold_half_open:
  "sup_inv s \<Longrightarrow> sv_stage s \<noteq> Registering \<Longrightarrow>
   sup_inv (fold (half_open_worker rd) ps s) \<and> evolves s (fold (half_open_worker rd) ps s) \<and>
   sv_stage (fold (half_open_worker rd) ps s) = sv_stage s"
proof (induction ps arbitrary: s)
  case (Cons p ps)
  have p: "sup_inv (half_open_worker rd p s)" "evolves s (half_open_worker rd p s)"
    using inv_half_open Cons.prems by blast+
  show ?case
    using Cons.IH [OF p(1)] p(2) Cons.prems(2) by (auto intro: evolves_trans)
qed simp

lemma quiet_time_out: "quiet s (time_out_worker rd t s)"
  unfolding time_out_worker_def by (rule quiet_trans [OF quiet_log quiet_cancel_handle])

lemma map_of_map_values: "map_of (map (\<lambda>(k, v). (k, f k v)) m) k = map_option (f k) (map_of m k)"
  by (induction m) auto

text \<open>The registered workers after their breakers were ticked.\<close>

definition ticked :: "readings \<Rightarrow> Supervisor \<Rightarrow> Supervisor" where
  "ticked rd s =
     s\<lparr>sv_registered := map (\<lambda>(w, r). (w, snd (tick_worker (rd_breaker rd w) r))) (sv_registered s)\<rparr>"

definition half_opened :: "readings \<Rightarrow> Supervisor \<Rightarrow> (WorkerId \<times> string) list" where
  "half_opened rd s =
     map (\<lambda>(w, r). (w, ws_name (rw_spec r)))
       (filter (\<lambda>(w, r). fst (tick_worker (rd_breaker rd w) r)) (sv_registered s))"

lemma tick_worker_keeps [simp]:
  "rw_spec (snd (tick_worker now r)) = rw_spec r" "rw_handle (snd (tick_worker now r)) = rw_handle r"
  by (auto simp: tick_worker_def Let_def case_prod_beta split: option.split)

lemma watchdog_tick_eq:
  "watchdog_tick rd s =
     fold (time_out_worker rd) (watchdog_check (watchdog_targets (sv_registered s)) (unix_nanos (rd_unix rd)))
       (fold (half_open_worker rd) (half_opened rd s) (ticked rd s))"
proof -
  let ?t = "map (\<lambda>(w, r). (w, tick_worker (rd_breaker rd w) r)) (sv_registered s)"
  have "map (\<lambda>(w, b, r). (w, ws_name (rw_spec r))) (filter (\<lambda>(w, b, r). b) ?t) = half_opened rd s"
    by (simp add: half_opened_def filter_map comp_def case_prod_unfold)
  moreover have "map (\<lambda>(w, b, r). (w, r)) ?t =
      map (\<lambda>(w, r). (w, snd (tick_worker (rd_breaker rd w) r))) (sv_registered s)"
    by (simp add: comp_def case_prod_unfold)
  ultimately show ?thesis
    by (simp only: watchdog_tick_def ticked_def Let_def)
qed

lemma get_ticked: "get_worker w (ticked rd s) =
    map_option (\<lambda>r. snd (tick_worker (rd_breaker rd w) r)) (get_worker w s)"
  by (simp add: ticked_def get_worker_def map_of_map_values)

lemma quiet_ticked: "quiet s (ticked rd s)"
proof -
  have "keys (sv_registered (ticked rd s)) = keys (sv_registered s)"
    by (simp add: ticked_def comp_def case_prod_beta)
  moreover have "evolves s (ticked rd s)"
    unfolding evolves_def get_ticked by (auto simp: keeps_worker_def ticked_def)
  ultimately show ?thesis
    by (simp only: quiet_def) (auto simp: get_ticked, simp_all add: ticked_def)
qed

lemma inv_watchdog_tick:
  assumes "sup_inv s" and "sv_stage s \<noteq> Registering"
  shows "sup_inv (watchdog_tick rd s) \<and> evolves s (watchdog_tick rd s)"
proof -
  let ?t = "ticked rd s" and ?h = "fold (half_open_worker rd) (half_opened rd s) (ticked rd s)"
  have t: "sup_inv ?t" "evolves s ?t" "sv_stage ?t \<noteq> Registering"
    using assms quiet_ticked [of s rd] inv_quiet by (auto simp: quiet_def)
  then have h: "sup_inv ?h" "evolves ?t ?h"
    using inv_fold_half_open by blast+
  have "quiet ?h (watchdog_tick rd s)"
    unfolding watchdog_tick_eq by (rule quiet_fold) (rule quiet_time_out)
  then show ?thesis
    using h t(2) inv_quiet unfolding quiet_def by (meson evolves_trans)
qed

lemma quiet_stop_worker: "quiet s (stop_worker rd w s)"
  unfolding stop_worker_def
  by (rule quiet_trans [OF quiet_trans [OF quiet_set_state quiet_cancel_handle] quiet_log])

lemma quiet_finish_worker: "quiet s (finish_worker rd w s)"
  unfolding finish_worker_def by (rule quiet_trans [OF quiet_set_state quiet_log])

lemma join_drained_inv:
  "sup_inv (snd cs) \<Longrightarrow> sup_inv (snd (join_drained p cs)) \<and> evolves (snd cs) (snd (join_drained p cs))"
  using inv_joined [of "snd cs" "fst p"]
  by (cases p; cases cs) (auto simp: join_drained_def evolves_def)

lemma fold_join_drained_inv:
  "sup_inv (snd cs) \<Longrightarrow> sup_inv (snd (fold join_drained joined cs)) \<and>
     evolves (snd cs) (snd (fold join_drained joined cs))"
proof (induction joined arbitrary: cs)
  case (Cons p joined)
  then have "sup_inv (snd (join_drained p cs))" "evolves (snd cs) (snd (join_drained p cs))"
    using join_drained_inv by blast+
  then show ?case
    using Cons.IH [of "join_drained p cs"] evolves_trans by auto
qed simp

lemma inv_shutdown_all:
  assumes "sup_inv s"
  shows "sup_inv (snd (shutdown_all rd joined s)) \<and> evolves s (snd (shutdown_all rd joined s))"
proof -
  let ?ids = "keys (sv_registered s)"
  let ?s1 = "fold (stop_worker rd) ?ids s"
  let ?s2 = "snd (fold join_drained joined ((0, 0), ?s1))"
  have q1: "quiet s ?s1"
    by (rule quiet_fold) (rule quiet_stop_worker)
  then have "sup_inv ?s2" "evolves ?s1 ?s2"
    using fold_join_drained_inv [of "((0, 0), ?s1)" joined] inv_quiet [OF assms] by simp_all
  moreover have "quiet ?s2 (fold (finish_worker rd) ?ids ?s2)"
    by (rule quiet_fold) (rule quiet_finish_worker)
  ultimately have "sup_inv (fold (finish_worker rd) ?ids ?s2)" "evolves s (fold (finish_worker rd) ?ids ?s2)"
    using q1 inv_quiet unfolding quiet_def by (blast intro: evolves_trans)+
  then show ?thesis
    by (simp add: shutdown_all_def Let_def case_prod_beta)
qed

lemma register_fresh: "sup_inv s \<Longrightarrow> get_worker (WorkerId (ig_next (sv_id_gen s))) s = None"
  unfolding sup_inv_def by (metis WorkerId.sel less_irrefl not_None_eq)

lemma inv_register:
  assumes inv: "sup_inv s" and "ig_next (sv_id_gen s) \<noteq> - 1"
  shows "sup_inv (snd (register_inner spec runner s)) \<and> evolves s (snd (register_inner spec runner s))"
proof -
  let ?g = "ig_next (sv_id_gen s)"
  have less: "?g < ?g + 1"
    using assms(2) by (rule less_plus_one)
  have ids: "x < ?g + 1" if "x < ?g" for x
    using that less by (rule less_trans)
  have fresh: "get_worker (WorkerId ?g) s = None"
    using inv by (rule register_fresh)
  then show ?thesis
    using inv less ids
    by (auto simp: register_inner_def next_worker_id_def id_fetch_add_def Let_def sup_inv_def
        evolves_def WorkerHandle_new_def)
qed

lemma spawn_one_vals: "set (vals (sv_tasks (spawn_one rd w s))) \<subseteq> insert w (set (vals (sv_tasks s)))"
proof (cases "get_worker w s")
  case None
  then show ?thesis
    by (auto simp: spawn_one_def)
qed (auto simp: spawn_one_tasks)

lemma spawn_all_inv:
  "sup_inv s \<Longrightarrow> sv_stage s \<noteq> Registering \<Longrightarrow> distinct ids \<Longrightarrow> set ids \<inter> set (vals (sv_tasks s)) = {} \<Longrightarrow>
   sup_inv (fold (spawn_one rd) ids s) \<and> evolves s (fold (spawn_one rd) ids s)"
proof (induction ids arbitrary: s)
  case (Cons w ids)
  have "sup_inv (spawn_one rd w s)"
    using Cons.prems by (intro inv_spawn) auto
  moreover have "set ids \<inter> set (vals (sv_tasks (spawn_one rd w s))) = {}"
    using Cons.prems(3,4) spawn_one_vals [of rd w s] by (simp only: list.set distinct.simps) blast
  ultimately have "sup_inv (fold (spawn_one rd) ids (spawn_one rd w s)) \<and>
      evolves (spawn_one rd w s) (fold (spawn_one rd) ids (spawn_one rd w s))"
    using Cons.prems(2,3) by (intro Cons.IH) auto
  then show ?case
    using spawn_one_evolves(1) [of s rd w] by (auto intro: evolves_trans)
qed simp

lemma inv_start_run:
  assumes inv: "sup_inv s" and "sv_stage s = Registering"
  shows "sup_inv (start_run rd s) \<and> evolves s (start_run rd s)"
proof -
  let ?s = "s\<lparr>sv_stage := Looping\<rparr>"
  have "sup_inv ?s" "evolves s ?s"
    using inv by (auto simp: sup_inv_def evolves_def)
  moreover have "sup_inv (fold (spawn_one rd) (keys (sv_registered s)) ?s) \<and>
      evolves ?s (fold (spawn_one rd) (keys (sv_registered s)) ?s)"
    using \<open>sup_inv ?s\<close> inv assms(2) by (intro spawn_all_inv) (auto simp: sup_inv_def)
  ultimately show ?thesis
    unfolding start_run_def by (auto intro: evolves_trans)
qed

lemma inv_join_task:
  assumes inv: "sup_inv s" and "(t, w) \<in> set (sv_tasks s)" and "sv_stage s \<noteq> Registering"
  shows "sup_inv (join_task rd t w outcome s) \<and> evolves s (join_task rd t w outcome s)"
proof -
  let ?s = "s\<lparr>sv_tasks := AList.delete t (sv_tasks s),
    sv_task_to_worker := AList.delete t (sv_task_to_worker s)\<rparr>"
  have s: "sup_inv ?s" "evolves s ?s"
    using inv_joined [OF inv] by (simp_all add: evolves_def)
  moreover have "sup_inv (handle_outcome rd w out ?s) \<and> evolves ?s (handle_outcome rd w out ?s)" for out
    using s(1) joined_idle [OF inv assms(2)] assms(3) by (intro inv_outcome) simp_all
  ultimately show ?thesis
    by (auto simp: join_task_def Let_def split: option.split intro: evolves_trans)
qed

lemma quiet_step: "sup_inv s \<Longrightarrow> quiet s s' \<Longrightarrow> sup_inv s' \<and> evolves s s'"
  using inv_quiet by (auto simp: quiet_def)

lemma inv_rehash:
  assumes "sup_inv s" and "distinct (keys m)" and "set m = set (sv_registered s)"
  shows "sup_inv (s\<lparr>sv_registered := m\<rparr>) \<and> evolves s (s\<lparr>sv_registered := m\<rparr>)"
proof -
  have "map_of m = map_of (sv_registered s)"
    using assms by (simp add: sup_inv_def map_of_inject_set)
  then have "get_worker w (s\<lparr>sv_registered := m\<rparr>) = get_worker w s" for w
    by (simp add: get_worker_def)
  with assms show ?thesis
    by (auto simp: sup_inv_def evolves_def)
qed

lemma sup_inv_step:
  assumes inv: "sup_inv s" and "sup_step s s'"
  shows "sup_inv s' \<and> evolves s s'"
  using assms(2)
proof cases
  case (register spec runner)
  then show ?thesis
    using inv_register [OF inv] by simp
next
  case (start rd)
  then show ?thesis
    using inv_start_run [OF inv] by simp
next
  case (joined tid w rd outcome)
  then show ?thesis
    using inv_join_task [OF inv] by simp
next
  case (tick rd)
  then show ?thesis
    using inv_watchdog_tick [OF inv] by simp
next
  case (shut_down joined rd)
  have "sup_inv (t\<lparr>sv_stage := Finished_run\<rparr>) \<and> evolves t (t\<lparr>sv_stage := Finished_run\<rparr>)"
    if "sup_inv t" for t
    using that by (auto simp: sup_inv_def evolves_def)
  then show ?thesis
    using shut_down(1) inv_shutdown_all [OF inv] evolves_trans by blast
next
  case (heartbeat w r since_epoch)
  then show ?thesis
    by (intro quiet_step [OF inv]) (simp add: quiet_put keeps_worker_def)
next
  case (cancel_handle w)
  then show ?thesis
    by (intro quiet_step [OF inv]) simp
next
  case cancel
  then show ?thesis
    by (intro quiet_step [OF inv]) simp
next
  case (report_health name st now h fx)
  then show ?thesis
    by (intro quiet_step [OF inv]) (auto intro: quiet_trans [OF quiet_fields(2) quiet_log])
next
  case signal_shutdown
  then show ?thesis
    by (intro quiet_step [OF inv]) simp
next
  case (rehash m)
  then show ?thesis
    using inv_rehash [OF inv] by simp
qed

definition sup_start :: "Supervisor \<Rightarrow> bool" where
  "sup_start s \<longleftrightarrow> (\<exists>health shutdown. s = Supervisor_new health shutdown)"

interpretation supervisor: invariant_system sup_start sup_step sup_inv
proof
  show "sup_inv s" if "sup_start s" for s
    using that by (auto simp: sup_start_def sup_inv_def Supervisor_new_def get_worker_def)
  show "sup_inv s \<Longrightarrow> sup_step s t \<Longrightarrow> sup_inv t" for s t
    using sup_inv_step by blast
qed

text \<open>
  C6: Whatever is registered and in whatever order tasks end, ticks fire and cancellations arrive,
  a worker never has two tasks in flight, every task in flight belongs to a registered worker, and
  the map from task ids to workers, which \<open>spawn_one_if_idle\<close> and the panic path rely on, is the
  join set itself.
\<close>

theorem one_task_per_worker:
  assumes "sup_start s0" and "sup_step\<^sup>*\<^sup>* s0 s"
  shows "distinct (vals (sv_tasks s)) \<and> set (vals (sv_tasks s)) \<subseteq> set (keys (sv_registered s)) \<and>
    sv_task_to_worker s = sv_tasks s \<and> distinct (keys (sv_registered s))"
proof -
  have inv: "sup_inv s"
    using assms by (rule supervisor.inv_reachable)
  then have "w \<in> set (keys (sv_registered s))" if "w \<in> set (vals (sv_tasks s))" for w
    using that unfolding sup_inv_def get_worker_def by (metis map_of_keys_None)
  with inv show ?thesis
    by (auto simp: sup_inv_def)
qed

definition demo_readings :: "duration \<Rightarrow> readings" where
  "demo_readings d =
     \<lparr>rd_event = \<lambda>_. 0, rd_breaker = \<lambda>_. 0, rd_circuit = \<lambda>_. 0, rd_restart = \<lambda>_. 0, rd_started = \<lambda>_. 0,
      rd_health = \<lambda>_. 0, rd_timeout = \<lambda>_. 0, rd_stopping = \<lambda>_. 0, rd_stopped = \<lambda>_. 0,
      rd_unix = Some d, rd_cancelled_in_backoff = False\<rparr>"

text \<open>A supervisor with one worker, started.\<close>

definition demo_supervisor :: "WorkerSpec \<Rightarrow> Supervisor" where
  "demo_supervisor spec =
     start_run (demo_readings 1)
       (snd (register_inner spec SyncRunner (Supervisor_new HealthRegistry_new ShutdownInner_new)))"

lemma demo_supervisor_worker:
  "sv_tasks (demo_supervisor spec) = [(0, WorkerId 0)] \<and> sv_stage (demo_supervisor spec) = Looping \<and>
   \<not> sv_cancelled (demo_supervisor spec) \<and> sv_spawned (demo_supervisor spec) = 1 \<and>
   get_worker (WorkerId 0) (demo_supervisor spec) = Some
     \<lparr>rw_handle = handle_set_state WRunning (WorkerHandle_new (WorkerId 0) (ws_name spec) False),
      rw_spec = spec, rw_runner = SyncRunner, rw_last_heartbeat = 0, rw_attempts = 0,
      rw_circuit = map_option CircuitBreaker_new (ws_circuit spec)\<rparr> \<and>
   sv_log (demo_supervisor spec) = [WEv (Ev_Started (WorkerId 0) (ws_name spec) 0)]"
proof -
  let ?s = "snd (register_inner spec SyncRunner (Supervisor_new HealthRegistry_new ShutdownInner_new))"
  have "keys (sv_registered ?s) = [WorkerId 0]" "get_worker (WorkerId 0) ?s = Some
     \<lparr>rw_handle = WorkerHandle_new (WorkerId 0) (ws_name spec) False, rw_spec = spec,
      rw_runner = SyncRunner, rw_last_heartbeat = 0, rw_attempts = 0,
      rw_circuit = map_option CircuitBreaker_new (ws_circuit spec)\<rparr>"
    by (simp_all add: register_inner_def Supervisor_new_def next_worker_id_def id_fetch_add_def
        IdGenerator_new_def put_worker_def get_worker_def)
  moreover have "sv_tasks ?s = []" "sv_spawned ?s = 0" "\<not> sv_cancelled ?s" "sv_log ?s = []"
    by (simp_all add: register_inner_def Supervisor_new_def Let_def case_prod_beta)
  ultimately show ?thesis
    by (simp add: demo_supervisor_def start_run_def spawn_one_def Let_def demo_readings_def
        handle_set_state_def)
qed

lemma demo_supervisor_reachable:
  "sup_step\<^sup>*\<^sup>* (Supervisor_new HealthRegistry_new ShutdownInner_new) (demo_supervisor spec)"
proof -
  let ?s0 = "Supervisor_new HealthRegistry_new ShutdownInner_new"
  let ?s1 = "snd (register_inner spec SyncRunner ?s0)"
  have "sup_step ?s0 ?s1"
    by (rule sup_step.register) (simp_all add: Supervisor_new_def IdGenerator_new_def)
  moreover have "sup_step ?s1 (demo_supervisor spec)"
    unfolding demo_supervisor_def
    by (rule sup_step.start) (simp add: register_inner_def Supervisor_new_def Let_def case_prod_beta)
  ultimately show ?thesis
    by (meson converse_rtranclp_into_rtranclp rtranclp.rtrancl_refl)
qed

lemma demo_supervisor_inv: "sup_inv (demo_supervisor spec)"
  by (rule supervisor.inv_reachable [OF _ demo_supervisor_reachable]) (auto simp: sup_start_def)

theorem one_task_per_worker_witness:
  "sup_step\<^sup>*\<^sup>* (Supervisor_new HealthRegistry_new ShutdownInner_new) (demo_supervisor WorkerSpec_default) \<and>
   vals (sv_tasks (demo_supervisor WorkerSpec_default)) = [WorkerId 0] \<and>
   WorkerId 0 \<in> set (keys (sv_registered (demo_supervisor WorkerSpec_default)))"
  using one_task_per_worker [OF _ demo_supervisor_reachable, of WorkerSpec_default]
    demo_supervisor_reachable demo_supervisor_worker [of WorkerSpec_default]
  by (auto simp: sup_start_def)

end
