(* ===== verification/Supervisor_Properties.thy ===== *)
theory Supervisor_Properties
  imports Supervisor
begin

text \<open>
  What the supervisor does with an outcome, a watchdog tick and a shutdown: when a worker runs
  again, what a failure that is not restarted does to the kernel, what a cancellation means for
  later runs, and what the drain leaves behind.
\<close>

section \<open>Restart or stop\<close>

definition worker_state :: "WorkerId \<Rightarrow> Supervisor \<Rightarrow> WorkerState option" where
  "worker_state w s = map_option (\<lambda>r. handle_state (rw_handle r)) (get_worker w s)"

definition in_flight :: "WorkerId \<Rightarrow> Supervisor \<Rightarrow> bool" where
  "in_flight w s \<longleftrightarrow> w \<in> set (vals (sv_tasks s))"

lemma handle_set_state_twice [simp]: "handle_set_state a (handle_set_state b h) = handle_set_state a h"
  by (simp add: handle_set_state_def)

lemma spawn_one_result:
  assumes "get_worker w s = Some r"
  shows "in_flight w (spawn_one rd w s)" "worker_state w (spawn_one rd w s) = Some WRunning"
    "get_worker w (spawn_one rd w s) = Some (r\<lparr>rw_handle := handle_set_state WRunning (rw_handle r)\<rparr>)"
  using assms by (auto simp: in_flight_def worker_state_def spawn_one_def Let_def)

lemma apply_criticality_worker [simp]:
  "get_worker w (apply_criticality now name c s) = get_worker w s"
  "sv_tasks (apply_criticality now name c s) = sv_tasks s"
  "sv_cancelled (apply_criticality now name c s) = sv_cancelled s"
  by (cases c; simp add: case_prod_beta Let_def)+

lemma apply_criticality_effects:
  "sv_shutdown (apply_criticality now name c s) =
     (if c = CriticalWorker then ShutdownHandle_signal (sv_shutdown s) else sv_shutdown s)"
  "sv_health (apply_criticality now name c s) =
     (case c of Essential \<Rightarrow> fst (report name H_Unhealthy now (sv_health s))
      | Optional \<Rightarrow> fst (report name H_Degraded now (sv_health s)) | _ \<Rightarrow> sv_health s)"
  by (cases c; simp add: case_prod_beta Let_def)+

lemma restart_or_stop_restarted:
  assumes "get_worker w s = Some r" and "\<not> rd_cancelled_in_backoff rd"
  shows "in_flight w (restart_or_stop rd w f True delay n name c s)"
    "get_worker w (restart_or_stop rd w f True delay n name c s) =
       Some (r\<lparr>rw_handle := handle_set_state WRunning (rw_handle r)\<rparr>)"
    "sv_shutdown (restart_or_stop rd w f True delay n name c s) = sv_shutdown s"
    "sv_health (restart_or_stop rd w f True delay n name c s) = sv_health s"
    "sv_cancelled (restart_or_stop rd w f True delay n name c s) = sv_cancelled s"
proof -
  define s2 where "s2 = log_fx [WEv (Ev_Restarted w name (saturating_add n 1) (rd_restart rd w)),
    Counter WORKERS_RESTARTED 1 [(''worker'', name)]] (set_worker_state WRestarting w s)"
  have eq: "restart_or_stop rd w f True delay n name c s = spawn_one rd w s2"
    using assms(2) by (simp add: restart_or_stop_def s2_def Let_def)
  have s2: "get_worker w s2 = Some (r\<lparr>rw_handle := handle_set_state WRestarting (rw_handle r)\<rparr>)"
    "sv_shutdown s2 = sv_shutdown s" "sv_health s2 = sv_health s" "sv_cancelled s2 = sv_cancelled s"
    using assms(1) by (simp_all add: s2_def)
  show "in_flight w (restart_or_stop rd w f True delay n name c s)"
    "get_worker w (restart_or_stop rd w f True delay n name c s) =
       Some (r\<lparr>rw_handle := handle_set_state WRunning (rw_handle r)\<rparr>)"
    "sv_shutdown (restart_or_stop rd w f True delay n name c s) = sv_shutdown s"
    "sv_health (restart_or_stop rd w f True delay n name c s) = sv_health s"
    "sv_cancelled (restart_or_stop rd w f True delay n name c s) = sv_cancelled s"
    using spawn_one_result [OF s2(1), of rd] s2(2-) by (simp_all add: eq)
qed

lemma restart_or_stop_stopped:
  assumes "get_worker w s = Some r"
  shows "sv_tasks (restart_or_stop rd w f False delay n name c s) = sv_tasks s"
    "worker_state w (restart_or_stop rd w f False delay n name c s) = Some WStopped"
    "sv_shutdown (restart_or_stop rd w f False delay n name c s) =
       (if f \<and> c = CriticalWorker then ShutdownHandle_signal (sv_shutdown s) else sv_shutdown s)"
    "sv_health (restart_or_stop rd w f False delay n name c s) =
       (if f then case c of Essential \<Rightarrow> fst (report name H_Unhealthy (rd_health rd w) (sv_health s))
                          | Optional \<Rightarrow> fst (report name H_Degraded (rd_health rd w) (sv_health s))
                          | _ \<Rightarrow> sv_health s
        else sv_health s)"
    "sv_cancelled (restart_or_stop rd w f False delay n name c s) = sv_cancelled s"
    "get_worker w (restart_or_stop rd w f False delay n name c s) =
       Some (r\<lparr>rw_handle := handle_set_state WStopped (rw_handle r)\<rparr>)"
  using assms by (simp_all add: restart_or_stop_def Let_def apply_criticality_effects worker_state_def
      split: Criticality.split)

text \<open>The state of an idle worker and of the kernel after an outcome of that worker.\<close>

lemma outcome_restarted:
  assumes r: "get_worker w s = Some r" and re: "restarts rd w (out \<noteq> Completed) r"
    and nc: "\<not> rd_cancelled_in_backoff rd"
  shows "in_flight w (handle_outcome rd w out s) \<and>
    get_worker w (handle_outcome rd w out s) =
       Some ((after_outcome rd w (out \<noteq> Completed) r)\<lparr>rw_handle :=
         handle_set_state WRunning (rw_handle (after_outcome rd w (out \<noteq> Completed) r))\<rparr>) \<and>
    sv_shutdown (handle_outcome rd w out s) = sv_shutdown s \<and>
    sv_health (handle_outcome rd w out s) = sv_health s \<and>
    sv_cancelled (handle_outcome rd w out s) = sv_cancelled s"
proof (rule handle_outcome_decides [OF r, of rd out])
  fix s1
  assume eq: "handle_outcome rd w out s =
       restart_or_stop rd w (out \<noteq> Completed) (restarts rd w (out \<noteq> Completed) r)
         (backoff_delay (failures_after rd (out \<noteq> Completed) r) (ws_backoff (rw_spec r)))
         (failures_after rd (out \<noteq> Completed) r) (ws_name (rw_spec r)) (ws_criticality (rw_spec r)) s1"
    and s1: "get_worker w s1 = Some (after_outcome rd w (out \<noteq> Completed) r)"
      "sv_cancelled s1 = sv_cancelled s" "sv_shutdown s1 = sv_shutdown s" "sv_health s1 = sv_health s"
  show ?thesis
    unfolding eq re [THEN Eq_TrueI] restart_or_stop_restarted [OF s1(1) nc] s1(2-)
    by (simp add: restart_or_stop_restarted(1) [OF s1(1) nc])
qed

lemma outcome_stopped:
  assumes r: "get_worker w s = Some r" and re: "\<not> restarts rd w (out \<noteq> Completed) r"
  shows "sv_tasks (handle_outcome rd w out s) = sv_tasks s \<and>
    worker_state w (handle_outcome rd w out s) = Some WStopped \<and>
    sv_shutdown (handle_outcome rd w out s) =
       (if out \<noteq> Completed \<and> ws_criticality (rw_spec r) = CriticalWorker
        then ShutdownHandle_signal (sv_shutdown s) else sv_shutdown s) \<and>
    sv_health (handle_outcome rd w out s) =
       (if out \<noteq> Completed
        then case ws_criticality (rw_spec r) of
               Essential \<Rightarrow> fst (report (ws_name (rw_spec r)) H_Unhealthy (rd_health rd w) (sv_health s))
             | Optional \<Rightarrow> fst (report (ws_name (rw_spec r)) H_Degraded (rd_health rd w) (sv_health s))
             | _ \<Rightarrow> sv_health s
        else sv_health s) \<and>
    sv_cancelled (handle_outcome rd w out s) = sv_cancelled s \<and>
    get_worker w (handle_outcome rd w out s) =
       Some ((after_outcome rd w (out \<noteq> Completed) r)\<lparr>rw_handle :=
         handle_set_state WStopped (rw_handle (after_outcome rd w (out \<noteq> Completed) r))\<rparr>)"
proof (rule handle_outcome_decides [OF r, of rd out])
  fix s1
  assume eq: "handle_outcome rd w out s =
       restart_or_stop rd w (out \<noteq> Completed) (restarts rd w (out \<noteq> Completed) r)
         (backoff_delay (failures_after rd (out \<noteq> Completed) r) (ws_backoff (rw_spec r)))
         (failures_after rd (out \<noteq> Completed) r) (ws_name (rw_spec r)) (ws_criticality (rw_spec r)) s1"
    and q: "quiet s s1" and s1: "get_worker w s1 = Some (after_outcome rd w (out \<noteq> Completed) r)"
      "sv_cancelled s1 = sv_cancelled s" "sv_shutdown s1 = sv_shutdown s" "sv_health s1 = sv_health s"
  have t: "sv_tasks s1 = sv_tasks s"
    using q by (simp add: quiet_def)
  show ?thesis
    unfolding eq re [THEN Eq_FalseI] restart_or_stop_stopped [OF s1(1)] s1(2-) t by (intro conjI refl)
qed

text \<open>The state in which a joined task's outcome is handled.\<close>

abbreviation without_task :: "nat \<Rightarrow> Supervisor \<Rightarrow> Supervisor" where
  "without_task t s \<equiv> s\<lparr>sv_tasks := AList.delete t (sv_tasks s),
     sv_task_to_worker := AList.delete t (sv_task_to_worker s)\<rparr>"

lemma task_worker_registered:
  "sup_inv s \<Longrightarrow> (t, w) \<in> set (sv_tasks s) \<Longrightarrow> \<exists>r. get_worker w s = Some r"
  by (force simp: sup_inv_def)


lemma demo_shutdown [simp]: "sv_shutdown (demo_supervisor spec) = ShutdownInner_new"
  by (simp add: demo_supervisor_def start_run_def register_inner_def Supervisor_new_def Let_def
      next_worker_id_def id_fetch_add_def IdGenerator_new_def put_worker_def)


section \<open>Counting restarts\<close>

definition unix_of :: "readings \<Rightarrow> int" where
  "unix_of rd = (case rd_unix rd of Some d \<Rightarrow> int d | None \<Rightarrow> 0)"

text \<open>A failure of the worker's task, if it has one.\<close>

definition crash :: "WorkerId \<Rightarrow> WorkerError \<Rightarrow> readings \<Rightarrow> Supervisor \<Rightarrow> Supervisor" where
  "crash w e rd s =
     (case map_of (map prod.swap (sv_tasks s)) w of
        Some tid \<Rightarrow> join_task rd tid w (Some (FailedWith e)) s
      | None \<Rightarrow> s)"

lemma unix_nanos_valid: "valid_unix (unix_of rd) \<Longrightarrow> unix_nanos (rd_unix rd) = word_of_int (unix_of rd)"
proof (cases "rd_unix rd")
  case (Some d)
  assume "valid_unix (unix_of rd)"
  then have d: "d < 2 ^ 63"
    by (simp add: unix_of_def valid_unix_def Some)
  then have "unat (min (as_nanos d) i64_max) = d"
    by (simp add: unat_min unat_i64_max unat_as_nanos duration_max_value)
  then have "(ucast (min (as_nanos d) i64_max) :: i64) = word_of_nat d"
    by (metis unsigned_of_nat ucast_id of_nat_unat unsigned_ucast_eq)
  then show ?thesis
    by (simp add: unix_nanos_def unix_of_def Some)
qed (simp add: unix_of_def valid_unix_def)

lemma sint_failure_window: "sint FAILURE_WINDOW_NANOS = 60000000000"
  by (simp add: FAILURE_WINDOW_NANOS_def)

text \<open>The failures the handle would go on counting from, and the next count.\<close>

definition burst_so_far :: "WorkerHandle \<Rightarrow> nat" where
  "burst_so_far h = (if latest_failure h = None then 0 else unat (wh_failures_in_window h))"

lemma next_failure_count:
  assumes "valid_unix now" and "Suc (burst_so_far h) < 2 ^ 32"
    and "case latest_failure h of None \<Rightarrow> True | Some t \<Rightarrow> valid_unix t \<and> now - t \<le> 60000000000"
  shows "unat (fst (handle_record_failure FAILURE_WINDOW_NANOS (word_of_int now) h)) = Suc (burst_so_far h)"
    and "burst_so_far (snd (handle_record_failure FAILURE_WINDOW_NANOS (word_of_int now) h)) = Suc (burst_so_far h)"
    and "latest_failure (snd (handle_record_failure FAILURE_WINDOW_NANOS (word_of_int now) h)) = Some now"
proof -
  let ?b = "handle_record_failure FAILURE_WINDOW_NANOS (word_of_int now) h"
  have count: "unat (fst ?b) = Suc (burst_so_far h)"
  proof (cases "latest_failure h")
    case None
    then show ?thesis
      using handle_window.bump_first [OF assms(1) None, of FAILURE_WINDOW_NANOS]
      by (simp add: burst_so_far_def)
  next
    case (Some t)
    then show ?thesis
      using handle_window.bump_within [where now = now and t = t and s = h and w = FAILURE_WINDOW_NANOS]
        assms by (simp add: burst_so_far_def sint_failure_window)
  qed
  moreover have "unat (wh_failures_in_window (snd ?b)) = unat (fst ?b)"
    using handle_window.count_bump [of FAILURE_WINDOW_NANOS now h] by simp
  moreover have latest: "latest_failure (snd ?b) = Some now"
    using handle_window.latest_bump [OF assms(1), of FAILURE_WINDOW_NANOS h] by simp
  ultimately show "unat (fst ?b) = Suc (burst_so_far h)" "burst_so_far (snd ?b) = Suc (burst_so_far h)"
    "latest_failure (snd ?b) = Some now"
    by (simp_all add: burst_so_far_def)
qed

lemma latest_failure_set_state [simp]:
  "latest_failure (handle_set_state st h) = latest_failure h"
  "burst_so_far (handle_set_state st h) = burst_so_far h"
  by (simp_all add: latest_failure_def burst_so_far_def)

text \<open>A worker in flight under \<open>MaxRetries n\<close>, with \<open>k\<close> failures in its burst, the last at \<open>lf\<close>.\<close>

definition crashing :: "WorkerId \<Rightarrow> u32 \<Rightarrow> nat \<Rightarrow> int option \<Rightarrow> Supervisor \<Rightarrow> bool" where
  "crashing w n k lf s \<longleftrightarrow> sup_inv s \<and> in_flight w s \<and>
     (\<exists>r win. get_worker w s = Some r \<and> ws_restart (rw_spec r) = MaxRetries n win \<and> rw_circuit r = None \<and>
        burst_so_far (rw_handle r) = k \<and> latest_failure (rw_handle r) = lf)"

lemma crash_not_in_flight:
  assumes "\<not> in_flight w s"
  shows "crash w e rd s = s"
proof -
  have "map_of (map prod.swap (sv_tasks s)) w = None"
    using assms by (auto simp: in_flight_def map_of_eq_None_iff image_iff)
  then show ?thesis
    by (simp add: crash_def)
qed

lemma fold_crash_not_in_flight: "\<not> in_flight w s \<Longrightarrow> fold (crash w e) rds s = s"
  by (induction rds) (simp_all add: crash_not_in_flight)

lemma crash_task:
  assumes "sup_inv s" and "in_flight w s"
  obtains tid where "(tid, w) \<in> set (sv_tasks s)"
    "crash w e rd s = handle_outcome rd w (FailedWith e) (without_task tid s)"
proof -
  have "distinct (keys (map prod.swap (sv_tasks s)))"
    using assms(1) by (simp add: sup_inv_def comp_def)
  moreover obtain tid where "(tid, w) \<in> set (sv_tasks s)"
    using assms(2) by (auto simp: in_flight_def)
  ultimately have "map_of (map prod.swap (sv_tasks s)) w = Some tid"
    by (intro map_of_is_SomeI) (force simp: image_iff)+
  then show ?thesis
    using that [of tid] \<open>(tid, w) \<in> set (sv_tasks s)\<close> by (simp add: crash_def join_task_def)
qed

lemma crash_step:
  assumes c: "crashing w n k lf s" and v: "valid_unix (unix_of rd)" and nc: "\<not> rd_cancelled_in_backoff rd"
    and near: "case lf of None \<Rightarrow> True | Some t \<Rightarrow> valid_unix t \<and> unix_of rd - t \<le> 60000000000"
    and small: "Suc k < 2 ^ 32"
  shows "if Suc k < unat n then crashing w n (Suc k) (Some (unix_of rd)) (crash w e rd s)
         else \<not> in_flight w (crash w e rd s)"
proof -
  obtain r win where r: "get_worker w s = Some r" "ws_restart (rw_spec r) = MaxRetries n win"
    "rw_circuit r = None" "burst_so_far (rw_handle r) = k" "latest_failure (rw_handle r) = lf"
    and inv: "sup_inv s" and fl: "in_flight w s"
    using c by (auto simp: crashing_def)
  obtain tid where t: "(tid, w) \<in> set (sv_tasks s)"
    "crash w e rd s = handle_outcome rd w (FailedWith e) (without_task tid s)"
    using crash_task [OF inv fl] by metis
  let ?s = "without_task tid s" and ?h = "handle_record_failure FAILURE_WINDOW_NANOS (word_of_int (unix_of rd)) (rw_handle r)"
  have inv': "sup_inv ?s"
    using inv by (rule inv_joined)
  have idle: "w \<notin> set (vals (sv_tasks ?s))"
    using joined_idle [OF inv t(1)] by simp
  have st: "sv_stage ?s \<noteq> Registering"
    using inv t(1) by (auto simp: sup_inv_def)
  have r': "get_worker w ?s = Some r"
    using r(1) by simp
  have h: "unat (fst ?h) = Suc k" "burst_so_far (snd ?h) = Suc k" "latest_failure (snd ?h) = Some (unix_of rd)"
    using next_failure_count [OF v, of "rw_handle r"] r(4,5) near small by simp_all
  have fa: "failures_after rd True r = fst ?h"
    by (simp add: failures_after_def unix_nanos_valid [OF v])
  have re: "restarts rd w (FailedWith e \<noteq> Completed) r \<longleftrightarrow> Suc k < unat n"
    using h(1) by (simp add: restarts_def fa r(2,3) circuit_after_def word_less_nat_alt)
  show ?thesis
  proof (cases "Suc k < unat n")
    case True
    have "sup_inv (crash w e rd s)"
      using inv_outcome [OF inv' idle st] by (simp add: t(2))
    then show ?thesis
      using outcome_restarted [OF r' re [THEN iffD2, OF True] nc] True r h
      by (simp add: crashing_def t(2) after_outcome_def circuit_after_def unix_nanos_valid [OF v])
  next
    case False
    then show ?thesis
      using outcome_stopped [OF r', of rd "FailedWith e"] re idle by (auto simp: t(2) in_flight_def)
  qed
qed

definition one_minute :: int where
  "one_minute = 60000000000"

lemma crash_burst:
  assumes "crashing w n 0 None s"
    and "list_all (\<lambda>rd. valid_unix (unix_of rd) \<and> \<not> rd_cancelled_in_backoff rd) rds"
    and "successively (\<lambda>a b. unix_of b - unix_of a \<le> one_minute) rds"
    and "rds \<noteq> []" and "length rds < unat n"
  shows "crashing w n (length rds) (Some (unix_of (last rds))) (fold (crash w e) rds s)"
  using assms(2-5)
proof (induction rds rule: rev_induct)
  case Nil
  then show ?case by simp
next
  case (snoc rd rds)
  have small: "Suc (length rds) < 2 ^ 32"
    using snoc.prems(4) unsigned_less [of n, where 'a = nat] by simp
  show ?case
  proof (cases "rds = []")
    case True
    then show ?thesis
      using crash_step [OF assms(1), of rd e] snoc.prems by simp
  next
    case False
    then have IH: "crashing w n (length rds) (Some (unix_of (last rds))) (fold (crash w e) rds s)"
      using snoc by (auto simp: successively_append_iff)
    have "valid_unix (unix_of (last rds))" "unix_of rd - unix_of (last rds) \<le> 60000000000"
      using False snoc.prems(1,2) by (auto simp: successively_append_iff list_all_iff one_minute_def)
    then show ?thesis
      using crash_step [OF IH, of rd e] snoc.prems small by simp
  qed
qed



section \<open>Cancellation\<close>

abbreviation live_step :: "Supervisor \<Rightarrow> Supervisor \<Rightarrow> bool" where
  "live_step s t \<equiv> sup_inv s \<and> sup_step s t"

interpretation supervisor_token: latch_system "\<lambda>s. s\<lparr>sv_cancelled := True\<rparr>" sv_cancelled live_step
  using sup_inv_step by unfold_locales (auto simp: evolves_def)

interpretation kernel_signal: latch_system
  "\<lambda>s. s\<lparr>sv_shutdown := ShutdownHandle_signal (sv_shutdown s)\<rparr>"
  "\<lambda>s. ShutdownHandle_is_signalled (sv_shutdown s)" live_step
proof
  show "ShutdownHandle_is_signalled (sv_shutdown (s\<lparr>sv_shutdown := ShutdownHandle_signal (sv_shutdown s)\<rparr>))"
    for s :: Supervisor
    by (simp add: shutdown_flag.raise_raises)
  show "ShutdownHandle_is_signalled (sv_shutdown s) \<Longrightarrow>
      s\<lparr>sv_shutdown := ShutdownHandle_signal (sv_shutdown s)\<rparr> = s" for s :: Supervisor
    by (simp add: shutdown_flag.raise_again)
  show "ShutdownHandle_is_signalled (sv_shutdown s) \<Longrightarrow> live_step s t \<Longrightarrow>
      ShutdownHandle_is_signalled (sv_shutdown t)" for s t
    using sup_inv_step by (auto simp: evolves_def)
qed

lemma evolves_steps: "sup_step\<^sup>*\<^sup>* s t \<Longrightarrow> sup_inv s \<Longrightarrow> sup_inv t \<and> evolves s t"
proof (induction rule: rtranclp_induct)
  case (step t u)
  then show ?case
    using sup_inv_step [of t u] evolves_trans [of s t u] by blast
qed simp

lemma live_steps: "sup_step\<^sup>*\<^sup>* s t \<Longrightarrow> sup_inv s \<Longrightarrow> live_step\<^sup>*\<^sup>* s t"
proof (induction rule: rtranclp_induct)
  case (step t u)
  then show ?case
    using evolves_steps [of s t] by (auto intro: rtranclp.rtrancl_into_rtrancl)
qed simp

text \<open>
  The supervisor's token and the kernel's shutdown signal are one-way: once raised, every state
  the supervisor reaches has them raised, and every context handed to a worker from then on reads
  cancelled.
\<close>

theorem cancellation_is_one_way:
  assumes "sup_start s0" and "sup_step\<^sup>*\<^sup>* s0 s" and "sup_step\<^sup>*\<^sup>* s s'"
  shows "(sv_cancelled s \<longrightarrow> sv_cancelled s' \<and> ctx_cancelled (spawn_context w r s')) \<and>
    (ShutdownHandle_is_signalled (sv_shutdown s) \<longrightarrow> ShutdownHandle_is_signalled (sv_shutdown s'))"
proof -
  have "live_step\<^sup>*\<^sup>* s s'"
    using live_steps [OF assms(3)] supervisor.inv_reachable [OF assms(1,2)] .
  then show ?thesis
    using supervisor_token.raised_forever [of s s'] kernel_signal.raised_forever [of s s']
    by (auto simp: spawn_context_def WorkerContext_new_def)
qed

theorem cancellation_is_one_way_witness:
  "let s = (demo_supervisor WorkerSpec_default)\<lparr>sv_cancelled := True\<rparr>
   in ctx_cancelled (spawn_context (WorkerId 0) (the (get_worker (WorkerId 0) s)) (on_handle handle_cancel (WorkerId 0) s))"
proof -
  let ?d = "demo_supervisor WorkerSpec_default"
  have "sup_step\<^sup>*\<^sup>* (Supervisor_new HealthRegistry_new ShutdownInner_new) (?d\<lparr>sv_cancelled := True\<rparr>)"
    using demo_supervisor_reachable sup_step.cancel [of ?d] by (rule rtranclp.rtrancl_into_rtrancl)
  moreover have "sup_step\<^sup>*\<^sup>* (?d\<lparr>sv_cancelled := True\<rparr>) (on_handle handle_cancel (WorkerId 0) (?d\<lparr>sv_cancelled := True\<rparr>))"
    using sup_step.cancel_handle by (rule r_into_rtranclp)
  ultimately show ?thesis
    using cancellation_is_one_way [of "Supervisor_new HealthRegistry_new ShutdownInner_new"]
    by (fastforce simp: sup_start_def Let_def)
qed

lemma time_out_cancels:
  "get_worker (to_id t) (time_out_worker rd t s) =
     map_option (\<lambda>r. r\<lparr>rw_handle := handle_cancel (rw_handle r)\<rparr>) (get_worker (to_id t) s)"
  by (simp add: time_out_worker_def)

lemma timed_out_cancelled:
  assumes "sup_inv s" and "t \<in> set ts" and "get_worker (to_id t) s \<noteq> None"
  shows "\<exists>r. get_worker (to_id t) (fold (time_out_worker rd) ts s) = Some r \<and> wh_cancelled (rw_handle r)"
proof -
  obtain us vs where ts: "ts = us @ t # vs"
    using assms(2) by (auto simp: in_set_conv_decomp)
  let ?u = "fold (time_out_worker rd) us s"
  have q: "quiet s ?u" "quiet (time_out_worker rd t ?u) (fold (time_out_worker rd) ts s)"
    by (simp_all add: ts quiet_fold quiet_time_out)
  then obtain r where "get_worker (to_id t) ?u = Some r"
    using assms(3) unfolding quiet_def evolves_def by (metis not_None_eq)
  then have "get_worker (to_id t) (time_out_worker rd t ?u) = Some (r\<lparr>rw_handle := handle_cancel (rw_handle r)\<rparr>)"
    using time_out_cancels [of t rd ?u] by simp
  then show ?thesis
    using q(2) unfolding quiet_def evolves_def keeps_worker_def
    by (metis RegisteredWorker.select_convs(1) RegisteredWorker.surjective RegisteredWorker.update_convs(1)
        handle_cancel_fields(2))
qed

lemma timeout_of_registered:
  assumes "sup_inv s" and "t \<in> set (watchdog_check (watchdog_targets (sv_registered s)) now)"
  shows "get_worker (to_id t) s \<noteq> None"
proof -
  obtain w r where "(w, r) \<in> set (sv_registered s)" and id: "to_id t = wh_id (rw_handle r)"
    using assms(2)
    by (auto simp: watchdog_check_def watchdog_targets_def check_target_def Let_def
        split: option.splits if_splits)
  then have "get_worker w s = Some r"
    using assms(1) by (simp add: sup_inv_def get_worker_def)
  then show ?thesis
    using assms(1) id by (auto simp: sup_inv_def)
qed

lemma watchdog_tick_cancels:
  assumes inv: "sup_inv s" and "sv_stage s \<noteq> Registering"
    and t: "t \<in> set (watchdog_check (watchdog_targets (sv_registered s)) (unix_nanos (rd_unix rd)))"
  obtains r where "get_worker (to_id t) (watchdog_tick rd s) = Some r" "wh_cancelled (rw_handle r)"
proof -
  let ?h = "fold (half_open_worker rd) (half_opened rd s) (ticked rd s)"
  have "quiet s (ticked rd s)"
    by (rule quiet_ticked)
  then have h: "sup_inv ?h" "evolves s ?h"
    using inv_fold_half_open [of "ticked rd s" rd "half_opened rd s"] inv_quiet [OF inv] assms(2)
    by (auto simp: quiet_def intro: evolves_trans)
  then have "get_worker (to_id t) ?h \<noteq> None"
    using timeout_of_registered [OF inv t] unfolding evolves_def by (metis not_None_eq)
  then show ?thesis
    unfolding watchdog_tick_eq using timed_out_cancelled [OF h(1) t] that watchdog_tick_eq by metis
qed

text \<open>
  C38: A worker that the watchdog once found silent never runs uncancelled again: its token is
  cancelled at that tick and is never replaced, so whatever happens later, the context of every later
  run of this worker, restarts included, reads cancelled from its first moment.
\<close>

theorem timed_out_worker_stays_cancelled:
  assumes "sup_start s0" and "sup_step\<^sup>*\<^sup>* s0 s" and "sv_stage s = Looping"
    and t: "t \<in> set (watchdog_check (watchdog_targets (sv_registered s)) (unix_nanos (rd_unix rd)))"
    and "sup_step\<^sup>*\<^sup>* (watchdog_tick rd s) s'"
  shows "\<exists>r. get_worker (to_id t) s' = Some r \<and> ctx_cancelled (spawn_context (to_id t) r s')"
proof -
  have inv: "sup_inv s"
    using assms(1,2) by (rule supervisor.inv_reachable)
  then obtain r where r: "get_worker (to_id t) (watchdog_tick rd s) = Some r" "wh_cancelled (rw_handle r)"
    using watchdog_tick_cancels [OF _ _ t] assms(3) by auto
  have "evolves (watchdog_tick rd s) s'"
    using evolves_steps [OF assms(5)] inv_watchdog_tick [OF inv] assms(3) by simp
  then obtain r' where "get_worker (to_id t) s' = Some r'" "keeps_worker r r'"
    using r(1) unfolding evolves_def by blast
  then show ?thesis
    using r(2) by (auto simp: keeps_worker_def spawn_context_def WorkerContext_new_def)
qed

abbreviation demo_worker :: "WorkerSpec \<Rightarrow> RegisteredWorker" where
  "demo_worker spec \<equiv>
     \<lparr>rw_handle = handle_set_state WRunning (WorkerHandle_new (WorkerId 0) (ws_name spec) False),
      rw_spec = spec, rw_runner = SyncRunner, rw_last_heartbeat = 0, rw_attempts = 0,
      rw_circuit = map_option CircuitBreaker_new (ws_circuit spec)\<rparr>"

lemma demo_registered: "sv_registered (demo_supervisor spec) = [(WorkerId 0, demo_worker spec)]"
proof -
  have "sv_registered (snd (register_inner spec SyncRunner (Supervisor_new HealthRegistry_new ShutdownInner_new))) =
     [(WorkerId 0, \<lparr>rw_handle = WorkerHandle_new (WorkerId 0) (ws_name spec) False, rw_spec = spec,
      rw_runner = SyncRunner, rw_last_heartbeat = 0, rw_attempts = 0,
      rw_circuit = map_option CircuitBreaker_new (ws_circuit spec)\<rparr>)]"
    by (simp add: register_inner_def Supervisor_new_def next_worker_id_def id_fetch_add_def
        IdGenerator_new_def put_worker_def)
  then show ?thesis
    by (simp add: demo_supervisor_def start_run_def spawn_one_def on_handle_def get_worker_def put_worker_def
        log_fx_def Let_def)
qed

definition demo_beating :: Supervisor where
  "demo_beating =
     (let spec = spec_heartbeat 5 (WorkerSpec_new ''w'')
      in put_worker (WorkerId 0) ((demo_worker spec)\<lparr>rw_last_heartbeat := unix_nanos (Some 1)\<rparr>)
           (demo_supervisor spec))"

lemma demo_beating_facts:
  "sup_step\<^sup>*\<^sup>* (Supervisor_new HealthRegistry_new ShutdownInner_new) demo_beating"
  "sv_stage demo_beating = Looping"
  "watchdog_check (watchdog_targets (sv_registered demo_beating)) (unix_nanos (rd_unix (demo_readings 100))) =
     [\<lparr>to_id = WorkerId 0, to_name = ''w'', to_silent_for = 99\<rparr>]"
proof -
  let ?spec = "spec_heartbeat 5 (WorkerSpec_new ''w'')"
  have "sup_step (demo_supervisor ?spec) demo_beating"
    unfolding demo_beating_def Let_def
    using demo_supervisor_worker [of ?spec] by (intro sup_step.heartbeat) simp
  with demo_supervisor_reachable show "sup_step\<^sup>*\<^sup>* (Supervisor_new HealthRegistry_new ShutdownInner_new) demo_beating"
    by (rule rtranclp.rtrancl_into_rtrancl)
  show "sv_stage demo_beating = Looping"
    using demo_supervisor_worker [of ?spec] by (simp add: demo_beating_def Let_def)
  have "sv_registered demo_beating =
      [(WorkerId 0, (demo_worker ?spec)\<lparr>rw_last_heartbeat := unix_nanos (Some 1)\<rparr>)]"
    by (simp add: demo_beating_def Let_def put_worker_def demo_registered)
  moreover have "sint (unix_nanos (Some 1)) = 1" "sint (unix_nanos (Some 100)) = 100"
    using sint_unix_nanos [of "Some 1"] sint_unix_nanos [of "Some 100"] by (simp_all add: duration_max_value)
  ultimately show "watchdog_check (watchdog_targets (sv_registered demo_beating))
      (unix_nanos (rd_unix (demo_readings 100))) = [\<lparr>to_id = WorkerId 0, to_name = ''w'', to_silent_for = 99\<rparr>]"
    by (simp add: watchdog_targets_def watchdog_check_def check_target_exact spec_heartbeat_def
        WorkerSpec_new_def WorkerHandle_new_def demo_readings_def)
qed

theorem timed_out_worker_stays_cancelled_witness:
  "\<exists>r. get_worker (WorkerId 0) (watchdog_tick (demo_readings 100) demo_beating) = Some r \<and>
    ctx_cancelled (spawn_context (WorkerId 0) r (watchdog_tick (demo_readings 100) demo_beating))"
proof -
  let ?t = "\<lparr>to_id = WorkerId 0, to_name = ''w'', to_silent_for = 99\<rparr>"
  have "?t \<in> set (watchdog_check (watchdog_targets (sv_registered demo_beating))
      (unix_nanos (rd_unix (demo_readings 100))))"
    by (simp add: demo_beating_facts(3))
  from timed_out_worker_stays_cancelled [OF _ demo_beating_facts(1,2) this rtranclp.rtrancl_refl]
  show ?thesis
    by (auto simp: sup_start_def)
qed

section \<open>Breakers and the watchdog\<close>

lemma outcome_stage: "sv_stage (handle_outcome rd w out s) = sv_stage s"
proof (cases "get_worker w s")
  case None
  then show ?thesis
    by (simp add: handle_outcome_def)
next
  case (Some r)
  show ?thesis
  proof (rule handle_outcome_decides [OF Some, of rd out])
    fix s1
    assume eq: "handle_outcome rd w out s =
       restart_or_stop rd w (out \<noteq> Completed) (restarts rd w (out \<noteq> Completed) r)
         (backoff_delay (failures_after rd (out \<noteq> Completed) r) (ws_backoff (rw_spec r)))
         (failures_after rd (out \<noteq> Completed) r) (ws_name (rw_spec r)) (ws_criticality (rw_spec r)) s1"
      and q: "quiet s s1"
    have "sv_stage (apply_criticality now name c t) = sv_stage t" for now name c t
      using quiet_apply_criticality [of t now name c] by (simp add: quiet_def)
    then show ?thesis
      using q unfolding eq by (simp add: restart_or_stop_def Let_def quiet_def)
  qed
qed

lemma join_task_stage: "sv_stage (join_task rd tid w outcome s) = sv_stage s"
  by (simp add: join_task_def Let_def outcome_stage split: option.split)

lemma spawn_one_keeps_circuit:
  "map_option rw_circuit (get_worker v (spawn_one rd w s)) = map_option rw_circuit (get_worker v s)"
  "in_flight v s \<Longrightarrow> in_flight v (spawn_one rd w s)"
  by (auto simp: spawn_one_def Let_def in_flight_def split: option.split)

lemma half_open_keeps_circuit:
  "map_option rw_circuit (get_worker v (half_open_worker rd p s)) = map_option rw_circuit (get_worker v s)"
  "in_flight v s \<Longrightarrow> in_flight v (half_open_worker rd p s)"
proof -
  obtain w name where p: "p = (w, name)"
    by (cases p)
  let ?s = "log_fx [WEv (Ev_CircuitHalfOpened w name (rd_circuit rd w))] s"
  show "map_option rw_circuit (get_worker v (half_open_worker rd p s)) = map_option rw_circuit (get_worker v s)"
    by (simp add: p half_open_worker_def spawn_one_if_idle_def spawn_one_keeps_circuit)
  show "in_flight v (half_open_worker rd p s)" if "in_flight v s"
  proof -
    have "in_flight v ?s"
      using that by (simp add: in_flight_def)
    then show ?thesis
      using spawn_one_keeps_circuit(2) [of v ?s rd w]
      by (simp add: p half_open_worker_def spawn_one_if_idle_def)
  qed
qed

lemma half_opens_keep_circuit:
  "map_option rw_circuit (get_worker v (fold (half_open_worker rd) ps s)) = map_option rw_circuit (get_worker v s)"
  "in_flight v s \<Longrightarrow> in_flight v (fold (half_open_worker rd) ps s)"
  by (induction ps arbitrary: s) (simp_all add: half_open_keeps_circuit)

lemma time_out_keeps_circuit:
  "map_option rw_circuit (get_worker v (time_out_worker rd t s)) = map_option rw_circuit (get_worker v s)"
  "in_flight v (time_out_worker rd t s) \<longleftrightarrow> in_flight v s"
  by (auto simp: time_out_worker_def in_flight_def option.map_comp comp_def)

lemma time_outs_keep_circuit:
  "map_option rw_circuit (get_worker v (fold (time_out_worker rd) ts s)) = map_option rw_circuit (get_worker v s)"
  "in_flight v (fold (time_out_worker rd) ts s) \<longleftrightarrow> in_flight v s"
  by (induction ts arbitrary: s) (simp_all add: time_out_keeps_circuit)

text \<open>
  C34: When the open duration of a worker's breaker has passed, the next watchdog tick makes the breaker
  half-open and leaves the worker in flight, whatever its restart policy says: a worker that is
  never to be restarted runs again too.
\<close>

theorem open_breaker_gets_a_trial:
  assumes "sup_start s0" and "sup_step\<^sup>*\<^sup>* s0 s" and "sv_stage s = Looping"
    and r: "get_worker w s = Some r" and b: "rw_circuit r = Some b"
    and op: "circuit_state b = Open" "cb_opened_at b = Some t"
    and due: "cp_open_duration (cb_policy b) \<le> Instant_duration_since (rd_breaker rd w) t"
  shows "in_flight w (watchdog_tick rd s) \<and>
    (\<exists>r' b'. get_worker w (watchdog_tick rd s) = Some r' \<and> rw_circuit r' = Some b' \<and>
       circuit_state b' = HalfOpen \<and> rw_spec r' = rw_spec r)"
proof -
  have inv: "sup_inv s"
    using assms(1,2) by (rule supervisor.inv_reachable)
  let ?t = "ticked rd s"
  have tick: "tick_worker (rd_breaker rd w) r =
      (True, r\<lparr>rw_circuit := Some (b\<lparr>cb_state := CircuitState_as_u8 HalfOpen\<rparr>)\<rparr>)"
    using b op due by (simp add: tick_worker_def circuit_tick_def Let_def)
  have "(w, ws_name (rw_spec r)) \<in> set (half_opened rd s)"
    using r tick by (auto simp: half_opened_def get_worker_def image_iff dest!: map_of_SomeD intro!: bexI [of _ "(w, r)"])
  then obtain ps qs where ps: "half_opened rd s = ps @ (w, ws_name (rw_spec r)) # qs"
    by (auto simp: in_set_conv_decomp)
  let ?u = "fold (half_open_worker rd) ps ?t"
  have "sup_inv ?t" "sv_stage ?t \<noteq> Registering" "get_worker w ?t \<noteq> None"
    using inv_quiet [OF inv quiet_ticked] assms(3) quiet_ticked [of s rd] r
    by (auto simp: quiet_def get_ticked)
  then have u: "sup_inv ?u" "get_worker w ?u \<noteq> None"
    using inv_fold_half_open [of ?t rd ps] unfolding evolves_def by (blast, metis not_None_eq)
  then have "in_flight w (half_open_worker rd (w, ws_name (rw_spec r)) ?u)"
    using spawn_one_result(1) [of w "log_fx fx ?u" for fx]
    by (auto simp: half_open_worker_def spawn_one_if_idle_def in_flight_def sup_inv_def)
  then have "in_flight w (fold (half_open_worker rd) (half_opened rd s) ?t)"
    by (simp add: ps half_opens_keep_circuit)
  then have fl: "in_flight w (watchdog_tick rd s)"
    by (simp add: watchdog_tick_eq time_outs_keep_circuit)
  have "map_option rw_circuit (get_worker w (watchdog_tick rd s)) =
      Some (Some (b\<lparr>cb_state := CircuitState_as_u8 HalfOpen\<rparr>))"
    by (simp add: watchdog_tick_eq time_outs_keep_circuit half_opens_keep_circuit get_ticked r tick)
  moreover have "evolves s (watchdog_tick rd s)"
    using inv_watchdog_tick [OF inv] assms(3) by simp
  then have "\<exists>r'. get_worker w (watchdog_tick rd s) = Some r' \<and> rw_spec r' = rw_spec r"
    using r unfolding evolves_def keeps_worker_def by blast
  ultimately show ?thesis
    using fl by auto
qed

theorem open_breaker_gets_a_trial_witness:
  "let spec = spec_circuit (CircuitPolicy_new 1 10 0) (spec_restart_never (WorkerSpec_new ''w''));
       s = join_task (demo_readings 9) 0 (WorkerId 0) (Some (FailedWith (WorkerError_new ''io'')))
             (demo_supervisor spec)
   in worker_state (WorkerId 0) s = Some WStopped \<and> in_flight (WorkerId 0) (watchdog_tick (demo_readings 10) s)"
proof -
  let ?spec = "spec_circuit (CircuitPolicy_new 1 10 0) (spec_restart_never (WorkerSpec_new ''w''))"
  let ?out = "FailedWith (WorkerError_new ''io'')" and ?d = "demo_supervisor ?spec" and ?rd = "demo_readings 9"
  let ?s = "join_task ?rd 0 (WorkerId 0) (Some ?out) ?d"
  have g: "get_worker (WorkerId 0) (without_task 0 ?d) = Some (demo_worker ?spec)"
    using demo_supervisor_worker [of ?spec] by simp
  have nr: "\<not> restarts ?rd (WorkerId 0) (?out \<noteq> Completed) (demo_worker ?spec)"
    by (simp add: restarts_def spec_circuit_def spec_restart_never_def)
  have eq: "?s = handle_outcome ?rd (WorkerId 0) ?out (without_task 0 ?d)"
    by (simp add: join_task_def)
  let ?r = "(after_outcome ?rd (WorkerId 0) (?out \<noteq> Completed) (demo_worker ?spec))\<lparr>rw_handle :=
    handle_set_state WStopped (rw_handle (after_outcome ?rd (WorkerId 0) (?out \<noteq> Completed) (demo_worker ?spec)))\<rparr>"
  let ?b = "snd (record_failure 0 (CircuitBreaker_new (CircuitPolicy_new 1 10 0)))"
  have r: "get_worker (WorkerId 0) ?s = Some ?r" "worker_state (WorkerId 0) ?s = Some WStopped"
    using outcome_stopped [OF g nr] by (simp_all add: eq)
  have b: "rw_circuit ?r = Some ?b"
    by (simp add: circuit_after_def spec_circuit_def demo_readings_def)
  have op: "circuit_state ?b = Open" "cb_opened_at ?b = Some 0" "cp_open_duration (cb_policy ?b) = 0"
    by (simp_all add: record_failure_def count_failure_def Let_def CircuitPolicy_new_def)
      (simp_all add: CircuitBreaker_new_def)
  have "sup_step ?d ?s"
    using demo_supervisor_worker [of ?spec] by (intro sup_step.joined) simp_all
  then have reach: "sup_step\<^sup>*\<^sup>* (Supervisor_new HealthRegistry_new ShutdownInner_new) ?s"
    by (rule rtranclp.rtrancl_into_rtrancl [OF demo_supervisor_reachable])
  have st: "sv_stage ?s = Looping"
    using join_task_stage [of ?rd 0 "WorkerId 0" "Some ?out" ?d] demo_supervisor_worker [of ?spec] by simp
  have "in_flight (WorkerId 0) (watchdog_tick (demo_readings 10) ?s)"
    using open_breaker_gets_a_trial [OF _ reach st r(1) b op(1,2), of "demo_readings 10"] op(3)
    by (auto simp: sup_start_def)
  with r(2) show ?thesis
    by (simp add: Let_def)
qed

section \<open>Stopping everything\<close>

lemma fold_join_drained:
  "fold join_drained joined ((d, a), s) =
     ((d + length (filter (\<lambda>j. snd j \<noteq> JoinCancelled) joined),
       a + length (filter (\<lambda>j. snd j = JoinCancelled) joined)),
      s\<lparr>sv_tasks := fold (\<lambda>j. AList.delete (fst j)) joined (sv_tasks s),
        sv_task_to_worker := fold (\<lambda>j. AList.delete (fst j)) joined (sv_task_to_worker s)\<rparr>)"
proof (induction joined arbitrary: d a s)
  case (Cons j joined)
  then show ?case
    by (cases j) (simp add: join_drained_def)
qed simp

lemma fold_delete_all:
  "set (keys m) \<subseteq> fst ` set joined \<Longrightarrow> fold (\<lambda>j. AList.delete (fst j)) joined m = []"
proof (induction joined arbitrary: m)
  case (Cons j joined)
  have "set (keys (AList.delete (fst j) m)) \<subseteq> fst ` set joined"
    using Cons.prems by (auto simp: AList.delete_eq)
  with Cons.IH show ?case
    by simp
qed simp

lemma fold_stop_worker:
  "get_worker v (fold (stop_worker rd) ids s) =
     (if v \<in> set ids then map_option (\<lambda>r. r\<lparr>rw_handle := handle_cancel (handle_set_state WStopping (rw_handle r))\<rparr>) (get_worker v s)
      else get_worker v s)"
  "sv_tasks (fold (stop_worker rd) ids s) = sv_tasks s"
  "sv_task_to_worker (fold (stop_worker rd) ids s) = sv_task_to_worker s"
  "sv_log (fold (stop_worker rd) ids s) = sv_log s @ map (\<lambda>w. WEv (Ev_Stopping w (rd_stopping rd w))) ids"
proof (induction ids arbitrary: s)
  case (Cons w ids)
  have [simp]: "handle_cancel (handle_set_state WStopping (handle_cancel (handle_set_state WStopping h))) =
      handle_cancel (handle_set_state WStopping h)" for h
    by (simp add: handle_cancel_def handle_set_state_def)
  case 1
  show ?case
    using Cons(1) [of "stop_worker rd w s"]
    by (auto simp: stop_worker_def option.map_comp comp_def)
  case 2
  show ?case
    using Cons(2) by (simp add: stop_worker_def)
  case 3
  show ?case
    using Cons(3) by (simp add: stop_worker_def)
  case 4
  show ?case
    using Cons(4) by (simp add: stop_worker_def)
qed simp_all

lemma worker_name_finish: "worker_name_for v (finish_worker rd w s) = worker_name_for v s"
  by (simp add: worker_name_for_def finish_worker_def split: option.split)

lemma fold_finish_worker:
  "get_worker v (fold (finish_worker rd) ids s) =
     (if v \<in> set ids then map_option (\<lambda>r. r\<lparr>rw_handle := handle_set_state WStopped (rw_handle r)\<rparr>) (get_worker v s)
      else get_worker v s)"
  "sv_tasks (fold (finish_worker rd) ids s) = sv_tasks s"
  "sv_task_to_worker (fold (finish_worker rd) ids s) = sv_task_to_worker s"
  "sv_log (fold (finish_worker rd) ids s) =
     sv_log s @ map (\<lambda>w. WEv (Ev_Stopped w (worker_name_for w s) (rd_stopped rd w))) ids"
proof (induction ids arbitrary: s)
  case (Cons w ids)
  case 1
  show ?case
    using Cons(1) [of "finish_worker rd w s"]
    by (auto simp: finish_worker_def option.map_comp comp_def)
  case 2
  show ?case
    using Cons(2) by (simp add: finish_worker_def)
  case 3
  show ?case
    using Cons(3) by (simp add: finish_worker_def)
  case 4
  show ?case
    using Cons(4) [of "finish_worker rd w s"] by (simp add: worker_name_finish) (simp add: finish_worker_def)
qed simp_all

text \<open>
  C24: When the supervisor is shut down and every task in flight has been joined, drained and aborted
  tasks add up to the tasks there were, no task is left, every registered worker is stopped with its
  token cancelled, and the events are one \<open>Stopping\<close> for every worker followed by one \<open>Stopped\<close> for every
  worker.
\<close>

theorem shutdown_stops_everything:
  assumes "sup_start s0" and "sup_step\<^sup>*\<^sup>* s0 s"
    and joined: "set (keys joined) = set (keys (sv_tasks s))" "distinct (keys joined)"
  shows "\<exists>drained aborted s'. shutdown_all rd joined s = ((drained, aborted), s') \<and>
    drained + aborted = length (sv_tasks s) \<and>
    aborted = length (filter (\<lambda>j. snd j = JoinCancelled) joined) \<and>
    sv_tasks s' = [] \<and> sv_task_to_worker s' = [] \<and>
    (\<forall>w r. get_worker w s' = Some r \<longrightarrow> handle_state (rw_handle r) = WStopped \<and> wh_cancelled (rw_handle r)) \<and>
    sv_log s' = sv_log s @
      map (\<lambda>w. WEv (Ev_Stopping w (rd_stopping rd w))) (keys (sv_registered s)) @
      map (\<lambda>w. WEv (Ev_Stopped w (worker_name_for w s) (rd_stopped rd w))) (keys (sv_registered s))"
proof -
  have inv: "sup_inv s"
    using assms(1,2) by (rule supervisor.inv_reachable)
  let ?ids = "keys (sv_registered s)"
  let ?a = "length (filter (\<lambda>j. snd j = JoinCancelled) joined)"
  let ?d = "length (filter (\<lambda>j. snd j \<noteq> JoinCancelled) joined)"
  let ?s1 = "fold (stop_worker rd) ?ids s"
  define s2 where "s2 = ?s1\<lparr>sv_tasks := [], sv_task_to_worker := []\<rparr>"
  have "fold join_drained joined ((0, 0), ?s1) = ((?d, ?a), s2)"
    using joined(1) inv
    by (simp add: fold_join_drained fold_stop_worker fold_delete_all sup_inv_def s2_def)
  then have eq: "shutdown_all rd joined s = ((?d, ?a), fold (finish_worker rd) ?ids s2)"
    by (simp add: shutdown_all_def Let_def)
  have "?d + ?a = length joined"
    using sum_length_filter_compl [of "\<lambda>j. snd j = JoinCancelled" joined] by simp
  also have "\<dots> = length (sv_tasks s)"
    using distinct_card [OF joined(2)] distinct_card [of "keys (sv_tasks s)"] joined(1) inv
    by (simp add: sup_inv_def)
  finally have sum: "?d + ?a = length (sv_tasks s)" .
  have none: "get_worker v s = None" if "v \<notin> set ?ids" for v
    using that by (simp add: get_worker_def map_of_keys_None)
  have workers: "handle_state (rw_handle r) = WStopped \<and> wh_cancelled (rw_handle r)"
    if "get_worker v (fold (finish_worker rd) ?ids s2) = Some r" for v r
    using that none [of v] by (cases "v \<in> set ?ids") (auto simp: fold_finish_worker fold_stop_worker s2_def)
  have name: "worker_name_for v s2 = worker_name_for v s" for v
    by (simp add: worker_name_for_def s2_def fold_stop_worker split: option.split)
  have log: "sv_log (fold (finish_worker rd) ?ids s2) = sv_log s @
      map (\<lambda>w. WEv (Ev_Stopping w (rd_stopping rd w))) ?ids @
      map (\<lambda>w. WEv (Ev_Stopped w (worker_name_for w s) (rd_stopped rd w))) ?ids"
    unfolding fold_finish_worker name by (simp add: s2_def fold_stop_worker)
  show ?thesis
    using sum workers log by (simp add: eq) (simp add: fold_finish_worker s2_def)
qed

theorem shutdown_stops_everything_witness:
  "\<exists>s'. shutdown_all (demo_readings 5) [(0, JoinCancelled)] (demo_supervisor WorkerSpec_default) = ((0, 1), s') \<and>
    sv_tasks s' = []"
  using shutdown_stops_everything [OF _ demo_supervisor_reachable, of "[(0, JoinCancelled)]" WorkerSpec_default "demo_readings 5"]
    demo_supervisor_worker [of WorkerSpec_default]
  by (auto simp: sup_start_def)

section \<open>Events of a clean exit\<close>

text \<open>
  A worker without a breaker that completes is announced stopped by the outcome itself, and a
  second time when it is not restarted; under \<open>Always\<close> it is announced stopped although it
  goes on.
\<close>

theorem completion_is_announced_twice:
  assumes "get_worker w s = Some r" and "rw_circuit r = None" and "ws_restart (rw_spec r) \<noteq> Always"
  shows "sv_log (join_task rd tid w (Some Completed) s) = sv_log s @
    [WEv (Ev_Stopped w (ws_name (rw_spec r)) (rd_event rd w)),
     WEv (Ev_Stopped w (ws_name (rw_spec r)) (rd_stopped rd w))]"
proof -
  have "\<not> should_restart False 0 (ws_restart (rw_spec r))"
    using assms(3) by (simp add: clean_exit_restarts)
  with assms(1,2) show ?thesis
    by (simp add: join_task_def handle_outcome_def maybe_restart_def advance_circuit_def
        restart_or_stop_def Let_def)
qed

theorem completion_is_announced_twice_witness:
  "sv_log (join_task (demo_readings 5) 0 (WorkerId 0) (Some Completed) (demo_supervisor (WorkerSpec_new ''w''))) =
    [WEv (Ev_Started (WorkerId 0) ''w'' 0), WEv (Ev_Stopped (WorkerId 0) ''w'' 0), WEv (Ev_Stopped (WorkerId 0) ''w'' 0)]"
  using completion_is_announced_twice [of "WorkerId 0" "demo_supervisor (WorkerSpec_new ''w'')" _ "demo_readings 5" 0]
    demo_supervisor_worker [of "WorkerSpec_new ''w''"]
  by (simp add: WorkerSpec_new_def demo_readings_def)

end
