(* ===== verification/Worker_Machine.thy ===== *)
theory Worker_Machine
  imports Supervisor_Properties
begin

text \<open>
  What one worker goes through. Seen from one worker, the supervisor of src/worker/supervisor.rs is a small
  machine over the stage of the run, whether a task of the worker is in flight, and the worker's state: every step of the
  supervisor, whatever it does to the other workers, is a move of that machine.
\<close>

section \<open>The machine\<close>

type_synonym worker_view = "stage \<times> bool \<times> WorkerState option"

definition view :: "WorkerId \<Rightarrow> Supervisor \<Rightarrow> worker_view" where
  "view w s = (sv_stage s, in_flight w s, worker_state w s)"

inductive worker_move :: "worker_view \<Rightarrow> worker_view \<Rightarrow> bool" where
  waits: "worker_move v v"
| registered: "worker_move (Registering, False, None) (Registering, False, Some WCreated)"
| started: "worker_move (Registering, False, Some WCreated) (Looping, True, Some WRunning)"
| stopped: "worker_move (Looping, True, Some WRunning) (Looping, False, Some WStopped)"
| backs_off: "worker_move (Looping, True, Some WRunning) (Looping, False, Some WRestarting)"
| aborted: "worker_move (Looping, True, Some WRunning) (Looping, False, Some WRunning)"
| trial: "worker_move (Looping, False, Some st) (Looping, True, Some WRunning)"
| shut_down: "worker_move (Looping, b, Some st) (Finished_run, False, Some WStopped)"
| others_start: "worker_move (Registering, False, None) (Looping, False, None)"
| others_shut_down: "worker_move (Looping, False, None) (Finished_run, False, None)"

inductive_cases worker_moveE: "worker_move v v'"

fun view_ok :: "worker_view \<Rightarrow> bool" where
  "view_ok (Registering, b, st) \<longleftrightarrow> \<not> b \<and> st \<in> {None, Some WCreated}"
| "view_ok (Looping, b, st) \<longleftrightarrow>
     (if b then st = Some WRunning else st \<in> {None, Some WRunning, Some WRestarting, Some WStopped})"
| "view_ok (Finished_run, b, st) \<longleftrightarrow> \<not> b \<and> st \<in> {None, Some WStopped}"

lemma view_ok_move: "worker_move v v' \<Longrightarrow> view_ok v \<Longrightarrow> view_ok v'"
  by (induction rule: worker_move.induct) auto

section \<open>Operations on other workers\<close>

text \<open>\<open>same_for w s s'\<close>: nothing the machine of \<open>w\<close> looks at has changed.\<close>

definition same_for :: "WorkerId \<Rightarrow> Supervisor \<Rightarrow> Supervisor \<Rightarrow> bool" where
  "same_for w s s' \<longleftrightarrow> sv_stage s' = sv_stage s \<and> (in_flight w s' \<longleftrightarrow> in_flight w s) \<and>
     worker_state w s' = worker_state w s"

lemma same_for_refl [simp]: "same_for w s s"
  by (simp add: same_for_def)

lemma same_for_trans [trans]: "same_for w s t \<Longrightarrow> same_for w t u \<Longrightarrow> same_for w s u"
  by (simp add: same_for_def)

lemma same_for_fold: "(\<And>x s. same_for w s (f x s)) \<Longrightarrow> same_for w s (fold f xs s)"
  by (induction xs arbitrary: s) (auto intro: same_for_trans)

lemma same_view: "same_for w s s' \<Longrightarrow> view w s' = view w s"
  by (simp add: same_for_def view_def)

lemma same_move: "same_for w s s' \<Longrightarrow> worker_move (view w s) (view w s')"
  by (simp add: same_view waits)

lemma same_for_log [simp]: "same_for w s (log_fx fx s)"
  by (simp add: same_for_def in_flight_def worker_state_def)

lemma same_for_on_handle [simp]: "w \<noteq> v \<Longrightarrow> same_for w s (on_handle f v s)"
  by (simp add: same_for_def in_flight_def worker_state_def)

lemma same_for_cancel [simp]: "same_for w s (on_handle handle_cancel v s)"
  by (simp add: same_for_def in_flight_def worker_state_def option.map_comp comp_def)

lemma same_for_put [simp]: "w \<noteq> v \<Longrightarrow> same_for w s (put_worker v r s)"
  by (simp add: same_for_def in_flight_def worker_state_def)

lemma same_for_fields [simp]:
  "same_for w s (s\<lparr>sv_cancelled := b\<rparr>)" "same_for w s (s\<lparr>sv_health := h\<rparr>)" "same_for w s (s\<lparr>sv_shutdown := i\<rparr>)"
  by (simp_all add: same_for_def in_flight_def worker_state_def)

lemma same_for_spawn [simp]: "w \<noteq> v \<Longrightarrow> same_for w s (spawn_one rd v s)"
  by (auto simp: same_for_def in_flight_def worker_state_def spawn_one_def Let_def split: option.split)

lemma in_flight_iff: "in_flight w s \<longleftrightarrow> (\<exists>t. (t, w) \<in> set (sv_tasks s))"
  by (force simp: in_flight_def)

lemma same_for_without [simp]:
  assumes "sup_inv s" and "(t, v) \<in> set (sv_tasks s)" and "w \<noteq> v"
  shows "same_for w s (without_task t s)"
proof -
  have inj: "inj_on fst (set (sv_tasks s))"
    using assms(1) by (simp add: sup_inv_def distinct_map)
  have "u \<noteq> t" if "(u, w) \<in> set (sv_tasks s)" for u
    using inj_onD [OF inj, of "(u, w)" "(t, v)"] that assms(2,3) by auto
  moreover have "in_flight w (without_task t s) \<longleftrightarrow> (\<exists>u. (u, w) \<in> set (sv_tasks s) \<and> u \<noteq> t)"
    by (auto simp: in_flight_iff AList.delete_eq)
  ultimately have "in_flight w (without_task t s) \<longleftrightarrow> in_flight w s"
    unfolding in_flight_iff by blast
  then show ?thesis
    by (simp add: same_for_def worker_state_def)
qed

lemma same_for_criticality [simp]: "same_for w s (apply_criticality now name c s)"
  by (cases c) (auto simp: Let_def case_prod_beta intro: same_for_trans [OF same_for_fields(2) same_for_log])

lemma same_for_advance: "w \<noteq> v \<Longrightarrow> same_for w s (snd (advance_circuit rd v f s))"
  by (auto simp: advance_circuit_def Let_def case_prod_beta split: option.split intro: same_for_trans [OF same_for_put same_for_log])

lemma same_for_restart_or_stop:
  assumes "w \<noteq> v"
  shows "same_for w s (restart_or_stop rd v f restart delay n name c s)"
proof -
  have "same_for w s (log_fx fx (set_worker_state st v s))" for st fx
    using same_for_trans [OF same_for_on_handle [OF assms] same_for_log] .
  then show ?thesis
    using same_for_trans [OF _ same_for_spawn [OF assms]] same_for_trans [OF _ same_for_criticality]
      same_for_trans [OF same_for_on_handle [OF assms] same_for_fields(1)]
    by (simp add: restart_or_stop_def Let_def)
qed

lemma same_for_maybe_restart:
  assumes "w \<noteq> v"
  shows "same_for w s (maybe_restart rd v f s)"
proof -
  obtain b t where a: "advance_circuit rd v f s = (b, t)"
    by fastforce
  have t: "same_for w s t"
    using same_for_advance [OF assms, of s rd f] a by simp
  show ?thesis
  proof (cases "get_worker v t")
    case None
    then show ?thesis
      using t by (simp add: maybe_restart_def a)
  next
    case (Some r)
    show ?thesis
      using same_for_trans [OF t same_for_trans [OF same_for_put [OF assms] same_for_restart_or_stop [OF assms]]] Some
      by (simp add: maybe_restart_def a Let_def case_prod_beta)
  qed
qed

lemma same_for_outcome:
  assumes "w \<noteq> v"
  shows "same_for w s (handle_outcome rd v out s)"
  using same_for_trans [OF same_for_log same_for_maybe_restart [OF assms]]
    same_for_trans [OF same_for_trans [OF same_for_log same_for_log] same_for_maybe_restart [OF assms]]
  by (simp add: handle_outcome_def Let_def split: option.split)

section \<open>The outcome of the worker itself\<close>

lemma own_outcome:
  assumes r: "get_worker w s = Some r" and idle: "\<not> in_flight w s" and st: "sv_stage s = Looping"
  shows "view w (handle_outcome rd w out s) \<in>
    {(Looping, True, Some WRunning), (Looping, False, Some WStopped), (Looping, False, Some WRestarting)}"
proof (rule handle_outcome_decides [OF r, of rd out])
  let ?f = "out \<noteq> Completed"
  let ?delay = "backoff_delay (failures_after rd ?f r) (ws_backoff (rw_spec r))"
  fix s1
  assume eq: "handle_outcome rd w out s = restart_or_stop rd w ?f (restarts rd w ?f r) ?delay
       (failures_after rd ?f r) (ws_name (rw_spec r)) (ws_criticality (rw_spec r)) s1"
    and q: "quiet s s1" and r1: "get_worker w s1 = Some (after_outcome rd w ?f r)"
  have s1: "sv_stage s1 = Looping" "\<not> in_flight w s1"
    using q idle st by (simp_all add: quiet_def in_flight_def)
  have stage: "sv_stage (handle_outcome rd w out s) = Looping"
    by (simp add: outcome_stage st)
  show ?thesis
  proof (cases "restarts rd w ?f r")
    case False
    then show ?thesis
      using outcome_stopped [OF r False] idle stage by (simp add: view_def in_flight_def)
  next
    case True
    note restarts = True
    show ?thesis
    proof (cases "?delay = 0 \<or> \<not> rd_cancelled_in_backoff rd")
      case True
      obtain s2 where s2: "restart_or_stop rd w ?f (restarts rd w ?f r) ?delay (failures_after rd ?f r)
          (ws_name (rw_spec r)) (ws_criticality (rw_spec r)) s1 = spawn_one rd w s2"
          "get_worker w s2 = map_option (\<lambda>r. r\<lparr>rw_handle := handle_set_state WRestarting (rw_handle r)\<rparr>) (get_worker w s1)"
        by (rule restart_or_stop_spawns [OF restarts True]) (rule that, assumption+)
      then obtain r2 where "get_worker w s2 = Some r2"
        using r1 by simp
      then show ?thesis
        using spawn_one_result(1,2) [of w s2 r2 rd] stage by (simp add: view_def eq s2(1))
    next
      case False
      then have "handle_outcome rd w out s = (set_worker_state WRestarting w s1)\<lparr>sv_cancelled := True\<rparr>"
        using restarts by (simp add: eq restart_or_stop_def)
      then show ?thesis
        using s1 r1 by (simp add: view_def in_flight_def worker_state_def)
    qed
  qed
qed

section \<open>Ticks, the start and the end\<close>

text \<open>Until a worker is tried again a tick changes nothing for it; once it runs, nothing more.\<close>

definition tried :: "WorkerId \<Rightarrow> Supervisor \<Rightarrow> Supervisor \<Rightarrow> bool" where
  "tried w s s' \<longleftrightarrow> same_for w s s' \<or>
     \<not> in_flight w s \<and> worker_state w s \<noteq> None \<and> view w s' = (sv_stage s, True, Some WRunning)"

lemma tried_trans: "tried w s t \<Longrightarrow> tried w t u \<Longrightarrow> tried w s u"
  by (auto simp: tried_def same_for_def view_def)

lemma tried_fold: "(\<And>x s. tried w s (f x s)) \<Longrightarrow> tried w s (fold f xs s)"
proof (induction xs arbitrary: s)
  case Nil
  then show ?case
    by (simp add: tried_def)
next
  case (Cons x xs)
  then show ?case
    using tried_trans [of w s "f x s"] by simp
qed

lemma tried_half_open:
  shows "sup_inv s \<Longrightarrow> tried w s (half_open_worker rd (v, name) s)"
proof -
  assume inv: "sup_inv s"
  let ?s = "log_fx [WEv (Ev_CircuitHalfOpened v name (rd_circuit rd v))] s"
  have log: "same_for w s ?s"
    by simp
  show "tried w s (half_open_worker rd (v, name) s)"
  proof (cases "v \<in> set (vals (sv_task_to_worker s)) \<or> w \<noteq> v")
    case True
    then have "same_for w ?s (spawn_one_if_idle rd v ?s)"
      by (auto simp: spawn_one_if_idle_def)
    then show ?thesis
      using same_for_trans [OF log] by (simp add: tried_def half_open_worker_def)
  next
    case False
    then have idle: "\<not> in_flight w s" "half_open_worker rd (v, name) s = spawn_one rd w ?s"
      using inv by (auto simp: half_open_worker_def spawn_one_if_idle_def in_flight_def sup_inv_def)
    show ?thesis
    proof (cases "get_worker w s")
      case None
      then have "same_for w ?s (spawn_one rd w ?s)"
        by (simp add: spawn_one_def)
      then show ?thesis
        using same_for_trans [OF log] idle(2) by (simp add: tried_def)
    next
      case (Some r)
      then have "get_worker w ?s = Some r"
        by simp
      from spawn_one_result(1,2) [OF this, of rd] Some show ?thesis
        using idle by (simp add: tried_def view_def worker_state_def)
    qed
  qed
qed

lemma tried_half_opens:
  "sup_inv s \<Longrightarrow> sv_stage s \<noteq> Registering \<Longrightarrow> tried w s (fold (half_open_worker rd) ps s)"
proof (induction ps arbitrary: s)
  case Nil
  then show ?case
    by (simp add: tried_def)
next
  case (Cons p ps)
  have "tried w s (half_open_worker rd p s)"
    using tried_half_open [OF Cons.prems(1)] by (cases p) simp
  moreover have "tried w (half_open_worker rd p s) (fold (half_open_worker rd) ps (half_open_worker rd p s))"
    using inv_half_open [OF Cons.prems] Cons.prems(2) by (intro Cons.IH) simp_all
  ultimately show ?case
    using tried_trans by simp
qed

lemma tried_tick:
  assumes "sup_inv s" and "sv_stage s = Looping"
  shows "tried w s (watchdog_tick rd s)"
proof -
  have q: "quiet s (ticked rd s)"
    by (rule quiet_ticked)
  have "worker_state w (ticked rd s) = worker_state w s"
    by (simp add: worker_state_def get_ticked option.map_comp comp_def)
  then have "tried w s (ticked rd s)"
    using q by (simp add: tried_def same_for_def in_flight_def quiet_def)
  moreover have "tried w (ticked rd s) (fold (half_open_worker rd) (half_opened rd s) (ticked rd s))"
    using inv_quiet [OF assms(1) q] q assms(2) by (intro tried_half_opens) (simp_all add: quiet_def)
  moreover have "tried w t (fold (time_out_worker rd) ts t)" for t ts
    by (rule tried_fold) (auto simp: tried_def time_out_worker_def intro: same_for_trans [OF same_for_log same_for_cancel])
  ultimately show ?thesis
    unfolding watchdog_tick_eq using tried_trans by metis
qed

lemma spawn_all_out: "w \<notin> set ids \<Longrightarrow> same_for w s (fold (spawn_one rd) ids s)"
proof (induction ids arbitrary: s)
  case (Cons v ids)
  then show ?case
    using same_for_trans [OF same_for_spawn [of w v s rd]] by simp
qed simp

lemma spawn_one_running:
  "in_flight w s \<and> worker_state w s = Some WRunning \<Longrightarrow>
   in_flight w (spawn_one rd v s) \<and> worker_state w (spawn_one rd v s) = Some WRunning"
proof (cases "w = v")
  case True
  assume a: "in_flight w s \<and> worker_state w s = Some WRunning"
  then obtain r where "get_worker w s = Some r"
    by (auto simp: worker_state_def)
  then show ?thesis
    using True spawn_one_result [of w s r rd] by simp
next
  case False
  assume "in_flight w s \<and> worker_state w s = Some WRunning"
  then show ?thesis
    using same_for_spawn [OF False, of s rd] by (simp add: same_for_def)
qed

lemma spawn_all_in:
  "w \<in> set ids \<Longrightarrow> get_worker w s \<noteq> None \<Longrightarrow>
   in_flight w (fold (spawn_one rd) ids s) \<and> worker_state w (fold (spawn_one rd) ids s) = Some WRunning"
proof (induction ids arbitrary: s)
  case (Cons v ids)
  have run: "in_flight w t \<and> worker_state w t = Some WRunning \<Longrightarrow>
      in_flight w (fold (spawn_one rd) is t) \<and> worker_state w (fold (spawn_one rd) is t) = Some WRunning" for "is" t
    by (induction "is" arbitrary: t) (simp_all add: spawn_one_running)
  obtain r where r: "get_worker w s = Some r"
    using Cons.prems(2) by blast
  show ?case
  proof (cases "w = v")
    case True
    then show ?thesis
      using run [of "spawn_one rd v s"] spawn_one_result(1,2) [OF r, of rd] by simp
  next
    case False
    then show ?thesis
      using Cons.IH [of "spawn_one rd v s"] Cons.prems spawn_one_evolves(2) [of w rd v s] by simp
  qed
qed simp

section \<open>Simulation\<close>

lemma moved_joined:
  assumes inv: "sup_inv s" and st: "sv_stage s = Looping" and task: "(tid, v) \<in> set (sv_tasks s)"
    and ok: "view_ok (view w s)"
  shows "worker_move (view w s) (view w (join_task rd tid v outcome s))"
proof (cases "w = v")
  case False
  have "same_for w s (without_task tid s)"
    using inv task False by simp
  then have "same_for w s (join_task rd tid v outcome s)"
    using same_for_outcome [OF False] same_for_trans by (fastforce simp: join_task_def Let_def split: option.split)
  then show ?thesis
    by (rule same_move)
next
  case True
  have fly: "in_flight w s"
    using task by (auto simp: in_flight_iff True)
  then have v: "view w s = (Looping, True, Some WRunning)"
    using ok st by (simp add: view_def)
  have idle: "\<not> in_flight w (without_task tid s)"
    using joined_idle [OF inv task] by (simp add: in_flight_def True)
  show ?thesis
  proof (cases outcome)
    case None
    then have "view w (join_task rd tid v outcome s) = (Looping, False, Some WRunning)"
      using idle v st by (simp add: join_task_def view_def worker_state_def)
    then show ?thesis
      unfolding v by (simp add: aborted)
  next
    case (Some out)
    obtain r where "get_worker w (without_task tid s) = Some r"
      using task_worker_registered [OF inv task] True by auto
    from own_outcome [OF this idle] st
    have "view w (join_task rd tid v outcome s) \<in>
        {(Looping, True, Some WRunning), (Looping, False, Some WStopped), (Looping, False, Some WRestarting)}"
      by (simp add: join_task_def Some True)
    then show ?thesis
      unfolding v by (auto intro: worker_move.intros)
  qed
qed

lemma moved_tick:
  assumes "sup_inv s" and "sv_stage s = Looping"
  shows "worker_move (view w s) (view w (watchdog_tick rd s))"
  using tried_tick [OF assms, of w rd] unfolding tried_def
proof
  assume "same_for w s (watchdog_tick rd s)"
  then show ?thesis
    by (rule same_move)
next
  assume "\<not> in_flight w s \<and> worker_state w s \<noteq> None \<and>
    view w (watchdog_tick rd s) = (sv_stage s, True, Some WRunning)"
  then show ?thesis
    using assms(2) trial by (auto simp: view_def [of w s])
qed

lemma get_worker_None: "get_worker w s = None \<longleftrightarrow> w \<notin> set (keys (sv_registered s))"
  by (simp add: get_worker_def map_of_eq_None_iff)

lemma moved_start:
  assumes "sup_inv s" and "sv_stage s = Registering" and "view_ok (view w s)"
  shows "worker_move (view w s) (view w (start_run rd s))"
proof -
  let ?s = "s\<lparr>sv_stage := Looping\<rparr>"
  have stage: "sv_stage (start_run rd s) = Looping"
  proof -
    have "sv_stage (fold (spawn_one rd) ids t) = sv_stage t" for ids t
      by (induction ids arbitrary: t) simp_all
    then show ?thesis
      by (simp add: start_run_def)
  qed
  have same: "in_flight w ?s = in_flight w s" "worker_state w ?s = worker_state w s"
    by (simp_all add: in_flight_def worker_state_def)
  show ?thesis
  proof (cases "worker_state w s")
    case None
    then have "w \<notin> set (keys (sv_registered s))"
      using get_worker_None [of w s] by (simp add: worker_state_def)
    from spawn_all_out [OF this, of ?s rd] have "view w (start_run rd s) = (Looping, False, None)"
      using stage same None assms(2,3) by (simp add: same_for_def view_def start_run_def)
    moreover have "view w s = (Registering, False, None)"
      using None assms(2,3) by (simp add: view_def)
    ultimately show ?thesis
      by (simp add: others_start)
  next
    case (Some st)
    then have "w \<in> set (keys (sv_registered s))" "get_worker w ?s \<noteq> None"
      using get_worker_None [of w s] by (auto simp: worker_state_def)
    from spawn_all_in [OF this, of rd] have "view w (start_run rd s) = (Looping, True, Some WRunning)"
      using stage by (simp add: view_def start_run_def)
    moreover have "view w s = (Registering, False, Some WCreated)"
      using Some assms(2,3) by (simp add: view_def)
    ultimately show ?thesis
      by (simp add: started)
  qed
qed

lemma moved_shut_down:
  assumes "sv_stage s = Looping" and "set (keys joined) = set (keys (sv_tasks s))" and "view_ok (view w s)"
  shows "worker_move (view w s) (view w (snd (shutdown_all rd joined s)\<lparr>sv_stage := Finished_run\<rparr>))"
proof -
  let ?ids = "keys (sv_registered s)" and ?e = "snd (shutdown_all rd joined s)\<lparr>sv_stage := Finished_run\<rparr>"
  have "sv_tasks (snd (shutdown_all rd joined s)) = []"
    using assms(2) by (simp add: shutdown_all_def Let_def fold_join_drained fold_finish_worker fold_stop_worker fold_delete_all)
  then have idle: "\<not> in_flight w ?e"
    by (simp add: in_flight_def)
  have "worker_state w ?e = (if worker_state w s = None then None else Some WStopped)"
    using get_worker_None [of w s]
    by (auto simp: shutdown_all_def Let_def fold_join_drained worker_state_def fold_finish_worker fold_stop_worker
        option.map_comp comp_def)
  then have "view w ?e = (Finished_run, False, if worker_state w s = None then None else Some WStopped)"
    using idle by (simp add: view_def)
  then show ?thesis
    using assms(1,3) by (cases "worker_state w s") (auto simp: view_def intro: shut_down others_shut_down split: if_splits)
qed

lemma step_is_a_move:
  assumes inv: "sup_inv s" and ok: "view_ok (view w s)" and step: "sup_step s s'"
  shows "worker_move (view w s) (view w s')"
  using step
proof cases
  case (register spec runner)
  let ?v = "WorkerId (ig_next (sv_id_gen s))"
  have s': "sv_stage s' = Registering" "in_flight w s' = in_flight w s"
    "worker_state w s' = (if w = ?v then Some WCreated else worker_state w s)"
    using register
    by (simp_all add: register_inner_def Let_def case_prod_beta next_worker_id_def id_fetch_add_def in_flight_def
        worker_state_def WorkerHandle_new_def handle_state_def WorkerState_from_u8_def)
  show ?thesis
  proof (cases "w = ?v")
    case True
    then have "worker_state w s = None"
      using register_fresh [OF inv] by (simp add: worker_state_def)
    then show ?thesis
      using s' register ok True registered by (simp add: view_def)
  next
    case False
    then show ?thesis
      using s' register by (simp add: view_def waits)
  qed
next
  case (start rd)
  then show ?thesis
    using moved_start [OF inv _ ok] by simp
next
  case (joined tid v rd outcome)
  then show ?thesis
    using moved_joined [OF inv _ _ ok] by simp
next
  case (tick rd)
  then show ?thesis
    using moved_tick [OF inv] by simp
next
  case (shut_down joined rd)
  then show ?thesis
    using moved_shut_down [OF _ _ ok] by simp
next
  case (heartbeat v r since_epoch)
  then have "same_for w s s'"
    by (auto simp: same_for_def in_flight_def worker_state_def)
  then show ?thesis
    by (rule same_move)
next
  case (report_health name st now h fx)
  then have "same_for w s s'"
    using same_for_trans [OF same_for_fields(2) same_for_log] by simp
  then show ?thesis
    by (rule same_move)
next
  case (rehash m)
  have "map_of m = map_of (sv_registered s)"
    using inv rehash by (simp add: sup_inv_def map_of_inject_set)
  then have "same_for w s s'"
    using rehash by (simp add: same_for_def in_flight_def worker_state_def get_worker_def)
  then show ?thesis
    by (rule same_move)
qed (simp_all add: same_move)

lemma view_steps:
  assumes "sup_start s0" and "sup_step\<^sup>*\<^sup>* s0 s"
  shows "worker_move\<^sup>*\<^sup>* (Registering, False, None) (view w s) \<and> view_ok (view w s)"
  using assms(2)
proof (induction rule: rtranclp_induct)
  case base
  then show ?case
    using assms(1) by (auto simp: sup_start_def view_def Supervisor_new_def in_flight_def worker_state_def get_worker_def)
next
  case (step t u)
  have "worker_move (view w t) (view w u)"
    using supervisor.inv_reachable [OF assms(1) step.hyps(1)] step.IH step.hyps(2) step_is_a_move by blast
  then show ?case
    using step.IH view_ok_move by (auto intro: rtranclp.rtrancl_into_rtrancl)
qed



end
