(* ===== verification/Supervisor_Timing.thy ===== *)
theory Supervisor_Timing
  imports Supervisor_Properties
begin

text \<open>
  The loop of src/worker/supervisor.rs in time: the watchdog's interval, the backoff that \<open>maybe_restart\<close> awaits inside the
  loop, and how long it takes until a silent worker is found. Times are nanoseconds since the epoch, read off one clock.
\<close>

section \<open>The loop in time\<close>

text \<open>
  \<open>tl_deadline\<close> is the watchdog's next tick, \<open>tl_busy\<close> the end of the backoff the loop is awaiting (not after \<open>tl_now\<close> when it
  awaits none), \<open>tl_checked\<close> the last tick it handled.
\<close>

record timed_loop =
  tl_sup :: Supervisor
  tl_now :: nat
  tl_deadline :: nat
  tl_busy :: nat
  tl_checked :: nat

text \<open>How long \<open>maybe_restart\<close> sleeps when the outcome is handled.\<close>

definition slept_for :: "readings \<Rightarrow> WorkerId \<Rightarrow> SupervisorOutcome option \<Rightarrow> Supervisor \<Rightarrow> duration" where
  "slept_for rd w outcome s =
     (case outcome of
        None \<Rightarrow> 0
      | Some out \<Rightarrow>
          (case get_worker w s of
             None \<Rightarrow> 0
           | Some r \<Rightarrow>
               (let has_failed = (out \<noteq> Completed)
                in if restarts rd w has_failed r
                   then backoff_delay (failures_after rd has_failed r) (ws_backoff (rw_spec r)) else 0)))"

text \<open>
  The interval of tokio sets its next deadline to at most \<open>period\<close> after the tick is handled; \<open>latency\<close> bounds what the loop
  spends between two awaits. The loop is \<open>biased\<close>: it joins a task only while no tick is due, and it does neither before
  its backoff is over. The effects of a handler stand at the start of its backoff, which a cancellation cuts short.
\<close>

inductive timed_step :: "nat \<Rightarrow> nat \<Rightarrow> timed_loop \<Rightarrow> timed_loop \<Rightarrow> bool"
  for period latency where
  checks: "sv_stage (tl_sup l) = Looping \<Longrightarrow> \<not> sv_cancelled (tl_sup l) \<Longrightarrow> tl_busy l \<le> tl_now l \<Longrightarrow> tl_deadline l \<le> tl_now l \<Longrightarrow>
    rd_unix rd = Some (tl_now l) \<Longrightarrow> deadline \<le> tl_now l + period \<Longrightarrow>
    timed_step period latency l (l\<lparr>tl_sup := watchdog_tick rd (tl_sup l),
      tl_deadline := deadline, tl_checked := tl_now l\<rparr>)"
| joins: "sv_stage (tl_sup l) = Looping \<Longrightarrow> \<not> sv_cancelled (tl_sup l) \<Longrightarrow> tl_busy l \<le> tl_now l \<Longrightarrow> tl_now l < tl_deadline l \<Longrightarrow>
    (tid, w) \<in> set (sv_tasks (tl_sup l)) \<Longrightarrow> slept \<le> slept_for rd w outcome (tl_sup l) \<Longrightarrow>
    \<not> rd_cancelled_in_backoff rd \<longrightarrow> slept = slept_for rd w outcome (tl_sup l) \<Longrightarrow>
    timed_step period latency l (l\<lparr>tl_sup := join_task rd tid w outcome (tl_sup l), tl_busy := tl_now l + slept\<rparr>)"
| passes: "\<not> sv_cancelled (tl_sup l) \<Longrightarrow> tl_now l < t \<Longrightarrow> t \<le> max (tl_busy l) (tl_deadline l) + latency \<Longrightarrow>
    timed_step period latency l (l\<lparr>tl_now := t\<rparr>)"
| beats: "get_worker w (tl_sup l) = Some r \<Longrightarrow>
    timed_step period latency l (l\<lparr>tl_sup := put_worker w (r\<lparr>rw_last_heartbeat := unix_nanos (Some (tl_now l))\<rparr>) (tl_sup l)\<rparr>)"
| cancels_worker: "timed_step period latency l (l\<lparr>tl_sup := on_handle handle_cancel w (tl_sup l)\<rparr>)"
| cancels: "timed_step period latency l (l\<lparr>tl_sup := (tl_sup l)\<lparr>sv_cancelled := True\<rparr>\<rparr>)"

text \<open>
  When the loop starts no worker has beaten yet, and the watchdog's first tick is at most a period away. \<open>cap\<close> is a bound of the
  backoffs of all workers.
\<close>

definition timed_start :: "nat \<Rightarrow> nat \<Rightarrow> timed_loop \<Rightarrow> bool" where
  "timed_start period cap l \<longleftrightarrow> sup_inv (tl_sup l) \<and> tl_deadline l \<le> tl_now l + period \<and> tl_busy l = tl_now l \<and>
     tl_checked l = tl_now l \<and> (\<forall>(w, r) \<in> set (sv_registered (tl_sup l)).
       rw_last_heartbeat r = 0 \<and> (\<forall>n. backoff_delay n (ws_backoff (rw_spec r)) \<le> cap))"

section \<open>What the handlers leave alone\<close>

text \<open>No handler touches a specification or a last heartbeat.\<close>

definition beat_of :: "WorkerId \<Rightarrow> Supervisor \<Rightarrow> (WorkerSpec \<times> i64) option" where
  "beat_of w s = map_option (\<lambda>r. (rw_spec r, rw_last_heartbeat r)) (get_worker w s)"

lemma beat_fields [simp]:
  "beat_of w (log_fx fx s) = beat_of w s" "beat_of w (s\<lparr>sv_cancelled := b\<rparr>) = beat_of w s"
  "beat_of w (s\<lparr>sv_tasks := ts\<rparr>) = beat_of w s" "beat_of w (s\<lparr>sv_task_to_worker := m\<rparr>) = beat_of w s"
  "beat_of w (s\<lparr>sv_health := h\<rparr>) = beat_of w s" "beat_of w (s\<lparr>sv_shutdown := i\<rparr>) = beat_of w s"
  "beat_of w (s\<lparr>sv_spawned := n\<rparr>) = beat_of w s"
  by (simp_all add: beat_of_def)

lemma beat_put [simp]:
  "beat_of w (put_worker v r s) = (if w = v then Some (rw_spec r, rw_last_heartbeat r) else beat_of w s)"
  by (simp add: beat_of_def)

lemma beat_on_handle [simp]: "beat_of w (on_handle f v s) = beat_of w s"
  by (simp add: beat_of_def option.map_comp comp_def)

lemma beat_spawn [simp]: "beat_of w (spawn_one rd v s) = beat_of w s"
  by (simp add: spawn_one_def Let_def split: option.split)

lemma beat_advance [simp]: "beat_of w (snd (advance_circuit rd v f s)) = beat_of w s"
  by (auto simp: advance_circuit_def Let_def case_prod_beta beat_of_def split: option.split)

lemma beat_criticality [simp]: "beat_of w (apply_criticality now name c s) = beat_of w s"
  by (cases c) (simp_all add: case_prod_beta)

lemma beat_restart_or_stop [simp]: "beat_of w (restart_or_stop rd v f b d n name c s) = beat_of w s"
  by (simp add: restart_or_stop_def Let_def)

lemma beat_maybe_restart [simp]: "beat_of w (maybe_restart rd v f s) = beat_of w s"
proof (cases "get_worker v s")
  case None
  then show ?thesis
    by (simp add: maybe_restart_def advance_circuit_def)
next
  case (Some r)
  show ?thesis
    unfolding maybe_restart_decides [OF Some] by (simp add: beat_of_def [of v s] Some)
qed

lemma beat_outcome [simp]: "beat_of w (handle_outcome rd v out s) = beat_of w s"
  by (simp add: handle_outcome_def Let_def split: option.split)

lemma beat_join [simp]: "beat_of w (join_task rd tid v outcome s) = beat_of w s"
  by (simp add: join_task_def Let_def split: option.split)

lemma beat_half_open [simp]: "beat_of w (half_open_worker rd p s) = beat_of w s"
  by (simp add: half_open_worker_def spawn_one_if_idle_def case_prod_beta)

lemma beat_time_out [simp]: "beat_of w (time_out_worker rd t s) = beat_of w s"
  by (simp add: time_out_worker_def)

lemma fold_keeps: "(\<And>x s. g (f x s) = g s) \<Longrightarrow> g (fold f xs s) = g s"
  by (induction xs arbitrary: s) simp_all

lemma tick_worker_beat [simp]: "rw_last_heartbeat (snd (tick_worker now r)) = rw_last_heartbeat r"
  by (auto simp: tick_worker_def Let_def case_prod_beta split: option.split)

lemma beat_ticked [simp]: "beat_of w (ticked rd s) = beat_of w s"
  by (simp add: beat_of_def get_ticked option.map_comp comp_def)

lemma beat_watchdog_tick [simp]: "beat_of w (watchdog_tick rd s) = beat_of w s"
  by (simp add: watchdog_tick_eq fold_keeps [where g = "beat_of w"])

lemma tick_keeps_cancelled: "sv_cancelled (watchdog_tick rd s) = sv_cancelled s"
proof -
  have "sv_cancelled (half_open_worker rd p s) = sv_cancelled s" for p s
    by (simp add: half_open_worker_def spawn_one_if_idle_def case_prod_beta)
  moreover have "sv_cancelled (time_out_worker rd t s) = sv_cancelled s" for t s
    by (simp add: time_out_worker_def)
  ultimately show ?thesis
    unfolding watchdog_tick_eq by (simp add: fold_keeps [where g = sv_cancelled] ticked_def)
qed

section \<open>Invariant\<close>

definition silent_cancelled :: "nat \<Rightarrow> Supervisor \<Rightarrow> bool" where
  "silent_cancelled checked s \<longleftrightarrow>
     (\<forall>w r interval. get_worker w s = Some r \<longrightarrow> ws_heartbeat_interval (rw_spec r) = Some interval \<longrightarrow> interval < 2 ^ 63 \<longrightarrow>
        0 < sint (rw_last_heartbeat r) \<longrightarrow>
        2 * int interval < int checked - sint (rw_last_heartbeat r) \<longrightarrow> wh_cancelled (rw_handle r))"

definition timed_inv :: "nat \<Rightarrow> nat \<Rightarrow> nat \<Rightarrow> timed_loop \<Rightarrow> bool" where
  "timed_inv period cap latency l \<longleftrightarrow> sup_inv (tl_sup l) \<and>
     (\<forall>w spec hb n. beat_of w (tl_sup l) = Some (spec, hb) \<longrightarrow> backoff_delay n (ws_backoff spec) \<le> cap) \<and>
     tl_deadline l \<le> tl_checked l + period \<and> tl_busy l \<le> tl_checked l + period + cap \<and>
     tl_checked l \<le> tl_now l \<and> tl_now l \<le> tl_checked l + period + cap + latency \<and>
     (tl_now l < 2 ^ 63 \<longrightarrow> silent_cancelled (tl_checked l) (tl_sup l))"

lemma silent_cancelled_evolves:
  assumes "silent_cancelled c s" and "evolves s s'" and same: "\<And>w. beat_of w s' = beat_of w s"
  shows "silent_cancelled c s'"
  unfolding silent_cancelled_def
proof (intro allI impI)
  fix w r' interval
  assume r': "get_worker w s' = Some r'" "ws_heartbeat_interval (rw_spec r') = Some interval" "interval < 2 ^ 63"
    "0 < sint (rw_last_heartbeat r')" "2 * int interval < int c - sint (rw_last_heartbeat r')"
  obtain r where r: "get_worker w s = Some r" "rw_spec r = rw_spec r'" "rw_last_heartbeat r = rw_last_heartbeat r'"
    using same [of w] r'(1) by (cases "get_worker w s") (auto simp: beat_of_def)
  then have "wh_cancelled (rw_handle r)"
    using assms(1) r' unfolding silent_cancelled_def by metis
  then show "wh_cancelled (rw_handle r')"
    using evolves_worker [OF assms(2) r(1) r'(1)] by (simp add: keeps_worker_def)
qed

lemma sint_unix_now: "n < 2 ^ 63 \<Longrightarrow> sint (unix_nanos (Some n)) = int n"
  using sint_unix_nanos [of "Some n"] by (simp add: duration_max_value)

lemma silent_cancelled_tick:
  assumes inv: "sup_inv s" and "sv_stage s = Looping" and unix: "rd_unix rd = Some now" and "now < 2 ^ 63"
  shows "silent_cancelled now (watchdog_tick rd s)"
  unfolding silent_cancelled_def
proof (intro allI impI)
  fix w r' interval
  assume r': "get_worker w (watchdog_tick rd s) = Some r'" "ws_heartbeat_interval (rw_spec r') = Some interval"
    "interval < 2 ^ 63" "0 < sint (rw_last_heartbeat r')" "2 * int interval < int now - sint (rw_last_heartbeat r')"
  obtain r where r: "get_worker w s = Some r" "rw_spec r = rw_spec r'" "rw_last_heartbeat r = rw_last_heartbeat r'"
    using beat_watchdog_tick [of w rd s] r'(1) by (cases "get_worker w s") (auto simp: beat_of_def)
  have id: "wh_id (rw_handle r) = w"
    using inv r(1) by (simp add: sup_inv_def)
  let ?target = "\<lparr>wt_id = wh_id (rw_handle r), wt_name = ws_name (rw_spec r),
    wt_last_heartbeat_nanos = rw_last_heartbeat r, wt_heartbeat_interval = interval\<rparr>"
  have "(w, r) \<in> set (sv_registered s)"
    using r(1) by (simp add: get_worker_def map_of_SomeD)
  then have "?target \<in> set (watchdog_targets (sv_registered s))"
    using r(2) r'(2) by (force simp: watchdog_targets_def)
  moreover obtain t where "check_target (unix_nanos (rd_unix rd)) ?target = [t]" and t: "to_id t = w"
    using r' r id assms(4) by (simp add: check_target_exact unix sint_unix_now)
  ultimately have "t \<in> set (watchdog_check (watchdog_targets (sv_registered s)) (unix_nanos (rd_unix rd)))"
    by (force simp: watchdog_check_def)
  then obtain q where "get_worker (to_id t) (watchdog_tick rd s) = Some q" "wh_cancelled (rw_handle q)"
    using watchdog_tick_cancels [OF inv] assms(2) by auto
  then show "wh_cancelled (rw_handle r')"
    using r'(1) t by simp
qed

lemma slept_bounded:
  "(\<And>spec hb n. beat_of w s = Some (spec, hb) \<Longrightarrow> backoff_delay n (ws_backoff spec) \<le> cap) \<Longrightarrow>
   slept_for rd w outcome s \<le> cap"
  by (auto simp: slept_for_def beat_of_def Let_def split: option.split)

lemma timed_inv_step:
  assumes inv: "timed_inv period cap latency l" and "timed_step period latency l l'"
  shows "timed_inv period cap latency l'"
  using assms(2)
proof cases
  case (checks rd deadline)
  let ?s = "tl_sup l"
  have s: "sup_inv (watchdog_tick rd ?s)"
    using inv_watchdog_tick [of ?s rd] inv checks(2) by (simp add: timed_inv_def)
  have "tl_now l < 2 ^ 63 \<Longrightarrow> silent_cancelled (tl_now l) (watchdog_tick rd ?s)"
    using silent_cancelled_tick [OF _ checks(2) checks(6)] inv by (simp add: timed_inv_def)
  then show ?thesis
    using inv checks s by (simp add: timed_inv_def)
next
  case (joins tid w slept rd outcome)
  let ?s = "tl_sup l"
  have s: "sup_inv (join_task rd tid w outcome ?s)" "evolves ?s (join_task rd tid w outcome ?s)"
    using inv_join_task [of ?s tid w rd outcome] inv joins(2,6) by (simp_all add: timed_inv_def)
  have "slept_for rd w outcome ?s \<le> cap"
    by (rule slept_bounded) (use inv in \<open>auto simp: timed_inv_def\<close>)
  then show ?thesis
    using inv joins s silent_cancelled_evolves [OF _ s(2)] by (auto simp: timed_inv_def)
next
  case (passes t)
  then show ?thesis
    using inv by (auto simp: timed_inv_def)
next
  case (beats w r)
  let ?s = "tl_sup l" and ?r = "r\<lparr>rw_last_heartbeat := unix_nanos (Some (tl_now l))\<rparr>"
  have "sup_inv (put_worker w ?r ?s)"
    using sup_inv_step [OF _ sup_step.heartbeat [OF beats(2)]] inv by (simp add: timed_inv_def)
  moreover have "beat_of w ?s = Some (rw_spec r, rw_last_heartbeat r)"
    using beats(2) by (simp add: beat_of_def)
  moreover have "silent_cancelled (tl_checked l) (put_worker w ?r ?s)" if "tl_now l < 2 ^ 63"
    using that inv by (auto simp: timed_inv_def silent_cancelled_def sint_unix_now)
  ultimately show ?thesis
    using inv beats(1) by (auto simp: timed_inv_def)
next
  case (cancels_worker w)
  have "sup_inv (on_handle handle_cancel w (tl_sup l))" "evolves (tl_sup l) (on_handle handle_cancel w (tl_sup l))"
    using sup_inv_step [OF _ sup_step.cancel_handle, of "tl_sup l" w] inv by (simp_all add: timed_inv_def)
  then show ?thesis
    using inv cancels_worker silent_cancelled_evolves [of "tl_checked l" "tl_sup l"] by (auto simp: timed_inv_def)
next
  case cancels
  have "sup_inv ((tl_sup l)\<lparr>sv_cancelled := True\<rparr>)" "evolves (tl_sup l) ((tl_sup l)\<lparr>sv_cancelled := True\<rparr>)"
    using sup_inv_step [OF _ sup_step.cancel, of "tl_sup l"] inv by (simp_all add: timed_inv_def)
  then show ?thesis
    using inv cancels silent_cancelled_evolves [of "tl_checked l" "tl_sup l"] by (auto simp: timed_inv_def)
qed

lemma timed_inv_start: "timed_start period cap l \<Longrightarrow> timed_inv period cap latency l"
  by (fastforce simp: timed_start_def timed_inv_def silent_cancelled_def beat_of_def get_worker_def dest: map_of_SomeD)

interpretation timing: invariant_system "timed_start period cap" "timed_step period latency" "timed_inv period cap latency"
  for period cap latency
  by unfold_locales (fact timed_inv_start, fact timed_inv_step)

section \<open>Properties\<close>


text \<open>Nothing is checked before the backoff of a restarted worker is over.\<close>

lemma no_check_while_busy:
  assumes "(timed_step period latency)\<^sup>*\<^sup>* l l'"
  shows "tl_busy l \<le> tl_busy l' \<and> (tl_checked l' = tl_checked l \<or> tl_busy l \<le> tl_checked l')"
  using assms
proof (induction rule: rtranclp_induct)
  case (step l' l'')
  from step.hyps(2) step.IH show ?case
    by cases auto
qed simp

theorem backoff_holds_back_the_watchdog:
  assumes "(timed_step period latency)\<^sup>*\<^sup>*
    (l\<lparr>tl_sup := join_task rd tid w (Some out) (tl_sup l), tl_busy := tl_now l + slept_for rd w (Some out) (tl_sup l)\<rparr>) l'"
  shows "tl_checked l' = tl_checked l \<or> tl_now l + slept_for rd w (Some out) (tl_sup l) \<le> tl_checked l'"
  using no_check_while_busy [OF assms] by simp

abbreviation beating_spec :: WorkerSpec where
  "beating_spec \<equiv> spec_heartbeat 5 (WorkerSpec_new ''w'')"

lemma beating_spec_backoff: "backoff_delay n (ws_backoff beating_spec) \<le> 30000000000"
proof -
  have "from_millis 100 \<le> duration_max" "from_secs 30 \<le> duration_max" "from_secs 30 = 30000000000"
    by (simp_all add: from_millis_def from_secs_def nanos_per_sec_def duration_max_value)
  then show ?thesis
    using backoff_exponential [of "from_millis 100" "from_secs 30" n]
    by (simp add: spec_heartbeat_def WorkerSpec_new_def BackoffPolicy_default_def)
qed


end
