(* ===== verification/Supervisor_Drain.thy ===== *)
theory Supervisor_Drain
  imports Supervisor_Properties
begin

text \<open>
  \<open>Supervisor::shutdown_all\<close> of src/worker/supervisor.rs in time: the loop that joins tasks until the grace period is over,
  \<open>abort_all\<close>, and the loop that joins what is left. Aborting a task is a request: an asynchronous task is gone at its next await,
  a synchronous worker runs on a thread of the blocking pool and, once it runs, only ends by itself.
\<close>

section \<open>Steps\<close>

record drain_world =
  dw_sup :: Supervisor
  dw_counts :: "nat \<times> nat"
  dw_now :: nat
  dw_deadline :: nat
  dw_aborted :: bool
  dw_joined :: "(nat \<times> join_result) list"

text \<open>\<open>running\<close> tells of a task id whether a thread of the blocking pool has taken it up.\<close>

definition blocking :: "(nat \<Rightarrow> bool) \<Rightarrow> Supervisor \<Rightarrow> nat \<times> WorkerId \<Rightarrow> bool" where
  "blocking running s = (\<lambda>(tid, w). running tid \<and> map_option rw_runner (get_worker w s) = Some SyncRunner)"

definition join_one :: "nat \<Rightarrow> join_result \<Rightarrow> drain_world \<Rightarrow> drain_world" where
  "join_one tid res d =
     (let (counts, s) = join_drained (tid, res) (dw_counts d, dw_sup d)
      in d\<lparr>dw_sup := s, dw_counts := counts, dw_joined := dw_joined d @ [(tid, res)]\<rparr>)"

text \<open>
  \<open>latency\<close> bounds how late the time-out fires together with how long an asynchronous task may run without an await; beyond it
  time passes only while every task left is a blocking one.
\<close>

inductive drain_step :: "(nat \<Rightarrow> bool) \<Rightarrow> nat \<Rightarrow> drain_world \<Rightarrow> drain_world \<Rightarrow> bool"
  for running latency where
  ends: "(tid, w) \<in> set (sv_tasks (dw_sup d)) \<Longrightarrow> res \<noteq> JoinCancelled \<Longrightarrow> drain_step running latency d (join_one tid res d)"
| expires: "\<not> dw_aborted d \<Longrightarrow> dw_deadline d \<le> dw_now d \<Longrightarrow> sv_tasks (dw_sup d) \<noteq> [] \<Longrightarrow>
    drain_step running latency d (d\<lparr>dw_aborted := True\<rparr>)"
| is_aborted: "dw_aborted d \<Longrightarrow> (tid, w) \<in> set (sv_tasks (dw_sup d)) \<Longrightarrow> \<not> blocking running (dw_sup d) (tid, w) \<Longrightarrow>
    drain_step running latency d (join_one tid JoinCancelled d)"
| waits: "sv_tasks (dw_sup d) \<noteq> [] \<Longrightarrow> dw_now d < t \<Longrightarrow>
    \<not> dw_aborted d \<or> (\<exists>p \<in> set (sv_tasks (dw_sup d)). \<not> blocking running (dw_sup d) p) \<longrightarrow> t \<le> dw_deadline d + latency \<Longrightarrow>
    drain_step running latency d (d\<lparr>dw_now := t\<rparr>)"

definition drain_start :: "readings \<Rightarrow> Supervisor \<Rightarrow> drain_world \<Rightarrow> bool" where
  "drain_start rd s d \<longleftrightarrow> sup_inv s \<and>
     d = \<lparr>dw_sup = fold (stop_worker rd) (keys (sv_registered s)) s, dw_counts = (0, 0), dw_now = dw_now d,
          dw_deadline = dw_now d + SUPERVISOR_SHUTDOWN_GRACE, dw_aborted = False, dw_joined = []\<rparr>"

section \<open>Invariant\<close>

definition drain_inv :: "(nat \<Rightarrow> bool) \<Rightarrow> nat \<Rightarrow> readings \<Rightarrow> Supervisor \<Rightarrow> drain_world \<Rightarrow> bool" where
  "drain_inv running latency rd s d \<longleftrightarrow>
     fold join_drained (dw_joined d) ((0, 0), fold (stop_worker rd) (keys (sv_registered s)) s) = (dw_counts d, dw_sup d) \<and>
     (\<forall>p. blocking running (dw_sup d) p = blocking running s p) \<and>
     set (sv_tasks (dw_sup d)) = {p \<in> set (sv_tasks s). fst p \<notin> set (keys (dw_joined d))} \<and>
     set (keys (dw_joined d)) \<subseteq> set (keys (sv_tasks s)) \<and> distinct (keys (dw_joined d)) \<and>
     (dw_aborted d \<longrightarrow> dw_deadline d \<le> dw_now d) \<and>
     (\<forall>(tid, res) \<in> set (dw_joined d). res = JoinCancelled \<longrightarrow>
        dw_aborted d \<and> (\<exists>w. (tid, w) \<in> set (sv_tasks s) \<and> \<not> blocking running s (tid, w))) \<and>
     (dw_deadline d + latency < dw_now d \<longrightarrow> dw_aborted d \<and> (\<forall>p \<in> set (sv_tasks (dw_sup d)). blocking running s p))"

lemma join_one_fields [simp]:
  "dw_now (join_one tid res d) = dw_now d" "dw_deadline (join_one tid res d) = dw_deadline d"
  "dw_aborted (join_one tid res d) = dw_aborted d" "dw_joined (join_one tid res d) = dw_joined d @ [(tid, res)]"
  "sv_tasks (dw_sup (join_one tid res d)) = AList.delete tid (sv_tasks (dw_sup d))"
  "get_worker w (dw_sup (join_one tid res d)) = get_worker w (dw_sup d)"
  by (simp_all add: join_one_def join_drained_def case_prod_beta)

lemma join_one_counts: "(dw_counts (join_one tid res d), dw_sup (join_one tid res d)) = join_drained (tid, res) (dw_counts d, dw_sup d)"
  by (simp add: join_one_def case_prod_beta)

lemma drain_inv_join:
  assumes inv: "drain_inv running latency rd s d" and task: "(tid, w) \<in> set (sv_tasks (dw_sup d))"
    and res: "res = JoinCancelled \<Longrightarrow> dw_aborted d \<and> \<not> blocking running (dw_sup d) (tid, w)"
  shows "drain_inv running latency rd s (join_one tid res d)"
proof -
  let ?d = "join_one tid res d"
  have tasks: "set (sv_tasks (dw_sup ?d)) = {p \<in> set (sv_tasks s). fst p \<notin> set (keys (dw_joined ?d))}"
    using inv by (auto simp: drain_inv_def AList.delete_eq)
  have new: "tid \<notin> set (keys (dw_joined d))" "(tid, w) \<in> set (sv_tasks s)"
    using inv task by (auto simp: drain_inv_def)
  have same: "blocking running (dw_sup ?d) p = blocking running s p" for p
    using inv by (simp add: drain_inv_def blocking_def case_prod_beta)
  have counts: "fold join_drained (dw_joined ?d) ((0, 0), fold (stop_worker rd) (keys (sv_registered s)) s) =
      (dw_counts ?d, dw_sup ?d)"
    using inv unfolding join_one_counts by (simp add: drain_inv_def)
  have in_keys: "tid \<in> set (keys (sv_tasks s))"
    using new(2) by force
  have keys: "set (keys (dw_joined ?d)) \<subseteq> set (keys (sv_tasks s))" "distinct (keys (dw_joined ?d))"
    using inv new(1) in_keys by (simp_all add: drain_inv_def)
  have results: "\<forall>(t, r) \<in> set (dw_joined ?d). r = JoinCancelled \<longrightarrow>
      dw_aborted ?d \<and> (\<exists>w. (t, w) \<in> set (sv_tasks s) \<and> \<not> blocking running s (t, w))"
    using inv res new(2) by (auto simp: drain_inv_def)
  have late: "dw_deadline ?d + latency < dw_now ?d \<longrightarrow> dw_aborted ?d \<and> (\<forall>p \<in> set (sv_tasks (dw_sup ?d)). blocking running s p)"
    using inv by (auto simp: drain_inv_def AList.delete_eq)
  have grace: "dw_aborted ?d \<longrightarrow> dw_deadline ?d \<le> dw_now ?d"
    using inv by (simp add: drain_inv_def)
  show ?thesis
    unfolding drain_inv_def by (intro conjI allI counts same tasks keys results late grace)
qed

lemma drain_inv_step:
  assumes inv: "drain_inv running latency rd s d" and step: "drain_step running latency d d'"
  shows "drain_inv running latency rd s d'"
  using step
proof cases
  case (ends tid w res)
  show ?thesis
    unfolding ends(1) using ends(3) by (intro drain_inv_join [OF inv ends(2)]) simp
next
  case expires
  then show ?thesis
    using inv by (auto simp: drain_inv_def)
next
  case (is_aborted tid w)
  show ?thesis
    unfolding is_aborted(1) using is_aborted(2,4) by (intro drain_inv_join [OF inv is_aborted(3)]) simp
next
  case (waits t)
  then show ?thesis
    using inv by (auto simp: drain_inv_def)
qed

lemma drain_inv_start: "drain_start rd s d \<Longrightarrow> drain_inv running latency rd s d"
proof -
  assume start: "drain_start rd s d"
  let ?d = "\<lparr>dw_sup = fold (stop_worker rd) (keys (sv_registered s)) s, dw_counts = (0, 0), dw_now = dw_now d,
          dw_deadline = dw_now d + SUPERVISOR_SHUTDOWN_GRACE, dw_aborted = False, dw_joined = []\<rparr>"
  have "map_option rw_runner (get_worker w (fold (stop_worker rd) (keys (sv_registered s)) s)) =
      map_option rw_runner (get_worker w s)" for w
    by (cases "get_worker w s") (simp_all add: fold_stop_worker)
  then have "drain_inv running latency rd s ?d"
    by (simp only: drain_inv_def drain_world.select_convs blocking_def fold_stop_worker) simp
  then show ?thesis
    using start unfolding drain_start_def by metis
qed

interpretation draining: invariant_system "drain_start rd s" "drain_step running latency" "drain_inv running latency rd s"
  for rd s running latency
  by unfold_locales (fact drain_inv_start, fact drain_inv_step)

section \<open>Properties\<close>



text \<open>
  There is no bound on the time the drain takes: while the tasks left are running synchronous workers, any amount of
  time may pass.
\<close>

theorem blocking_worker_holds_up_the_shutdown:
  assumes "dw_aborted d" and "sv_tasks (dw_sup d) \<noteq> []"
    and "\<And>p. p \<in> set (sv_tasks (dw_sup d)) \<Longrightarrow> blocking running (dw_sup d) p" and "dw_now d < t"
  shows "drain_step running latency d (d\<lparr>dw_now := t\<rparr>)"
  using assms by (intro drain_step.waits) auto

end
