(* ===== verification/Supervisor_Health.thy ===== *)
theory Supervisor_Health
  imports Worker_Machine
begin

text \<open>
  The supervisor of src/worker/supervisor.rs together with the health registry of src/health/registry.rs: what the
  supervisor reports, and how long it stays.
\<close>

section \<open>What the handlers report\<close>

lemma health_restart_or_stop:
  "sv_health (restart_or_stop rd w f restart delay n name c s) = sv_health s \<or>
   (\<exists>status. (c, status) \<in> {(Essential, H_Unhealthy), (Optional, H_Degraded)} \<and>
      sv_health (restart_or_stop rd w f restart delay n name c s) = fst (report name status (rd_health rd w) (sv_health s)))"
  by (cases c) (simp_all add: restart_or_stop_def Let_def case_prod_beta)

text \<open>An ended task leaves the registry alone or reports its worker under the status of its criticality.\<close>

lemma health_outcome:
  assumes r: "get_worker w s = Some r"
  shows "sv_health (handle_outcome rd w out s) = sv_health s \<or>
    (\<exists>status. (ws_criticality (rw_spec r), status) \<in> {(Essential, H_Unhealthy), (Optional, H_Degraded)} \<and>
       sv_health (handle_outcome rd w out s) = fst (report (ws_name (rw_spec r)) status (rd_health rd w) (sv_health s)))"
proof (rule handle_outcome_decides [OF r, of rd out])
  fix s1
  assume eq: "handle_outcome rd w out s = restart_or_stop rd w (out \<noteq> Completed) (restarts rd w (out \<noteq> Completed) r)
      (backoff_delay (failures_after rd (out \<noteq> Completed) r) (ws_backoff (rw_spec r)))
      (failures_after rd (out \<noteq> Completed) r) (ws_name (rw_spec r)) (ws_criticality (rw_spec r)) s1"
    and h: "sv_health s1 = sv_health s"
  show ?thesis
    unfolding eq h [symmetric] by (rule health_restart_or_stop)
qed

lemma health_quiet_handlers [simp]:
  "sv_health (stop_worker rd w s) = sv_health s" "sv_health (finish_worker rd w s) = sv_health s"
  "sv_health (half_open_worker rd p s) = sv_health s" "sv_health (time_out_worker rd t s) = sv_health s"
  by (simp_all add: stop_worker_def finish_worker_def half_open_worker_def spawn_one_if_idle_def time_out_worker_def case_prod_beta)

lemma health_fold: "(\<And>x s. sv_health (f x s) = sv_health s) \<Longrightarrow> sv_health (fold f xs s) = sv_health s"
  by (induction xs arbitrary: s) simp_all

lemma health_phases [simp]:
  "sv_health (start_run rd s) = sv_health s" "sv_health (watchdog_tick rd s) = sv_health s"
  "sv_health (snd (shutdown_all rd joined s)) = sv_health s" "sv_health (snd (register_inner spec runner s)) = sv_health s"
  by (simp_all add: start_run_def watchdog_tick_def shutdown_all_def register_inner_def Let_def case_prod_beta
      fold_join_drained health_fold)

lemma health_joined:
  "sv_health (join_task rd tid w outcome s) = sv_health s \<or>
   (\<exists>r status. get_worker w s = Some r \<and> (ws_criticality (rw_spec r), status) \<in> {(Essential, H_Unhealthy), (Optional, H_Degraded)} \<and>
      sv_health (join_task rd tid w outcome s) = fst (report (ws_name (rw_spec r)) status (rd_health rd w) (sv_health s)))"
proof (cases outcome)
  case (Some out)
  show ?thesis
  proof (cases "get_worker w s")
    case None
    then show ?thesis
      by (simp add: join_task_def Some handle_outcome_def)
  next
    case r: (Some r)
    then have "get_worker w (without_task tid s) = Some r"
      by simp
    from health_outcome [OF this, of rd out] r show ?thesis
      by (simp add: join_task_def Some)
  qed
qed (simp add: join_task_def)

section \<open>The registry stays consistent\<close>

lemma health_inv_report: "health_inv r \<Longrightarrow> health_inv (fst (report k status now r))"
  using health_machine.inv_fold [of r "[(k, status, now)]"] by simp

lemma health_inv_step:
  assumes "health_inv (sv_health s)" and "sup_step s t"
  shows "health_inv (sv_health t)"
  using assms(2)
proof cases
  case (joined tid w rd outcome)
  then show ?thesis
    using health_joined [of rd tid w outcome s] assms(1) health_inv_report by metis
next
  case (report_health name st now h fx)
  then show ?thesis
    using health_inv_report [OF assms(1), of name st now] by simp
qed (simp_all add: assms(1))

text \<open>
  A supervisor that starts with a consistent registry: its own invariant, the machines of its workers, and an aggregate
  that is the worst status.
\<close>

definition supervised_health :: "Supervisor \<Rightarrow> bool" where
  "supervised_health s \<longleftrightarrow> sup_inv s \<and> (\<forall>w. view_ok (view w s)) \<and> health_inv (sv_health s)"

interpretation health_system: invariant_system "\<lambda>s. sup_start s \<and> health_inv (sv_health s)" sup_step supervised_health
proof
  fix s t
  show "supervised_health s" if "sup_start s \<and> health_inv (sv_health s)"
    using that supervisor.inv_start [of s]
    by (auto simp: supervised_health_def sup_start_def view_def Supervisor_new_def in_flight_def worker_state_def get_worker_def)
  show "supervised_health t" if "supervised_health s" "sup_step s t"
    using that sup_inv_step [of s t] step_is_a_move view_ok_move health_inv_step unfolding supervised_health_def by blast
qed


section \<open>A failed worker stays in the registry\<close>

text \<open>Steps in which no other part of the program changes the health: what changes it is an ended task of the supervisor.\<close>

definition own_step :: "Supervisor \<Rightarrow> Supervisor \<Rightarrow> bool" where
  "own_step s t \<longleftrightarrow> sup_step s t \<and>
     (sv_health t = sv_health s \<or> (\<exists>rd tid w outcome. (tid, w) \<in> set (sv_tasks s) \<and> t = join_task rd tid w outcome s))"

text \<open>After registration no worker is added.\<close>

lemma settled_workers:
  assumes s: "supervised_health s" and step: "sup_step s t" and st: "sv_stage s \<noteq> Registering"
  shows "sv_stage t \<noteq> Registering \<and> (\<forall>v r'. get_worker v t = Some r' \<longrightarrow> (\<exists>r. get_worker v s = Some r \<and> rw_spec r' = rw_spec r))"
proof (intro conjI allI impI)
  have move: "worker_move (view v s) (view v t)" for v
    using s step step_is_a_move by (simp add: supervised_health_def)
  show "sv_stage t \<noteq> Registering"
    using move [of undefined] st by (auto simp: view_def elim: worker_moveE)
  fix v r'
  assume r': "get_worker v t = Some r'"
  then have some: "worker_state v t \<noteq> None"
    by (simp add: worker_state_def)
  have "worker_state v s \<noteq> None"
    using move [of v] by (rule worker_moveE) (use st some in \<open>auto simp: view_def\<close>)
  then obtain r where "get_worker v s = Some r"
    by (auto simp: worker_state_def)
  moreover have "evolves s t"
    using s step sup_inv_step by (simp add: supervised_health_def)
  ultimately show "\<exists>r. get_worker v s = Some r \<and> rw_spec r' = rw_spec r"
    using evolves_worker [OF _ _ r'] by (auto simp: keeps_worker_def)
qed

lemma hr_subsystem_report: "hr_subsystem n (fst (report k status now r)) = (if n = k then Some status else hr_subsystem n r)"
  by (simp add: hr_subsystem_def report_subsystems update_Some_unfold map_of_update)

definition marked :: "string \<Rightarrow> Criticality \<Rightarrow> HealthStatus \<Rightarrow> Supervisor \<Rightarrow> bool" where
  "marked nm c status s \<longleftrightarrow> supervised_health s \<and> sv_stage s \<noteq> Registering \<and>
     (\<forall>v r. get_worker v s = Some r \<longrightarrow> ws_name (rw_spec r) = nm \<longrightarrow> ws_criticality (rw_spec r) = c) \<and>
     hr_subsystem nm (sv_health s) = Some status"

lemma marked_step:
  assumes m: "marked nm c status s" and step: "own_step s t"
    and c: "(c, status) \<in> {(Essential, H_Unhealthy), (Optional, H_Degraded)}"
  shows "marked nm c status t"
proof -
  have s: "supervised_health s" "sv_stage s \<noteq> Registering" "sup_step s t"
    using m step by (simp_all add: marked_def own_step_def)
  note settled_workers [OF s(1,3,2)]
  moreover have "supervised_health t"
    using s health_system.inv_step by blast
  moreover have "hr_subsystem nm (sv_health t) = Some status"
    using step unfolding own_step_def
  proof (elim conjE disjE exE)
    fix rd tid w outcome
    assume t: "t = join_task rd tid w outcome s"
    show ?thesis
      using health_joined [of rd tid w outcome s] m c by (auto simp: t marked_def hr_subsystem_report)
  qed (use m in \<open>simp add: marked_def\<close>)
  ultimately show ?thesis
    using m by (fastforce simp: marked_def)
qed




text \<open>An example: a worker that fails once, is tried again by its breaker, and then completes.\<close>

lemma tick_tries_again:
  assumes "sv_registered s = [(w, r)]" "sv_tasks s = []" "sv_task_to_worker s = []" "rw_circuit r = Some b"
    and "circuit_state b = Open" "cb_opened_at b = Some t"
    and "cp_open_duration (cb_policy b) \<le> Instant_duration_since (rd_breaker rd w) t" "ws_heartbeat_interval (rw_spec r) = None"
  shows "sv_tasks (watchdog_tick rd s) = [(sv_spawned s, w)] \<and> sv_stage (watchdog_tick rd s) = sv_stage s \<and>
    sv_cancelled (watchdog_tick rd s) = sv_cancelled s"
  using assms by (simp add: watchdog_tick_def watchdog_targets_def watchdog_check_def tick_worker_def circuit_tick_def
      half_open_worker_def spawn_one_if_idle_def spawn_one_def get_worker_def Let_def)

abbreviation mended_spec :: WorkerSpec where
  "mended_spec \<equiv> spec_essential (spec_circuit (CircuitPolicy_new 1 10 0) (spec_restart_never (WorkerSpec_new ''db'')))"

abbreviation broken :: Supervisor where
  "broken \<equiv> join_task (demo_readings 9) 0 (WorkerId 0) (Some (FailedWith (WorkerError_new ''io''))) (demo_supervisor mended_spec)"

lemma broken_worker:
  obtains r where "sv_registered broken = [(WorkerId 0, r)]" "rw_spec r = mended_spec"
    "rw_circuit r = Some (snd (record_failure 0 (CircuitBreaker_new (CircuitPolicy_new 1 10 0))))"
    "sv_tasks broken = []" "sv_task_to_worker broken = []" "sv_stage broken = Looping" "\<not> sv_cancelled broken"
    "\<not> restarts (demo_readings 9) (WorkerId 0) True (demo_worker mended_spec)"
    "sup_step (demo_supervisor mended_spec) broken"
proof -
  let ?w = "WorkerId 0" and ?d = "demo_supervisor mended_spec" and ?rd = "demo_readings 9"
  let ?s = "without_task 0 ?d" and ?r = "after_outcome ?rd ?w True (demo_worker mended_spec)"
  have d: "get_worker ?w ?s = Some (demo_worker mended_spec)" "sv_tasks ?d = [(0, ?w)]" "sv_stage ?d = Looping" "\<not> sv_cancelled ?d"
    using demo_supervisor_worker [of mended_spec] by simp_all
  have nr: "\<not> restarts ?rd ?w True (demo_worker mended_spec)"
    by (simp add: restarts_def spec_essential_def spec_circuit_def spec_restart_never_def)
  have step: "sup_step ?d broken"
    using d by (intro sup_step.joined) simp_all
  then have inv: "sup_inv broken"
    using sup_inv_step demo_supervisor_inv by blast
  note out = outcome_stopped [OF d(1), of ?rd "FailedWith (WorkerError_new ''io'')"]
  have b: "get_worker ?w broken = Some (?r\<lparr>rw_handle := handle_set_state WStopped (rw_handle ?r)\<rparr>)" "sv_tasks broken = []"
      "\<not> sv_cancelled broken"
    using out nr d by (simp_all add: join_task_def)
  have "v = ?w" if "v \<in> set (keys (sv_registered broken))" for v
  proof (rule ccontr)
    assume v: "v \<noteq> ?w"
    then have "worker_state v broken = worker_state v ?s"
      using same_for_outcome [OF v, of ?s ?rd] by (simp add: same_for_def join_task_def)
    then have "get_worker v broken = None"
      using v demo_registered [of mended_spec] by (simp add: worker_state_def get_worker_def)
    with that show False
      by (simp add: get_worker_def map_of_eq_None_iff)
  qed
  moreover have "?w \<in> set (keys (sv_registered broken))"
    using b(1) by (force simp: get_worker_def dest: map_of_SomeD)
  ultimately have "set (keys (sv_registered broken)) = {?w}"
    by blast
  moreover have "distinct (keys (sv_registered broken))"
    using inv by (simp add: sup_inv_def)
  ultimately have "length (sv_registered broken) = 1"
    by (metis distinct_card card.empty card_insert_disjoint empty_iff finite.emptyI length_map One_nat_def)
  then obtain p where p: "sv_registered broken = [p]"
    by (auto simp: length_Suc_conv)
  then have "sv_registered broken = [(?w, ?r\<lparr>rw_handle := handle_set_state WStopped (rw_handle ?r)\<rparr>)]"
    using b(1) by (cases p) (auto simp: get_worker_def split: if_splits)
  moreover have "sv_stage broken = Looping"
    using join_task_stage [of ?rd 0 ?w _ ?d] d(3) by simp
  moreover have "sv_task_to_worker broken = []"
    using inv b(2) by (simp add: sup_inv_def)
  ultimately show ?thesis
    using that b(2,3) nr step
    by (simp add: after_outcome_def circuit_after_def spec_essential_def spec_circuit_def demo_readings_def)
qed




end
