(* ===== verification/Shutdown_Timing.thy ===== *)
theory Shutdown_Timing
  imports Shutdown
begin

text \<open>
  \<open>ShutdownCoordinator::shutdown\<close> of src/shutdown/coordinator.rs in time: each hook is awaited under a time-out of what is left
  until the deadline, and once nothing is left the other hooks are not run.
\<close>

section \<open>Clocks\<close>

text \<open>
  What \<open>tokio::time::timeout\<close> promises of the readings of one call: an iteration of the loop ends at most \<open>slack\<close> after the
  time-out it gave its hook, and nothing between two readings takes longer than \<open>slack\<close>. \<open>sc_hook n\<close>, after the last of
  \<open>n\<close> hooks, is the time the loop is left.
\<close>

definition paced :: "nat \<Rightarrow> instant \<Rightarrow> nat \<Rightarrow> (nat \<Rightarrow> instant) \<Rightarrow> bool" where
  "paced slack deadline n now \<longleftrightarrow>
     (\<forall>i<n. now (Suc i) \<le> now i + int (ShutdownContext_remaining (now i) deadline) + int slack)"

definition timely :: "nat \<Rightarrow> ShutdownCoordinator \<Rightarrow> shutdown_clock \<Rightarrow> bool" where
  "timely slack co clock \<longleftrightarrow>
     sc_std_started clock \<le> sc_started clock + int slack \<and> sc_hook clock 0 \<le> sc_std_started clock + int slack \<and>
     paced slack (sc_std_started clock + int (co_grace co)) (hook_count co) (sc_hook clock) \<and>
     sc_completed clock \<le> sc_hook clock (hook_count co) + int slack"

lemma remaining_value: "int (ShutdownContext_remaining now deadline) = max 0 (deadline - now)"
  by (simp add: ShutdownContext_remaining_def checked_duration_since_def)

text \<open>However many hooks use up their time-outs, the deadline is overrun only by the slack of each iteration.\<close>

lemma paced_end:
  "paced slack deadline n now \<Longrightarrow> now n \<le> max (now 0) deadline + int n * int slack"
proof (induction n)
  case (Suc n)
  have step: "now (Suc n) \<le> max (now n) deadline + int slack"
    using Suc.prems by (auto simp: paced_def remaining_value)
  have "now n \<le> max (now 0) deadline + int n * int slack"
    using Suc by (simp add: paced_def)
  moreover have "0 \<le> int n * int slack"
    by simp
  ultimately have "max (now n) deadline \<le> max (now 0) deadline + int n * int slack"
    by linarith
  with step have "now (Suc n) \<le> max (now 0) deadline + (int n * int slack + int slack)"
    by linarith
  then show ?case
    by (simp add: algebra_simps)
qed simp

section \<open>Property\<close>



end
