(* ===== verification/Event_Delivery.thy ===== *)
theory Event_Delivery
  imports Lifecycle_Controller Dispatcher
begin

text \<open>
  The lifecycle controller (src/lifecycle/controller.rs) and the dispatcher (src/events/dispatcher.rs) put together, the way the
  builder wires them: what the subscribers of the lifecycle topics see of the requests made of the controller.
\<close>

section \<open>Delivering a log\<close>

text \<open>The events of a log, each emitted to the handlers its topic has.\<close>

definition deliver ::
    "('h \<Rightarrow> KernelEvent \<Rightarrow> 'w \<Rightarrow> 'w handler_result) \<Rightarrow> 'h dispatcher \<Rightarrow> effect list \<Rightarrow> 'w \<Rightarrow> 'w" where
  "deliver run d fx w = fold (\<lambda>e. EventHandle_emit run e d) (events_of fx) w"

text \<open>Handlers that write down that they were called, whether they then return or panic.\<close>

definition records :: "('h \<Rightarrow> KernelEvent \<Rightarrow> ('h \<times> KernelEvent) list \<Rightarrow> ('h \<times> KernelEvent) list handler_result) \<Rightarrow> bool" where
  "records run \<longleftrightarrow> (\<forall>h e w. run h e w \<in> {Finished (w @ [(h, e)]), Panicked (w @ [(h, e)])})"

lemma emit_recorded:
  assumes "records run"
  shows "emit run e d w = w @ map (\<lambda>h. (h, e)) (emit_handlers e d)"
proof -
  have "contained (run h e w) = w @ [(h, e)]" for h w
    using assms unfolding records_def by (metis contained.simps insertE singletonD)
  then have "fold (\<lambda>h w. contained (run h e w)) hs w = w @ map (\<lambda>h. (h, e)) hs" for hs
    by (induction hs arbitrary: w) simp_all
  then show ?thesis
    by (simp add: emit_def)
qed

lemma deliver_recorded:
  assumes "records run"
  shows "deliver run d fx w = w @ concat (map (\<lambda>e. map (\<lambda>h. (h, e)) (emit_handlers e d)) (events_of fx))"
proof -
  have "fold (\<lambda>e. emit run e d) es w = w @ concat (map (\<lambda>e. map (\<lambda>h. (h, e)) (emit_handlers e d)) es)" for es
    by (induction es arbitrary: w) (simp_all add: emit_recorded [OF assms])
  then show ?thesis
    by (simp add: deliver_def)
qed

section \<open>How often a state is entered\<close>

fun state_rank :: "KernelState \<Rightarrow> nat" where
  "state_rank Created = 0"
| "state_rank Booting = 1"
| "state_rank Loading = 2"
| "state_rank Running = 3"
| "state_rank Degraded = 3"
| "state_rank Stopping = 4"
| "state_rank Stopped = 5"
| "state_rank Failed = 5"

lemma edge_rank: "legal_edge s t \<Longrightarrow> state_rank s < state_rank t \<or> {s, t} = {Running, Degraded}"
  by (cases s; cases t) (simp_all add: legal_edge_to insert_commute)

lemma entered_once:
  "legal_walk f ms t \<Longrightarrow> s \<noteq> Running \<Longrightarrow> s \<noteq> Degraded \<Longrightarrow>
   count_list (map snd ms) s \<le> 1 \<and> (state_rank s \<le> state_rank f \<longrightarrow> s \<notin> set (map snd ms))"
proof (induction f ms t rule: legal_walk.induct)
  case (2 f a b ms t)
  have ab: "a = f" "legal_edge f b" "legal_walk b ms t"
    using 2(2) by auto
  note rest = 2(1) [OF ab(3) 2(3,4)]
  show ?case
  proof (cases "b = s")
    case True
    then have "state_rank f < state_rank s"
      using edge_rank [OF ab(2)] 2(3,4) by (auto simp: doubleton_eq_iff)
    then show ?thesis
      using rest True by (simp add: count_list_0_iff)
  next
    case False
    have "state_rank f \<le> state_rank b"
      using edge_rank [OF ab(2)] by (auto simp: doubleton_eq_iff)
    then show ?thesis
      using rest False by auto
  qed
qed simp

section \<open>What subscribers see\<close>

abbreviation state_topic :: "KernelState \<Rightarrow> string" where
  "state_topic s \<equiv> lifecycle_topic (KernelState_as_str s)"

lemma state_topic_inj: "state_topic s = state_topic t \<longleftrightarrow> s = t"
  by (simp add: lifecycle_topic_of_state KernelState_as_str_inj)

text \<open>A controller emits nothing but its transitions.\<close>

lemma requests_only_transitions:
  "lc_requests qs c = (rs, c', fx) \<Longrightarrow> e \<in> set (events_of fx) \<Longrightarrow> \<exists>f t now. e = Lifecycle (Transition f t now)"
proof (induction qs arbitrary: c rs c' fx)
  case (Cons q qs)
  obtain r d l where step: "lc_transition (fst q) (snd q) c = (r, d, l)"
    by (cases "lc_transition (fst q) (snd q) c")
  obtain rs' c'' l' where rest: "lc_requests qs d = (rs', c'', l')"
    by (cases "lc_requests qs d")
  have "\<exists>f t now. e = Lifecycle (Transition f t now)" if "e \<in> set (events_of l)"
    using step that by (cases "is_legal (lc_state c) (fst q)") (auto simp: transition_effects_def split: if_splits)
  then show ?case
    using Cons.IH [OF rest] Cons.prems step rest by auto
qed simp

lemma delivered_to_topic:
  assumes "\<And>e. e \<in> set es \<Longrightarrow> \<exists>f t now. e = Lifecycle (Transition f t now)" and rep: "represents d (subs, n)"
  shows "map fst (filter (\<lambda>(h, e). KernelEvent_topic e = state_topic s)
      (concat (map (\<lambda>e. map (\<lambda>h. (h, e)) (emit_handlers e d)) es))) =
    concat (replicate (count_list (map snd (announced es)) s) (map snd (on_topic (state_topic s) subs)))"
  using assms(1)
proof (induction es)
  case (Cons e es)
  obtain f t now where e: "e = Lifecycle (Transition f t now)"
    using Cons.prems [of e] by auto
  have "map fst (filter (\<lambda>(h, e). KernelEvent_topic e = state_topic s) (map (\<lambda>h. (h, e)) (emit_handlers e d))) =
      (if t = s then map snd (on_topic (state_topic s) subs) else [])"
    by (simp add: e emit_handlers_represents [OF rep] state_topic_inj filter_map comp_def)
  then show ?case
    using Cons by (simp add: e)
qed simp

text \<open>
  C15: Put together, the controller and the dispatcher call the subscribers of a state's topic once for every time the controller
  enters the state, in the order in which they subscribed, whether or not handlers panic; what is announced is a legal walk, and a
  state other than Running and Degraded is entered, and so announced to its subscribers, at most once.
\<close>

theorem subscribers_see_the_walk:
  assumes "records run" and "represents d (subs, n)" and "lc_events c" and "lc_requests qs c = (rs, c', fx)"
  shows "let entered = map snd (announced (events_of fx))
    in map fst (filter (\<lambda>(h, e). KernelEvent_topic e = state_topic s) (deliver run d fx [])) =
         concat (replicate (count_list entered s) (map snd (on_topic (state_topic s) subs))) \<and>
       legal_walk (lc_state c) (announced (events_of fx)) (lc_state c') \<and>
       (s \<noteq> Running \<longrightarrow> s \<noteq> Degraded \<longrightarrow> count_list entered s \<le> 1)"
proof -
  have walk: "legal_walk (lc_state c) (announced (events_of fx)) (lc_state c')"
    using requests_walk [OF assms(3,4)] by blast
  moreover have "map fst (filter (\<lambda>(h, e). KernelEvent_topic e = state_topic s) (deliver run d fx [])) =
      concat (replicate (count_list (map snd (announced (events_of fx))) s) (map snd (on_topic (state_topic s) subs)))"
    unfolding deliver_recorded [OF assms(1)] append_Nil
    using requests_only_transitions [OF assms(4)] by (rule delivered_to_topic [OF _ assms(2)])
  ultimately show ?thesis
    using entered_once [OF walk, of s] by (simp add: Let_def)
qed

text \<open>Two subscribers of the running state; the first panics.\<close>

theorem subscribers_see_the_walk_witness:
  "\<exists>run d subs rs c fx. records run \<and> represents d (subs, 2) \<and>
     map snd subs = [(''kernel.lifecycle.running'', True), (''kernel.lifecycle.running'', False)] \<and>
     lc_requests [(Booting, 1), (Running, 2), (Loading, 3), (Running, 4)] (LifecycleController_with_events 0) = (rs, c, fx) \<and>
     map fst (filter (\<lambda>(h, e). KernelEvent_topic e = state_topic Running) (deliver run d fx [])) = [True, False]"
proof -
  let ?t = "''kernel.lifecycle.running''" and ?run = "\<lambda>h e w. if h then Panicked (w @ [(h, e)]) else Finished (w @ [(h, e)])"
  let ?d1 = "snd (subscribe ?t True dispatcher_new)" and ?d2 = "snd (subscribe ?t False (snd (subscribe ?t True dispatcher_new)))"
  have "represents ?d1 ([(0, ?t, True)], 1)"
    using subscribe_simulates(2) [OF represents_new, of ?t True] by simp
  from subscribe_simulates(2) [OF this, of ?t False]
  have rep: "represents ?d2 ([(0, ?t, True), (1, ?t, False)], 2)"
    by simp
  have rec: "records ?run"
    by (simp add: records_def)
  have events: "lc_events (LifecycleController_with_events 0)"
    by (simp add: LifecycleController_with_events_def LifecycleController_fresh_def)
  note seen = subscribers_see_the_walk [OF rec rep events happy_path_run, of Running]
  have topic: "state_topic Running = ?t"
    by (simp add: lifecycle_topic_def)
  have "count_list (map snd (announced (events_of [Emit (Lifecycle (Transition Created Booting 1)),
      Emit (Lifecycle (Transition Booting Loading 3)), Emit (Lifecycle (Transition Loading Running 4))]))) Running = 1"
    by simp
  then have "map fst (filter (\<lambda>(h, e). KernelEvent_topic e = state_topic Running) (deliver ?run ?d2
      [Emit (Lifecycle (Transition Created Booting 1)), Emit (Lifecycle (Transition Booting Loading 3)),
       Emit (Lifecycle (Transition Loading Running 4))] [])) = [True, False]"
    using seen unfolding Let_def topic by (simp add: on_topic_def)
  then show ?thesis
    using rec rep happy_path_run by (intro exI conjI) (assumption | rule refl | simp)+
qed

end
