(* ===== verification/Kernel_Builder.thy ===== *)
theory Kernel_Builder
  imports Lifecycle_Controller Health_Registry Supervisor Errors
begin

text \<open>
  src/kernel: \<open>subsystem.rs\<close>, \<open>builtins.rs\<close> and \<open>builder.rs\<close>. A subsystem is code of the consumer:
  its name, its declared dependencies and what its calls yield. The hash maps of the topological
  sort are partial functions (the code never iterates over them), its \<open>while let\<close> loop is a
  partial function: \<open>None\<close> would be a loop that does not end.
\<close>

section \<open>Subsystems\<close>

record Subsystem =
  ss_name :: string
  ss_dependencies :: "string list"
  ss_boot :: "(KernelError + unit) unwind"
  ss_load :: "(KernelError + unit) unwind"
  ss_shutdown :: "(KernelError + unit) unwind"
  ss_health :: HealthStatus

text \<open>The trait's default methods, over a name, dependencies and \<open>boot\<close>.\<close>

definition subsystem_defaults :: "string \<Rightarrow> string list \<Rightarrow> (KernelError + unit) unwind \<Rightarrow> Subsystem" where
  "subsystem_defaults name deps boot =
     \<lparr>ss_name = name, ss_dependencies = deps, ss_boot = boot, ss_load = Returned (Inr ()),
      ss_shutdown = Returned (Inr ()), ss_health = H_Healthy\<rparr>"

definition BUILTIN_NAMES :: "string list" where
  "BUILTIN_NAMES =
     [''lifecycle'', ''events'', ''errors'', ''health'', ''metrics'', ''workers'', ''shutdown'']"

definition LifecycleSubsystem :: Subsystem where
  "LifecycleSubsystem = subsystem_defaults ''lifecycle'' [] (Returned (Inr ()))"

definition EventSubsystem :: Subsystem where
  "EventSubsystem = subsystem_defaults ''events'' [''lifecycle''] (Returned (Inr ()))"

definition ErrorSubsystem :: Subsystem where
  "ErrorSubsystem = subsystem_defaults ''errors'' [''events''] (Returned (Inr ()))"

definition HealthSubsystem :: Subsystem where
  "HealthSubsystem = subsystem_defaults ''health'' [''events''] (Returned (Inr ()))"

definition MetricsSubsystem :: Subsystem where
  "MetricsSubsystem = subsystem_defaults ''metrics'' [''lifecycle''] (Returned (Inr ()))"

definition WorkerSubsystem :: Subsystem where
  "WorkerSubsystem =
     subsystem_defaults ''workers'' [''metrics'', ''events'', ''errors''] (Returned (Inr ()))"

definition ShutdownSubsystem :: Subsystem where
  "ShutdownSubsystem = subsystem_defaults ''shutdown'' [''lifecycle'', ''events''] (Returned (Inr ()))"

definition boxed_builtins :: "Subsystem list" where
  "boxed_builtins =
     [LifecycleSubsystem, EventSubsystem, ErrorSubsystem, HealthSubsystem, MetricsSubsystem,
      WorkerSubsystem, ShutdownSubsystem]"

section \<open>Topological sort\<close>

datatype BuildError =
  DuplicateSubsystem string
| MissingDependency string string
| DependencyCycle "string list"
| EmptyName
| ReservedName string

fun join_with :: "string \<Rightarrow> string list \<Rightarrow> string" where
  "join_with sep [] = []"
| "join_with sep [x] = x"
| "join_with sep (x # xs) = x @ sep @ join_with sep xs"

fun BuildError_fmt :: "(string \<Rightarrow> string \<Rightarrow> string) \<Rightarrow> BuildError \<Rightarrow> string" where
  "BuildError_fmt tr (DuplicateSubsystem name) =
     tr ''kernel.builder.duplicate_subsystem'' ''duplicate subsystem'' @ '': '' @ name"
| "BuildError_fmt tr (MissingDependency sub dep) =
     tr ''kernel.builder.missing_dependency'' ''missing dependency'' @ '': '' @ sub @ '' requires '' @ dep"
| "BuildError_fmt tr (DependencyCycle cycle) =
     tr ''kernel.builder.dependency_cycle'' ''dependency cycle'' @ '': '' @ join_with '' -> '' cycle"
| "BuildError_fmt tr EmptyName =
     tr ''kernel.builder.empty_name'' ''kernel name must not be empty''"
| "BuildError_fmt tr (ReservedName name) =
     tr ''kernel.builder.reserved_name'' ''subsystem name is reserved by the kernel'' @ '': '' @ name"

type_synonym indegrees = "string \<Rightarrow> nat option"
type_synonym edges = "string \<Rightarrow> string list option"

definition degree :: "indegrees \<Rightarrow> string \<Rightarrow> nat" where
  "degree m v = (case m v of Some n \<Rightarrow> n | None \<Rightarrow> 0)"

definition children :: "edges \<Rightarrow> string \<Rightarrow> string list" where
  "children m v = (case m v of Some vs \<Rightarrow> vs | None \<Rightarrow> [])"

definition add_node :: "Subsystem \<Rightarrow> indegrees \<times> edges \<Rightarrow> indegrees \<times> edges" where
  "add_node s = (\<lambda>(indegree, dependents).
     (indegree(ss_name s \<mapsto> degree indegree (ss_name s)),
      dependents(ss_name s \<mapsto> children dependents (ss_name s))))"

definition add_edge :: "Subsystem \<Rightarrow> string \<Rightarrow> indegrees \<times> edges \<Rightarrow> indegrees \<times> edges" where
  "add_edge s dep = (\<lambda>(indegree, dependents).
     (indegree(ss_name s \<mapsto> degree indegree (ss_name s) + 1),
      dependents(dep \<mapsto> children dependents dep @ [ss_name s])))"

definition build_graph :: "Subsystem list \<Rightarrow> indegrees \<times> edges" where
  "build_graph subsystems =
     fold (\<lambda>s. fold (add_edge s) (ss_dependencies s)) subsystems
       (fold add_node subsystems (\<lambda>_. None, \<lambda>_. None))"

definition visit_child :: "string \<Rightarrow> indegrees \<times> string list \<Rightarrow> indegrees \<times> string list" where
  "visit_child child = (\<lambda>(indegree, queue).
     (let entry = degree indegree child;
          entry = (if 0 < entry then entry - 1 else entry)
      in (indegree(child \<mapsto> entry), if entry = 0 then queue @ [child] else queue)))"

partial_function (option) kahn ::
    "edges \<Rightarrow> indegrees \<Rightarrow> string list \<Rightarrow> string list \<Rightarrow> (indegrees \<times> string list) option" where
  "kahn dependents indegree queue order =
     (case queue of
        [] \<Rightarrow> Some (indegree, order)
      | name # queue \<Rightarrow>
          (let (indegree, queue) = fold visit_child (children dependents name) (indegree, queue)
           in kahn dependents indegree queue (order @ [name])))"

definition topo_sort :: "Subsystem list \<Rightarrow> (BuildError + string list) option" where
  "topo_sort subsystems =
     (let (indegree, dependents) = build_graph subsystems;
          queue = map ss_name (filter (\<lambda>s. degree indegree (ss_name s) = 0) subsystems)
      in case kahn dependents indegree queue [] of
           None \<Rightarrow> None
         | Some (indegree, order) \<Rightarrow>
             if length order \<noteq> length subsystems
             then Some (Inl (DependencyCycle
                    (map ss_name (filter (\<lambda>s. 0 < degree indegree (ss_name s)) subsystems))))
             else Some (Inr order))"

fun pick_in_order :: "string list \<Rightarrow> (string \<Rightarrow> Subsystem option) \<Rightarrow> Subsystem list" where
  "pick_in_order [] indexed = []"
| "pick_in_order (name # order) indexed =
     (case indexed name of
        Some s \<Rightarrow> s # pick_in_order order (indexed(name := None))
      | None \<Rightarrow> pick_in_order order indexed)"

definition reorder :: "Subsystem list \<Rightarrow> string list \<Rightarrow> Subsystem list" where
  "reorder subsystems order =
     pick_in_order order (fold (\<lambda>s m. m(ss_name s \<mapsto> s)) (rev subsystems) (\<lambda>_. None))"

section \<open>The builder\<close>

record 'e KernelBuilder =
  kb_name :: string
  kb_subsystems :: "Subsystem list"
  kb_error_classifier :: "'e ErrorClassifier option"
  kb_metrics_backend :: bool
  kb_shutdown_grace :: duration
  kb_workers :: "(WorkerSpec \<times> WorkerRunner) list"

text \<open>
  The kernel's shared state. The events and metric calls it makes are collected, oldest first, in
  \<open>ki_log\<close>; \<open>ki_metrics_backend\<close> says whether the consumer supplied a backend.
\<close>

record 'e KernelInner =
  ki_name :: string
  ki_lifecycle :: LifecycleController
  ki_errors :: "'e ErrorRegistry"
  ki_health :: HealthRegistry
  ki_metrics_backend :: bool
  ki_shutdown :: ShutdownInner
  ki_subsystems :: "Subsystem list"
  ki_shutdown_grace :: duration
  ki_workers :: "(WorkerSpec \<times> WorkerRunner) list"
  ki_coordinator :: ShutdownCoordinator
  ki_signal_handler_requested :: bool
  ki_log :: "effect list"

definition DEFAULT_SHUTDOWN_GRACE :: duration where
  "DEFAULT_SHUTDOWN_GRACE = from_secs 10"

definition KernelBuilder_new :: "string \<Rightarrow> 'e KernelBuilder" where
  "KernelBuilder_new name =
     \<lparr>kb_name = name, kb_subsystems = [], kb_error_classifier = None, kb_metrics_backend = False,
      kb_shutdown_grace = DEFAULT_SHUTDOWN_GRACE, kb_workers = []\<rparr>"

definition with_worker :: "WorkerSpec \<Rightarrow> 'e KernelBuilder \<Rightarrow> 'e KernelBuilder" where
  "with_worker spec kb = kb\<lparr>kb_workers := kb_workers kb @ [(spec, SyncRunner)]\<rparr>"

definition with_async_worker :: "WorkerSpec \<Rightarrow> 'e KernelBuilder \<Rightarrow> 'e KernelBuilder" where
  "with_async_worker spec kb = kb\<lparr>kb_workers := kb_workers kb @ [(spec, AsyncRunner)]\<rparr>"

definition with_subsystem :: "Subsystem \<Rightarrow> 'e KernelBuilder \<Rightarrow> 'e KernelBuilder" where
  "with_subsystem s kb = kb\<lparr>kb_subsystems := kb_subsystems kb @ [s]\<rparr>"

definition with_error_classifier :: "'e ErrorClassifier \<Rightarrow> 'e KernelBuilder \<Rightarrow> 'e KernelBuilder" where
  "with_error_classifier c kb = kb\<lparr>kb_error_classifier := Some c\<rparr>"

definition with_metrics_backend :: "'e KernelBuilder \<Rightarrow> 'e KernelBuilder" where
  "with_metrics_backend kb = kb\<lparr>kb_metrics_backend := True\<rparr>"

definition with_shutdown_grace :: "duration \<Rightarrow> 'e KernelBuilder \<Rightarrow> 'e KernelBuilder" where
  "with_shutdown_grace grace kb = kb\<lparr>kb_shutdown_grace := grace\<rparr>"

text \<open>The checks, each the first offender in declaration order.\<close>

definition reserved_name :: "Subsystem list \<Rightarrow> string option" where
  "reserved_name subs = map_option ss_name (find (\<lambda>s. ss_name s \<in> set BUILTIN_NAMES) subs)"

fun duplicate_name :: "string list \<Rightarrow> Subsystem list \<Rightarrow> string option" where
  "duplicate_name seen [] = None"
| "duplicate_name seen (s # subs) =
     (if ss_name s \<in> set seen then Some (ss_name s) else duplicate_name (ss_name s # seen) subs)"

fun missing_dependency :: "string list \<Rightarrow> Subsystem list \<Rightarrow> (string \<times> string) option" where
  "missing_dependency seen [] = None"
| "missing_dependency seen (s # subs) =
     (case find (\<lambda>d. d \<notin> set seen) (ss_dependencies s) of
        Some d \<Rightarrow> Some (ss_name s, d)
      | None \<Rightarrow> missing_dependency seen subs)"

definition assemble :: "instant \<Rightarrow> 'e KernelBuilder \<Rightarrow> Subsystem list \<Rightarrow> 'e KernelInner" where
  "assemble now kb ordered =
     \<lparr>ki_name = kb_name kb,
      ki_lifecycle = LifecycleController_with_events_and_metrics now,
      ki_errors = (case kb_error_classifier kb of
         Some c \<Rightarrow> ErrorRegistry_with_classifier c
       | None \<Rightarrow> ErrorRegistry_with_classifier NoopClassifier),
      ki_health = HealthRegistry_with_events,
      ki_metrics_backend = kb_metrics_backend kb,
      ki_shutdown = ShutdownInner_new,
      ki_subsystems = ordered,
      ki_shutdown_grace = kb_shutdown_grace kb,
      ki_workers = kb_workers kb,
      ki_coordinator = ShutdownCoordinator_new (kb_shutdown_grace kb),
      ki_signal_handler_requested = False,
      ki_log = []\<rparr>"

definition build :: "instant \<Rightarrow> 'e KernelBuilder \<Rightarrow> (BuildError + 'e KernelInner) option" where
  "build now kb =
     (if kb_name kb = [] then Some (Inl EmptyName)
      else case reserved_name (kb_subsystems kb) of
        Some name \<Rightarrow> Some (Inl (ReservedName name))
      | None \<Rightarrow>
        (let combined = boxed_builtins @ kb_subsystems kb
         in case duplicate_name [] combined of
              Some name \<Rightarrow> Some (Inl (DuplicateSubsystem name))
            | None \<Rightarrow>
                (case missing_dependency (map ss_name combined) combined of
                   Some (sub, dep) \<Rightarrow> Some (Inl (MissingDependency sub dep))
                 | None \<Rightarrow>
                     (case topo_sort combined of
                        None \<Rightarrow> None
                      | Some (Inl e) \<Rightarrow> Some (Inl e)
                      | Some (Inr order) \<Rightarrow> Some (Inr (assemble now kb (reorder combined order)))))))"

section \<open>The graph the sort works on\<close>

text \<open>Names are distinct and every declared dependency names a subsystem: what \<open>build\<close> checks first.\<close>

definition well_declared :: "Subsystem list \<Rightarrow> bool" where
  "well_declared subs \<longleftrightarrow> distinct (map ss_name subs) \<and>
     (\<forall>s \<in> set subs. set (ss_dependencies s) \<subseteq> set (map ss_name subs))"

definition deps_of :: "Subsystem list \<Rightarrow> string \<Rightarrow> string list" where
  "deps_of subs v = (case find (\<lambda>s. ss_name s = v) subs of Some s \<Rightarrow> ss_dependencies s | None \<Rightarrow> [])"

definition dep_rel :: "Subsystem list \<Rightarrow> (string \<times> string) set" where
  "dep_rel subs = {(d, v). v \<in> set (map ss_name subs) \<and> d \<in> set (deps_of subs v)}"

lemma degree_update [simp]: "degree (m(v \<mapsto> n)) u = (if u = v then n else degree m u)"
  by (simp add: degree_def)

lemma children_update [simp]: "children (m(v \<mapsto> vs)) u = (if u = v then vs else children m u)"
  by (simp add: children_def)

lemma deps_of_Cons: "deps_of (s # subs) v = (if ss_name s = v then ss_dependencies s else deps_of subs v)"
  by (simp add: deps_of_def)

lemma deps_of_member:
  "distinct (map ss_name subs) \<Longrightarrow> s \<in> set subs \<Longrightarrow> deps_of subs (ss_name s) = ss_dependencies s"
  by (induction subs) (auto simp: deps_of_Cons image_iff)

lemma deps_of_outside: "v \<notin> set (map ss_name subs) \<Longrightarrow> deps_of subs v = []"
  by (induction subs) (auto simp: deps_of_Cons, simp add: deps_of_def)

lemma deps_closed:
  assumes "well_declared subs"
  shows "set (deps_of subs v) \<subseteq> set (map ss_name subs)"
proof (cases "v \<in> set (map ss_name subs)")
  case True
  then obtain s where "s \<in> set subs" "v = ss_name s"
    by auto
  then show ?thesis
    using assms deps_of_member [of subs s] by (auto simp: well_declared_def)
qed (simp add: deps_of_outside)

lemma add_nodes:
  "degree (fst (fold add_node subs g)) v = degree (fst g) v"
  "children (snd (fold add_node subs g)) v = children (snd g) v"
  by (induction subs arbitrary: g) (auto simp: add_node_def case_prod_beta)

lemma add_edges:
  "degree (fst (fold (add_edge s) ds g)) v = degree (fst g) v + (if v = ss_name s then length ds else 0)"
  "children (snd (fold (add_edge s) ds g)) v = children (snd g) v @ replicate (count_list ds v) (ss_name s)"
  by (induction ds arbitrary: g) (auto simp: add_edge_def case_prod_beta replicate_append_same)

lemma all_edges:
  "degree (fst (fold (\<lambda>s. fold (add_edge s) (ss_dependencies s)) subs g)) v =
     degree (fst g) v + (\<Sum>s\<leftarrow>subs. if v = ss_name s then length (ss_dependencies s) else 0)"
  "children (snd (fold (\<lambda>s. fold (add_edge s) (ss_dependencies s)) subs g)) v =
     children (snd g) v @ concat (map (\<lambda>s. replicate (count_list (ss_dependencies s) v) (ss_name s)) subs)"
  by (induction subs arbitrary: g) (simp_all add: add_edges)

lemma sum_own_degree:
  "distinct (map ss_name subs) \<Longrightarrow>
   (\<Sum>s\<leftarrow>subs. if v = ss_name s then length (ss_dependencies s) else 0) = length (deps_of subs v)"
proof (induction subs)
  case (Cons s subs)
  then show ?case
    using deps_of_outside [of "ss_name s" subs] by (auto simp: deps_of_Cons)
qed (simp add: deps_of_def)

lemma count_children:
  "distinct (map ss_name subs) \<Longrightarrow>
   count_list (concat (map (\<lambda>s. replicate (count_list (ss_dependencies s) d) (ss_name s)) subs)) v =
     count_list (deps_of subs v) d"
proof (induction subs)
  case (Cons s subs)
  have rep: "count_list (replicate n x) v = (if v = x then n else 0)" for n and x :: string
    by (induction n) auto
  show ?case
    using Cons deps_of_outside [of "ss_name s" subs] by (auto simp: deps_of_Cons rep count_list_append)
qed (simp add: deps_of_def)

lemma build_graph_degree:
  "distinct (map ss_name subs) \<Longrightarrow> degree (fst (build_graph subs)) v = length (deps_of subs v)"
  by (simp add: build_graph_def all_edges add_nodes sum_own_degree) (simp add: degree_def)

lemma build_graph_children:
  "distinct (map ss_name subs) \<Longrightarrow>
   count_list (children (snd (build_graph subs)) d) v = count_list (deps_of subs v) d"
  by (simp add: build_graph_def all_edges add_nodes count_list_append count_children)
    (simp add: children_def)

text \<open>
  Visiting the dependents of one node: every degree falls by the number of visits, and the nodes
  whose degree reaches zero are queued, once each.
\<close>

lemma visit_children:
  assumes "\<forall>v. count_list cs v \<le> degree ind v"
  shows "\<exists>new. snd (fold visit_child cs (ind, q)) = q @ new \<and> distinct new \<and>
      set new = {v \<in> set cs. degree ind v = count_list cs v} \<and>
      (\<forall>v. degree (fst (fold visit_child cs (ind, q))) v = degree ind v - count_list cs v)"
  using assms
proof (induction cs arbitrary: ind q)
  case Nil
  then show ?case by simp
next
  case (Cons c cs)
  have pos: "0 < degree ind c"
    using Cons.prems [rule_format, of c] by simp
  define ind1 where "ind1 = ind(c \<mapsto> degree ind c - 1)"
  define q1 where "q1 = (if degree ind c = 1 then q @ [c] else q)"
  have step: "visit_child c (ind, q) = (ind1, q1)"
    using pos by (auto simp: visit_child_def ind1_def q1_def Let_def)
  have "\<forall>v. count_list cs v \<le> degree ind1 v"
    using Cons.prems by (force simp: ind1_def split: if_splits)
  then obtain new where new: "snd (fold visit_child cs (ind1, q1)) = q1 @ new" "distinct new"
      "set new = {v \<in> set cs. degree ind1 v = count_list cs v}"
      "\<forall>v. degree (fst (fold visit_child cs (ind1, q1))) v = degree ind1 v - count_list cs v"
    using Cons.IH [of ind1 q1] by blast
  have deg: "\<forall>v. degree (fst (fold visit_child (c # cs) (ind, q))) v = degree ind v - count_list (c # cs) v"
    using new(4) pos by (auto simp: step ind1_def)
  show ?case
  proof (cases "degree ind c = 1")
    case True
    then have c: "c \<notin> set cs"
      using Cons.prems [rule_format, of c] by (auto simp: count_list_0_iff [symmetric])
    then have "set (c # new) = {v \<in> set (c # cs). degree ind v = count_list (c # cs) v}"
      using new(3) True by (auto simp: ind1_def count_list_0_iff)
    moreover have "distinct (c # new)"
      using new(2,3) c by auto
    ultimately show ?thesis
      using new(1) deg True by (intro exI [of _ "c # new"]) (simp add: step q1_def)
  next
    case False
    have "{v \<in> set cs. degree ind1 v = count_list cs v} =
        {v \<in> set (c # cs). degree ind v = count_list (c # cs) v}"
      using False pos by (auto simp: ind1_def count_list_0_iff)
    then show ?thesis
      using new deg False by (intro exI [of _ new]) (simp add: step q1_def)
  qed
qed

end
