(* ===== verification/Kernel_Core.thy ===== *)
theory Kernel_Core
  imports Kernel_Builder "HOL-Library.Sublist"
begin

text \<open>
  src/kernel/core.rs and context.rs: the kernel, its boot, its run and its shutdown.

  What a subsystem does inside a call, through the context it is given, is an operation of the
  consumer on the shared state: \<open>en_effect\<close>, restricted by \<open>through_context\<close> to what a context offers. Each of
  \<open>boot\<close>, \<open>load\<close> and \<open>shutdown\<close> of a subsystem is called at most once in the life of a kernel, so
  what a call yields is a field of the subsystem. \<open>kn_calls\<close> records the calls made, oldest first.
  The wait for the shutdown signal and the supervised phase depend on other threads; they are a relation.
\<close>

section \<open>State\<close>

datatype SubsystemCall = BootCall string | LoadCall string | ShutdownCall string

record SubsystemBookkeeping =
  bk_id :: "string \<Rightarrow> SubsystemId option"
  bk_booted_at :: "string \<Rightarrow> instant option"
  bk_loaded_at :: "string \<Rightarrow> instant option"

record 'e Kernel =
  kn_inner :: "'e KernelInner"
  kn_book :: SubsystemBookkeeping
  kn_calls :: "SubsystemCall list"

record SubsystemSnapshot =
  ss_id :: SubsystemId
  ss_snap_name :: string
  ss_snap_dependencies :: "string list"
  ss_snap_health :: HealthStatus
  ss_booted_at :: "instant option"
  ss_loaded_at :: "instant option"

record KernelSnapshot =
  ks_name :: string
  ks_lifecycle :: LifecycleSnapshot
  ks_health :: HealthSnapshot
  ks_subsystems :: "SubsystemSnapshot list"
  ks_timestamp :: instant

text \<open>What the consumer, the clocks and the translation crate supply.\<close>

record 'e environment =
  en_effect :: "SubsystemCall \<Rightarrow> 'e KernelInner \<Rightarrow> 'e KernelInner"
  en_call_at :: "SubsystemCall \<Rightarrow> instant"
  en_transition_at :: "KernelState \<Rightarrow> instant"
  en_translate :: "string \<Rightarrow> string \<Rightarrow> string"
  en_debug :: "duration \<Rightarrow> string"
  en_shutdown_clock :: shutdown_clock

section \<open>Construction and handles\<close>

fun assign_ids :: "Subsystem list \<Rightarrow> IdGenerator \<Rightarrow> (string \<Rightarrow> SubsystemId option) \<Rightarrow> (string \<Rightarrow> SubsystemId option)" where
  "assign_ids [] gen ids = ids"
| "assign_ids (s # subs) gen ids =
     (let (i, gen) = next_subsystem_id gen in assign_ids subs gen (ids(ss_name s \<mapsto> i)))"

definition Kernel_from_inner :: "'e KernelInner \<Rightarrow> 'e Kernel" where
  "Kernel_from_inner inner =
     \<lparr>kn_inner = inner,
      kn_book = \<lparr>bk_id = assign_ids (ki_subsystems inner) IdGenerator_new (\<lambda>_. None),
                 bk_booted_at = (\<lambda>_. None), bk_loaded_at = (\<lambda>_. None)\<rparr>,
      kn_calls = []\<rparr>"

definition Kernel_build :: "instant \<Rightarrow> 'e KernelBuilder \<Rightarrow> (BuildError + 'e Kernel) option" where
  "Kernel_build now kb = map_option (map_sum (\<lambda>e. e) Kernel_from_inner) (build now kb)"

definition on_inner :: "('e KernelInner \<Rightarrow> 'e KernelInner) \<Rightarrow> 'e Kernel \<Rightarrow> 'e Kernel" where
  "on_inner f k = k\<lparr>kn_inner := f (kn_inner k)\<rparr>"

definition Kernel_shutdown :: "'e Kernel \<Rightarrow> 'e Kernel" where
  "Kernel_shutdown = on_inner (\<lambda>i. i\<lparr>ki_shutdown := ShutdownHandle_signal (ki_shutdown i)\<rparr>)"

definition Kernel_register_shutdown_hook :: "hook \<Rightarrow> 'e Kernel \<Rightarrow> 'e Kernel" where
  "Kernel_register_shutdown_hook h = on_inner (\<lambda>i. i\<lparr>ki_coordinator := register_hook h (ki_coordinator i)\<rparr>)"

definition Kernel_install_signal_handler :: "'e Kernel \<Rightarrow> 'e Kernel" where
  "Kernel_install_signal_handler = on_inner (\<lambda>i. i\<lparr>ki_signal_handler_requested := True\<rparr>)"

definition kernel_state :: "'e Kernel \<Rightarrow> KernelState" where
  "kernel_state k = lc_state (ki_lifecycle (kn_inner k))"

abbreviation kernel_subsystems :: "'e Kernel \<Rightarrow> Subsystem list" where
  "kernel_subsystems k \<equiv> ki_subsystems (kn_inner k)"

definition kernel_signalled :: "'e Kernel \<Rightarrow> bool" where
  "kernel_signalled k = ShutdownHandle_is_signalled (ki_shutdown (kn_inner k))"

definition subsystem_snapshots :: "'e Kernel \<Rightarrow> SubsystemSnapshot list" where
  "subsystem_snapshots k = map (\<lambda>s.
     \<lparr>ss_id = (case bk_id (kn_book k) (ss_name s) of Some i \<Rightarrow> i | None \<Rightarrow> SubsystemId 0),
      ss_snap_name = ss_name s, ss_snap_dependencies = ss_dependencies s, ss_snap_health = ss_health s,
      ss_booted_at = bk_booted_at (kn_book k) (ss_name s),
      ss_loaded_at = bk_loaded_at (kn_book k) (ss_name s)\<rparr>) (kernel_subsystems k)"

definition Kernel_snapshot :: "instant \<Rightarrow> instant \<Rightarrow> 'e Kernel \<Rightarrow> KernelSnapshot" where
  "Kernel_snapshot health_now now k =
     \<lparr>ks_name = ki_name (kn_inner k),
      ks_lifecycle = LifecycleController_snapshot (ki_lifecycle (kn_inner k)),
      ks_health = hr_snapshot health_now (ki_health (kn_inner k)),
      ks_subsystems = subsystem_snapshots k, ks_timestamp = now\<rparr>"

section \<open>Calling the subsystems\<close>

definition panic_message :: "panic_payload \<Rightarrow> string" where
  "panic_message payload =
     (case payload of
        PayloadStaticStr msg \<Rightarrow> ''subsystem panicked: '' @ msg
      | PayloadString msg \<Rightarrow> ''subsystem panicked: '' @ msg
      | PayloadOther \<Rightarrow> ''subsystem panicked: <unknown panic>'')"

definition caught :: "string \<Rightarrow> (KernelError + unit) unwind \<Rightarrow> KernelError + unit" where
  "caught name u =
     (case u of
        Returned r \<Rightarrow> r
      | Unwound payload \<Rightarrow> Inl (KE_Subsystem SubsystemBootFailed name (panic_message payload)))"

definition call_subsystem :: "'e environment \<Rightarrow> SubsystemCall \<Rightarrow> 'e Kernel \<Rightarrow> 'e Kernel" where
  "call_subsystem env c k = k\<lparr>kn_inner := en_effect env c (kn_inner k), kn_calls := kn_calls k @ [c]\<rparr>"

definition record_booted :: "string \<Rightarrow> instant \<Rightarrow> 'e Kernel \<Rightarrow> 'e Kernel" where
  "record_booted name now k =
     k\<lparr>kn_book := (kn_book k)\<lparr>bk_booted_at := (bk_booted_at (kn_book k))(name \<mapsto> now)\<rparr>\<rparr>"

definition record_loaded :: "string \<Rightarrow> instant \<Rightarrow> 'e Kernel \<Rightarrow> 'e Kernel" where
  "record_loaded name now k =
     k\<lparr>kn_book := (kn_book k)\<lparr>bk_loaded_at := (bk_loaded_at (kn_book k))(name \<mapsto> now)\<rparr>\<rparr>"

text \<open>The loops of the phases, over the subsystems still to be called.\<close>

fun boot_loop :: "'e environment \<Rightarrow> Subsystem list \<Rightarrow> 'e Kernel \<Rightarrow> (KernelError + unit) \<times> 'e Kernel" where
  "boot_loop env [] k = (Inr (), k)"
| "boot_loop env (s # subs) k =
     (let c = BootCall (ss_name s);
          k = call_subsystem env c k
      in case caught (ss_name s) (ss_boot s) of
           Inl e \<Rightarrow> (Inl e, k)
         | Inr _ \<Rightarrow> boot_loop env subs (record_booted (ss_name s) (en_call_at env c) k))"

fun load_loop :: "'e environment \<Rightarrow> Subsystem list \<Rightarrow> 'e Kernel \<Rightarrow> (KernelError + unit) \<times> 'e Kernel" where
  "load_loop env [] k = (Inr (), k)"
| "load_loop env (s # subs) k =
     (let c = LoadCall (ss_name s);
          k = call_subsystem env c k
      in case caught (ss_name s) (ss_load s) of
           Inl e \<Rightarrow> (Inl e, k)
         | Inr _ \<Rightarrow> load_loop env subs (record_loaded (ss_name s) (en_call_at env c) k))"

fun shutdown_loop ::
    "'e environment \<Rightarrow> Subsystem list \<Rightarrow> KernelError option \<Rightarrow> 'e Kernel \<Rightarrow> KernelError option \<times> 'e Kernel" where
  "shutdown_loop env [] first_err k = (first_err, k)"
| "shutdown_loop env (s # subs) first_err k =
     (let k = call_subsystem env (ShutdownCall (ss_name s)) k
      in shutdown_loop env subs
           (case caught (ss_name s) (ss_shutdown s) of
              Inr _ \<Rightarrow> first_err
            | Inl e \<Rightarrow> (if first_err = None then Some e else first_err)) k)"

definition run_boot_phase :: "'e environment \<Rightarrow> 'e Kernel \<Rightarrow> (KernelError + unit) \<times> 'e Kernel" where
  "run_boot_phase env k = boot_loop env (kernel_subsystems k) k"

definition run_load_phase :: "'e environment \<Rightarrow> 'e Kernel \<Rightarrow> (KernelError + unit) \<times> 'e Kernel" where
  "run_load_phase env k = load_loop env (kernel_subsystems k) k"

definition run_shutdown_phase :: "'e environment \<Rightarrow> 'e Kernel \<Rightarrow> (KernelError + unit) \<times> 'e Kernel" where
  "run_shutdown_phase env k =
     (let (first_err, k) = shutdown_loop env (rev (kernel_subsystems k)) None k
      in (case first_err of Some e \<Rightarrow> Inl e | None \<Rightarrow> Inr (), k))"

definition run_shutdown_phase_to_loaded :: "'e environment \<Rightarrow> 'e Kernel \<Rightarrow> 'e Kernel" where
  "run_shutdown_phase_to_loaded env k =
     fold (\<lambda>s. call_subsystem env (ShutdownCall (ss_name s)))
       (filter (\<lambda>s. bk_loaded_at (kn_book k) (ss_name s) \<noteq> None) (rev (kernel_subsystems k))) k"

section \<open>Booting\<close>

definition kernel_transition ::
    "'e environment \<Rightarrow> KernelState \<Rightarrow> 'e Kernel \<Rightarrow> (TransitionError + unit) \<times> 'e Kernel" where
  "kernel_transition env t k =
     (let (r, c, fx) = lc_transition t (en_transition_at env t) (ki_lifecycle (kn_inner k))
      in (r, on_inner (\<lambda>i. i\<lparr>ki_lifecycle := c, ki_log := ki_log i @ fx\<rparr>) k))"

definition Kernel_boot :: "'e environment \<Rightarrow> 'e Kernel \<Rightarrow> (KernelError + unit) \<times> 'e Kernel" where
  "Kernel_boot env k =
     (case kernel_transition env Booting k of
        (Inl e, k) \<Rightarrow> (Inl (KE_Lifecycle LifecycleIllegalTransition e), k)
      | (Inr _, k) \<Rightarrow>
          (case run_boot_phase env k of
             (Inl err, k) \<Rightarrow> (Inl err, snd (kernel_transition env Failed k))
           | (Inr _, k) \<Rightarrow>
               (case kernel_transition env Loading k of
                  (Inl e, k) \<Rightarrow> (Inl (KE_Lifecycle LifecycleIllegalTransition e), k)
                | (Inr _, k) \<Rightarrow>
                    (case run_load_phase env k of
                       (Inl err, k) \<Rightarrow>
                         (Inl err, snd (kernel_transition env Failed (run_shutdown_phase_to_loaded env k)))
                     | (Inr _, k) \<Rightarrow>
                         (case kernel_transition env Running k of
                            (Inl e, k) \<Rightarrow> (Inl (KE_Lifecycle LifecycleIllegalTransition e), k)
                          | (Inr _, k) \<Rightarrow> (Inr (), k))))))"

section \<open>The execution phase\<close>

text \<open>
  What others do to the shared state while the kernel waits or calls a subsystem: they report
  health, emit events, raise the shutdown signal, register hooks. Nobody else moves the lifecycle or runs the
  coordinator; what they emit may fall anywhere between the events of the kernel.
\<close>

definition beside :: "'e KernelInner \<Rightarrow> 'e KernelInner \<Rightarrow> bool" where
  "beside i i' \<longleftrightarrow> ki_name i' = ki_name i \<and> ki_lifecycle i' = ki_lifecycle i \<and> ki_errors i' = ki_errors i \<and>
     ki_metrics_backend i' = ki_metrics_backend i \<and> ki_subsystems i' = ki_subsystems i \<and>
     ki_shutdown_grace i' = ki_shutdown_grace i \<and> ki_workers i' = ki_workers i \<and>
     (ShutdownHandle_is_signalled (ki_shutdown i) \<longrightarrow> ShutdownHandle_is_signalled (ki_shutdown i')) \<and>
     co_completed (ki_coordinator i') = co_completed (ki_coordinator i) \<and>
     co_grace (ki_coordinator i') = co_grace (ki_coordinator i) \<and>
     prefix (co_hooks (ki_coordinator i)) (co_hooks (ki_coordinator i')) \<and> subseq (ki_log i) (ki_log i')"

text \<open>A context offers less: no hook is registered and no signal handler installed through it.\<close>

definition through_context :: "'e KernelInner \<Rightarrow> 'e KernelInner \<Rightarrow> bool" where
  "through_context i i' \<longleftrightarrow> beside i i' \<and> ki_coordinator i' = ki_coordinator i \<and>
     ki_signal_handler_requested i' = ki_signal_handler_requested i"

definition context_only :: "'e environment \<Rightarrow> bool" where
  "context_only env \<longleftrightarrow> (\<forall>c i. through_context i (en_effect env c i))"

text \<open>The coordinator, awaited in place; a \<open>None\<close> is a panic that unwinds through \<open>run\<close>.\<close>

definition run_coordinator :: "'e environment \<Rightarrow> 'e Kernel \<Rightarrow> ShutdownReport option \<times> 'e Kernel" where
  "run_coordinator env k =
     (let (report, co, fx) = coordinator_shutdown (en_translate env) (en_debug env) (en_shutdown_clock env)
            (ki_coordinator (kn_inner k))
      in (report, on_inner (\<lambda>i. i\<lparr>ki_coordinator := co, ki_log := ki_log i @ fx\<rparr>) k))"

definition register_pending :: "(WorkerSpec \<times> WorkerRunner) list \<Rightarrow> Supervisor \<Rightarrow> Supervisor" where
  "register_pending = fold (\<lambda>(spec, runner) s. snd (register_inner spec runner s))"

text \<open>
  A step of the supervisor inside the kernel: the only holder of its token outside the workers is the watcher, which
  cancels it after the shutdown signal.
\<close>

definition watched_step :: "Supervisor \<Rightarrow> Supervisor \<Rightarrow> bool" where
  "watched_step s s' \<longleftrightarrow> sup_step s s' \<and> sv_handles s' = sv_handles s \<and>
     (sv_cancelled s' \<longrightarrow> sv_cancelled s \<or> ShutdownHandle_is_signalled (sv_shutdown s'))"

definition supervisor_at_start :: "'e Kernel \<Rightarrow> Supervisor" where
  "supervisor_at_start k =
     register_pending (ki_workers (kn_inner k))
       (Supervisor_new (ki_health (kn_inner k)) (ki_shutdown (kn_inner k)))"

text \<open>The shared state when the supervisor has returned in the state \<open>s\<close>.\<close>

definition absorb_supervisor :: "Supervisor \<Rightarrow> 'e Kernel \<Rightarrow> 'e Kernel" where
  "absorb_supervisor s = on_inner (\<lambda>i. i\<lparr>ki_workers := [], ki_health := sv_health s,
     ki_shutdown := sv_shutdown s, ki_log := ki_log i @ sv_log s\<rparr>)"

definition supervised :: "'e Kernel \<Rightarrow> bool" where
  "supervised k \<longleftrightarrow> ki_workers (kn_inner k) \<noteq> [] \<or> ki_signal_handler_requested (kn_inner k)"

text \<open>
  How the phase may end: with a value, or unwinding. Building a runtime may fail; the one for the
  coordinator then silently skips the hooks. While the phase waits, others act on the shared state.
\<close>

inductive exec_phase :: "'e environment \<Rightarrow> 'e Kernel \<Rightarrow> (KernelError + unit) unwind \<Rightarrow> 'e Kernel \<Rightarrow> bool" for env where
  hooks_run: "\<not> supervised k \<Longrightarrow> beside (kn_inner k) i \<Longrightarrow> ShutdownHandle_is_signalled (ki_shutdown i) \<Longrightarrow>
    run_coordinator env (k\<lparr>kn_inner := i\<rparr>) = (Some rep, k') \<Longrightarrow>
    exec_phase env k (Returned (Inr ())) k'"
| hooks_skipped: "\<not> supervised k \<Longrightarrow> beside (kn_inner k) i \<Longrightarrow> ShutdownHandle_is_signalled (ki_shutdown i) \<Longrightarrow>
    exec_phase env k (Returned (Inr ())) (k\<lparr>kn_inner := i\<rparr>)"
| hooks_panic: "\<not> supervised k \<Longrightarrow> beside (kn_inner k) i \<Longrightarrow> ShutdownHandle_is_signalled (ki_shutdown i) \<Longrightarrow>
    run_coordinator env (k\<lparr>kn_inner := i\<rparr>) = (None, k') \<Longrightarrow>
    exec_phase env k (Unwound payload) k'"
| no_runtime: "supervised k \<Longrightarrow>
    exec_phase env k (Returned (Inl (KE_Internal Internal (''failed to build tokio runtime: '' @ io_error)))) k"
| workers_run: "supervised k \<Longrightarrow> watched_step\<^sup>*\<^sup>* (supervisor_at_start k) s \<Longrightarrow> sv_stage s = Finished_run \<Longrightarrow>
    beside (kn_inner (absorb_supervisor s k)) i \<Longrightarrow>
    run_coordinator env (k\<lparr>kn_inner := i\<rparr>) = (Some rep, k') \<Longrightarrow>
    exec_phase env k (Returned (Inr ())) (Kernel_shutdown k')"
| workers_panic: "supervised k \<Longrightarrow> watched_step\<^sup>*\<^sup>* (supervisor_at_start k) s \<Longrightarrow> sv_stage s = Finished_run \<Longrightarrow>
    beside (kn_inner (absorb_supervisor s k)) i \<Longrightarrow>
    run_coordinator env (k\<lparr>kn_inner := i\<rparr>) = (None, k') \<Longrightarrow>
    exec_phase env k (Unwound payload) k'"

inductive_cases exec_phaseE: "exec_phase env k r k'"

section \<open>Running\<close>

text \<open>What \<open>run\<close> does once the execution phase is over.\<close>

definition stop_kernel :: "'e environment \<Rightarrow> 'e Kernel \<Rightarrow> (KernelError + unit) \<times> 'e Kernel" where
  "stop_kernel env k =
     (case kernel_transition env Stopping k of
        (Inl e, k) \<Rightarrow> (Inl (KE_Lifecycle LifecycleIllegalTransition e), k)
      | (Inr _, k) \<Rightarrow>
          (case run_shutdown_phase env k of
             (shutdown_result, k) \<Rightarrow>
               (case kernel_transition env Stopped k of
                  (Inl e, k) \<Rightarrow> (Inl (KE_Lifecycle LifecycleIllegalTransition e), k)
                | (Inr _, k) \<Rightarrow> (shutdown_result, k))))"

inductive kernel_run :: "'e environment \<Rightarrow> 'e Kernel \<Rightarrow> (KernelError + unit) unwind \<Rightarrow> 'e Kernel \<Rightarrow> bool" for env where
  boot_failed: "Kernel_boot env k = (Inl e, k') \<Longrightarrow> kernel_run env k (Returned (Inl e)) k'"
| exec_failed: "Kernel_boot env k = (Inr (), k1) \<Longrightarrow> exec_phase env k1 (Returned (Inl e)) k' \<Longrightarrow>
    kernel_run env k (Returned (Inl e)) k'"
| exec_panicked: "Kernel_boot env k = (Inr (), k1) \<Longrightarrow> exec_phase env k1 (Unwound payload) k' \<Longrightarrow>
    kernel_run env k (Unwound payload) k'"
| finished: "Kernel_boot env k = (Inr (), k1) \<Longrightarrow> exec_phase env k1 (Returned (Inr ())) k2 \<Longrightarrow>
    stop_kernel env k2 = (r, k') \<Longrightarrow> kernel_run env k (Returned r) k'"

inductive_cases kernel_runE: "kernel_run env k r k'"

end
