(* ===== verification/Boot_Order.thy ===== *)
theory Boot_Order
  imports Kernel_Builder "HOL-Library.Multiset"
begin

text \<open>
  The correctness of the topological sort and of \<open>build\<close>: the loop ends, what it returns is a boot
  order in which dependencies come first, it is returned exactly when the declared dependencies are
  acyclic, and otherwise the reported subsystems are exactly those on a cycle or downstream of one.
\<close>

section \<open>The loop invariant\<close>

text \<open>Every node comes after all its dependencies.\<close>

definition dependencies_first :: "(string \<Rightarrow> string list) \<Rightarrow> string list \<Rightarrow> bool" where
  "dependencies_first deps order \<longleftrightarrow>
     (\<forall>xs v ys. order = xs @ v # ys \<longrightarrow> set (deps v) \<subseteq> set xs)"

definition kahn_inv :: "Subsystem list \<Rightarrow> indegrees \<Rightarrow> string list \<Rightarrow> string list \<Rightarrow> bool" where
  "kahn_inv subs ind queue acc \<longleftrightarrow>
     distinct (acc @ queue) \<and> set (acc @ queue) \<subseteq> set (map ss_name subs) \<and>
     (\<forall>v. degree ind v = length (filter (\<lambda>d. d \<notin> set acc) (deps_of subs v))) \<and>
     (\<forall>v \<in> set (map ss_name subs). v \<in> set (acc @ queue) \<longleftrightarrow> degree ind v = 0) \<and>
     dependencies_first (deps_of subs) acc"

lemma dependencies_first_snoc:
  "dependencies_first deps (order @ [v]) \<longleftrightarrow> dependencies_first deps order \<and> set (deps v) \<subseteq> set order"
proof
  assume snoc: "dependencies_first deps (order @ [v])"
  have "set (deps u) \<subseteq> set xs" if "order = xs @ u # ys" for xs u ys
    using snoc that unfolding dependencies_first_def by (metis append.assoc append_Cons)
  moreover have "set (deps v) \<subseteq> set order"
    using snoc unfolding dependencies_first_def by blast
  ultimately show "dependencies_first deps order \<and> set (deps v) \<subseteq> set order"
    by (simp add: dependencies_first_def)
next
  assume "dependencies_first deps order \<and> set (deps v) \<subseteq> set order"
  then show "dependencies_first deps (order @ [v])"
    unfolding dependencies_first_def
    by (metis (no_types, lifting) append_butlast_last_id butlast.simps(2) butlast_append butlast_snoc
        last.simps last_appendR last_snoc list.distinct(1))
qed

lemma filter_without_new:
  "n \<notin> set acc \<Longrightarrow>
   length (filter (\<lambda>d. d \<notin> set (acc @ [n])) ds) = length (filter (\<lambda>d. d \<notin> set acc) ds) - count_list ds n"
proof -
  assume n: "n \<notin> set acc"
  have "length (filter (\<lambda>d. d \<notin> set acc) ds) =
      length (filter (\<lambda>d. d \<notin> set (acc @ [n])) ds) + count_list ds n"
    using n by (induction ds) auto
  then show ?thesis
    by simp
qed

lemma count_le_waiting:
  "n \<notin> set acc \<Longrightarrow> count_list ds n \<le> length (filter (\<lambda>d. d \<notin> set acc) ds)"
  by (induction ds) auto

lemma kahn_inv_step:
  assumes wd: "well_declared subs" and inv: "kahn_inv subs ind (n # queue) acc"
  defines "cs \<equiv> children (snd (build_graph subs)) n"
  shows "kahn_inv subs (fst (fold visit_child cs (ind, queue))) (snd (fold visit_child cs (ind, queue))) (acc @ [n])"
proof -
  have names: "distinct (map ss_name subs)"
    using wd by (simp add: well_declared_def)
  have n: "n \<notin> set acc" "n \<notin> set queue" "n \<in> set (map ss_name subs)" "degree ind n = 0"
    and deg: "\<And>v. degree ind v = length (filter (\<lambda>d. d \<notin> set acc) (deps_of subs v))"
    and q: "\<And>v. v \<in> set (map ss_name subs) \<Longrightarrow> v \<in> set (acc @ n # queue) \<longleftrightarrow> degree ind v = 0"
    and dist: "distinct (acc @ n # queue)" and sub: "set (acc @ n # queue) \<subseteq> set (map ss_name subs)"
    and first: "dependencies_first (deps_of subs) acc"
    using inv by (auto simp: kahn_inv_def)
  have cnt: "count_list cs v = count_list (deps_of subs v) n" for v
    using build_graph_children [OF names, of n v] by (simp add: cs_def)
  have "\<forall>v. count_list cs v \<le> degree ind v"
    using count_le_waiting [OF n(1)] by (simp add: cnt deg)
  then obtain new where new: "snd (fold visit_child cs (ind, queue)) = queue @ new" "distinct new"
      "set new = {v \<in> set cs. degree ind v = count_list cs v}"
      "\<And>v. degree (fst (fold visit_child cs (ind, queue))) v = degree ind v - count_list cs v"
    using visit_children [of cs ind queue] by blast
  let ?ind = "fst (fold visit_child cs (ind, queue))"
  have deg': "degree ?ind v = length (filter (\<lambda>d. d \<notin> set (acc @ [n])) (deps_of subs v))" for v
    using filter_without_new [OF n(1), of "deps_of subs v"] by (simp add: new(4) deg cnt)
  have cs_pos: "0 < degree ind v \<and> v \<in> set (map ss_name subs)" if "v \<in> set cs" for v
  proof -
    have c: "0 < count_list (deps_of subs v) n"
      using that cnt [of v] by (metis count_list_0_iff gr0I)
    then have "deps_of subs v \<noteq> []"
      by auto
    then have "v \<in> set (map ss_name subs)"
      using deps_of_outside by blast
    moreover have "0 < degree ind v"
      unfolding deg using c count_le_waiting [OF n(1)] by (rule less_le_trans)
    ultimately show ?thesis
      by blast
  qed
  have new_old: "set new \<inter> set (acc @ n # queue) = {}"
  proof -
    have "v \<notin> set (acc @ n # queue)" if "v \<in> set new" for v
    proof -
      have "v \<in> set cs"
        using that new(3) by simp
      then show ?thesis
        using cs_pos [of v] q [of v] by simp
    qed
    then show ?thesis
      by blast
  qed
  have zero: "v \<in> set ((acc @ [n]) @ queue @ new) \<longleftrightarrow> degree ?ind v = 0" if "v \<in> set (map ss_name subs)" for v
  proof (cases "degree ind v = 0")
    case True
    then show ?thesis
      using q [OF that] new(4) [of v] by auto
  next
    case False
    then have old: "v \<notin> set (acc @ n # queue)"
      using q [OF that] by simp
    have "degree ?ind v = 0 \<longleftrightarrow> degree ind v = count_list cs v"
      using count_le_waiting [OF n(1), of "deps_of subs v"] by (auto simp: new(4) deg cnt)
    moreover have "v \<in> set cs" if "degree ind v = count_list cs v"
      using that False by (metis count_list_0_iff)
    ultimately show ?thesis
      using old new(3) by auto
  qed
  have "set (deps_of subs n) \<subseteq> set acc"
    using n(4) by (auto simp: deg filter_empty_conv)
  then have first': "dependencies_first (deps_of subs) (acc @ [n])"
    using first by (simp add: dependencies_first_snoc)
  have "distinct ((acc @ [n]) @ queue @ new)"
    using dist new(2) new_old by auto
  moreover have "set ((acc @ [n]) @ queue @ new) \<subseteq> set (map ss_name subs)"
    using sub new(3) cs_pos by auto
  ultimately show ?thesis
    using deg' zero first' unfolding kahn_inv_def new(1) by blast
qed

text \<open>Every round puts one more name out, so the loop ends.\<close>

lemma kahn_ends:
  assumes "well_declared subs" and "kahn_inv subs ind queue acc"
  shows "\<exists>ind' order. kahn (snd (build_graph subs)) ind queue acc = Some (ind', order) \<and>
    kahn_inv subs ind' [] order"
  using assms(2)
proof (induction "length subs - length acc" arbitrary: ind queue acc rule: less_induct)
  case less
  show ?case
  proof (cases queue)
    case Nil
    then show ?thesis
      using less.prems by (subst kahn.simps) simp
  next
    case (Cons n rest)
    define g where "g = fold visit_child (children (snd (build_graph subs)) n) (ind, rest)"
    have inv': "kahn_inv subs (fst g) (snd g) (acc @ [n])"
      using kahn_inv_step [OF assms(1)] less.prems by (simp add: Cons g_def)
    have "length (acc @ [n]) \<le> length subs"
    proof -
      have "distinct (acc @ [n])" "set (acc @ [n]) \<subseteq> set (map ss_name subs)"
        using less.prems by (auto simp: kahn_inv_def Cons)
      then have "length (acc @ [n]) \<le> card (set (map ss_name subs))"
        by (metis List.finite_set card_mono distinct_card)
      then show ?thesis
        by (metis card_length le_trans length_map)
    qed
    then have "length subs - length (acc @ [n]) < length subs - length acc"
      by simp
    then obtain ind' order where "kahn (snd (build_graph subs)) (fst g) (snd g) (acc @ [n]) = Some (ind', order)"
        "kahn_inv subs ind' [] order"
      using less.hyps [OF _ inv'] by blast
    then show ?thesis
      by (subst kahn.simps) (simp add: Cons g_def case_prod_beta)
  qed
qed

lemma kahn_starts:
  assumes "well_declared subs"
  shows "kahn_inv subs (fst (build_graph subs))
    (map ss_name (filter (\<lambda>s. degree (fst (build_graph subs)) (ss_name s) = 0) subs)) []"
proof -
  have "distinct (map ss_name subs)"
    using assms by (simp add: well_declared_def)
  then show ?thesis
    by (auto simp: kahn_inv_def dependencies_first_def build_graph_degree distinct_map_filter)
qed

section \<open>Boot orders and cycles\<close>

lemma topo_sort_result:
  assumes wd: "well_declared subs"
  obtains ind order where
    "topo_sort subs = Some (if length order \<noteq> length subs
       then Inl (DependencyCycle (map ss_name (filter (\<lambda>s. ss_name s \<notin> set order) subs)))
       else Inr order)"
    "kahn_inv subs ind [] order"
proof -
  let ?g = "build_graph subs"
  obtain ind order where k: "kahn (snd ?g) (fst ?g)
      (map ss_name (filter (\<lambda>s. degree (fst ?g) (ss_name s) = 0) subs)) [] = Some (ind, order)"
    and inv: "kahn_inv subs ind [] order"
    using kahn_ends [OF wd kahn_starts [OF wd]] by blast
  have "filter (\<lambda>s. 0 < degree ind (ss_name s)) subs = filter (\<lambda>s. ss_name s \<notin> set order) subs"
    using inv by (intro filter_cong) (auto simp: kahn_inv_def)
  then show ?thesis
    using k inv by (intro that [of order ind]) (simp_all add: topo_sort_def case_prod_beta Let_def)
qed

lemma sorted_iff:
  assumes "kahn_inv subs ind [] order" and "v \<in> set (map ss_name subs)"
  shows "v \<in> set order \<longleftrightarrow> set (deps_of subs v) \<subseteq> set order"
  using assms by (auto simp: kahn_inv_def filter_empty_conv)

lemma upstream_before:
  assumes "dependencies_first (deps_of subs) order" and "(u, v) \<in> (dep_rel subs)\<^sup>+"
    and "order = xs @ v # ys"
  shows "u \<in> set xs"
  using assms(2)
proof (induction rule: converse_trancl_induct)
  case (base u)
  then show ?case
    using assms(1,3) by (auto simp: dependencies_first_def dep_rel_def)
next
  case (step u w)
  then obtain as bs where "xs = as @ w # bs"
    by (auto simp: in_set_conv_decomp)
  moreover from this have "set (deps_of subs w) \<subseteq> set as"
    using assms(1,3) unfolding dependencies_first_def by (metis append.assoc append_Cons)
  ultimately show ?case
    using step(1) by (auto simp: dep_rel_def)
qed

text \<open>Nothing on a cycle, and nothing downstream of one, is ever put out.\<close>

lemma downstream_not_sorted:
  assumes inv: "kahn_inv subs ind [] order" and cyc: "(u, u) \<in> (dep_rel subs)\<^sup>+" and "(u, v) \<in> (dep_rel subs)\<^sup>*"
  shows "v \<notin> set order"
proof
  have first: "dependencies_first (deps_of subs) order" and dist: "distinct order"
    using inv by (auto simp: kahn_inv_def)
  assume "v \<in> set order"
  then have u: "u \<in> set order"
  proof (cases "u = v")
    case False
    then have "(u, v) \<in> (dep_rel subs)\<^sup>+"
      using assms(3) by (simp add: rtrancl_eq_or_trancl)
    moreover obtain xs ys where "order = xs @ v # ys"
      using \<open>v \<in> set order\<close> by (auto simp: in_set_conv_decomp)
    ultimately show ?thesis
      using upstream_before [OF first] by force
  qed simp
  then obtain xs ys where "order = xs @ u # ys"
    by (auto simp: in_set_conv_decomp)
  then show False
    using upstream_before [OF first cyc] dist by auto
qed

lemma not_sorted_downstream:
  assumes wd: "well_declared subs" and inv: "kahn_inv subs ind [] order"
    and v: "v \<in> set (map ss_name subs)" "v \<notin> set order"
  shows "\<exists>u. (u, u) \<in> (dep_rel subs)\<^sup>+ \<and> (u, v) \<in> (dep_rel subs)\<^sup>*"
proof (rule ccontr)
  assume none: "\<not> ?thesis"
  define A where "A = {u \<in> set (map ss_name subs). u \<notin> set order \<and> (u, v) \<in> (dep_rel subs)\<^sup>*}"
  let ?R = "dep_rel subs \<inter> A \<times> A"
  have "acyclic ?R"
  proof (rule acyclicI, intro allI notI)
    fix x
    assume x: "(x, x) \<in> ?R\<^sup>+"
    then have "(x, x) \<in> (dep_rel subs)\<^sup>+"
      by (rule trancl_mono) simp
    moreover have "x \<in> A"
      using x by (metis IntD2 SigmaD1 tranclD)
    ultimately show False
      using none by (auto simp: A_def)
  qed
  moreover have "finite ?R"
    by (rule finite_subset [of _ "A \<times> A"]) (auto simp: A_def)
  ultimately have "wf ?R"
    by (simp add: finite_acyclic_wf)
  moreover have "v \<in> A"
    using v by (simp add: A_def)
  ultimately obtain m where m: "m \<in> A" "\<And>y. (y, m) \<in> ?R \<Longrightarrow> y \<notin> A"
    by (rule wfE_min) blast
  then have "\<not> set (deps_of subs m) \<subseteq> set order"
    using sorted_iff [OF inv, of m] by (auto simp: A_def)
  then obtain d where d: "d \<in> set (deps_of subs m)" "d \<notin> set order"
    by blast
  then have dm: "(d, m) \<in> dep_rel subs"
    using m(1) by (auto simp: dep_rel_def A_def)
  moreover have "d \<in> set (map ss_name subs)"
    using d(1) deps_closed [OF wd] by blast
  ultimately have "d \<in> A"
    using d(2) m(1) by (auto simp: A_def intro: converse_rtrancl_into_rtrancl)
  then show False
    using m dm by blast
qed

lemma all_sorted_iff:
  assumes wd: "well_declared subs" and inv: "kahn_inv subs ind [] order"
  shows "length order = length subs \<longleftrightarrow> acyclic (dep_rel subs)"
    and "length order = length subs \<longleftrightarrow> set order = set (map ss_name subs)"
proof -
  have d: "distinct order" "set order \<subseteq> set (map ss_name subs)" "distinct (map ss_name subs)"
    using inv wd by (auto simp: kahn_inv_def well_declared_def)
  show eq: "length order = length subs \<longleftrightarrow> set order = set (map ss_name subs)"
    using d by (metis List.finite_set card_subset_eq distinct_card length_map)
  have "set order = set (map ss_name subs)" if "acyclic (dep_rel subs)"
    using d(2) not_sorted_downstream [OF wd inv] that by (auto simp: acyclic_def)
  moreover have "acyclic (dep_rel subs)" if "set order = set (map ss_name subs)"
  proof (rule acyclicI, intro allI notI)
    fix u
    assume u: "(u, u) \<in> (dep_rel subs)\<^sup>+"
    then have "u \<in> set (map ss_name subs)"
      by (auto simp: dep_rel_def elim: tranclE)
    then show False
      using that downstream_not_sorted [OF inv u] by blast
  qed
  ultimately show "length order = length subs \<longleftrightarrow> acyclic (dep_rel subs)"
    using eq by blast
qed

text \<open>
  For subsystems with distinct names and declared dependencies only, the sort always ends: it
  returns an order exactly when the dependencies are acyclic, and the order it returns lists every
  subsystem once, each after everything it depends on.
\<close>

theorem topo_sort_finds_boot_order:
  assumes "well_declared subs"
  shows "\<exists>r. topo_sort subs = Some r \<and> ((\<exists>order. r = Inr order) \<longleftrightarrow> acyclic (dep_rel subs)) \<and>
    (\<forall>order. r = Inr order \<longrightarrow> distinct order \<and> set order = set (map ss_name subs) \<and>
       dependencies_first (deps_of subs) order)"
proof (rule topo_sort_result [OF assms])
  fix ind order
  assume r: "topo_sort subs = Some (if length order \<noteq> length subs
       then Inl (DependencyCycle (map ss_name (filter (\<lambda>s. ss_name s \<notin> set order) subs))) else Inr order)"
    and inv: "kahn_inv subs ind [] order"
  have "distinct order" "dependencies_first (deps_of subs) order"
    using inv by (auto simp: kahn_inv_def)
  then show ?thesis
    using all_sorted_iff [OF assms inv] by (auto simp: r)
qed

text \<open>
  C35: When the dependencies have a cycle, the error lists, once each, exactly the subsystems that are on a cycle or
  depend, directly or through others, on one that is.
\<close>

theorem cycle_report_is_downstream:
  assumes wd: "well_declared subs" and cyc: "\<not> acyclic (dep_rel subs)"
  shows "\<exists>cycle. topo_sort subs = Some (Inl (DependencyCycle cycle)) \<and> distinct cycle \<and>
    set cycle = {v. \<exists>u. (u, u) \<in> (dep_rel subs)\<^sup>+ \<and> (u, v) \<in> (dep_rel subs)\<^sup>*}"
proof (rule topo_sort_result [OF wd])
  fix ind order
  assume r: "topo_sort subs = Some (if length order \<noteq> length subs
       then Inl (DependencyCycle (map ss_name (filter (\<lambda>s. ss_name s \<notin> set order) subs))) else Inr order)"
    and inv: "kahn_inv subs ind [] order"
  let ?cycle = "map ss_name (filter (\<lambda>s. ss_name s \<notin> set order) subs)"
  have ends: "v \<in> set (map ss_name subs)" if "(u, u) \<in> (dep_rel subs)\<^sup>+" "(u, v) \<in> (dep_rel subs)\<^sup>*" for u v
  proof -
    have "(u, v) \<in> (dep_rel subs)\<^sup>+"
      using that by (auto simp: rtrancl_eq_or_trancl)
    then show ?thesis
      by (auto simp: dep_rel_def elim: tranclE)
  qed
  have mem: "v \<in> set ?cycle \<longleftrightarrow> v \<in> set (map ss_name subs) \<and> v \<notin> set order" for v
    by auto
  have "v \<in> set ?cycle \<longleftrightarrow> (\<exists>u. (u, u) \<in> (dep_rel subs)\<^sup>+ \<and> (u, v) \<in> (dep_rel subs)\<^sup>*)" for v
    using not_sorted_downstream [OF wd inv, of v] downstream_not_sorted [OF inv, of _ v] ends [of _ v]
    unfolding mem by blast
  moreover have "distinct ?cycle"
    using wd by (simp add: well_declared_def distinct_map_filter)
  moreover have "length order \<noteq> length subs"
    using all_sorted_iff(1) [OF wd inv] cyc by simp
  ultimately show ?thesis
    by (intro exI [of _ ?cycle]) (auto simp: r)
qed

text \<open>The order of dependencies, checked from left to right.\<close>

fun deps_before :: "(string \<Rightarrow> string list) \<Rightarrow> string list \<Rightarrow> string list \<Rightarrow> bool" where
  "deps_before deps seen [] = True"
| "deps_before deps seen (v # vs) = (set (deps v) \<subseteq> set seen \<and> deps_before deps (seen @ [v]) vs)"

lemma deps_before_iff:
  "dependencies_first deps seen \<Longrightarrow> deps_before deps seen vs \<longleftrightarrow> dependencies_first deps (seen @ vs)"
proof (induction vs arbitrary: seen)
  case (Cons v vs)
  show ?case
  proof (cases "set (deps v) \<subseteq> set seen")
    case True
    then have "dependencies_first deps (seen @ [v])"
      using Cons.prems by (simp add: dependencies_first_snoc)
    with Cons.IH [of "seen @ [v]"] True show ?thesis
      by simp
  next
    case False
    then have "\<not> dependencies_first deps (seen @ v # vs)"
      unfolding dependencies_first_def by blast
    with False show ?thesis
      by simp
  qed
qed simp

lemma deps_before_first: "deps_before deps [] vs \<longleftrightarrow> dependencies_first deps vs"
  using deps_before_iff [of deps "[]" vs] by (simp add: dependencies_first_def)

lemma acyclic_from_order:
  assumes "dependencies_first (deps_of subs) order" and "distinct order"
    and "set (map ss_name subs) \<subseteq> set order"
  shows "acyclic (dep_rel subs)"
proof (rule acyclicI, intro allI notI)
  fix u
  assume u: "(u, u) \<in> (dep_rel subs)\<^sup>+"
  then have "u \<in> set (map ss_name subs)"
    by (auto simp: dep_rel_def elim: tranclE)
  then obtain xs ys where "order = xs @ u # ys"
    using assms(3) by (metis in_set_conv_decomp subsetD)
  then show False
    using upstream_before [OF assms(1) u] assms(2) by auto
qed

definition demo_subsystem :: "string \<Rightarrow> string list \<Rightarrow> Subsystem" where
  "demo_subsystem name deps = subsystem_defaults name deps (Returned (Inr ()))"

lemma demo_subsystem_fields [simp]:
  "ss_name (demo_subsystem n ds) = n" "ss_dependencies (demo_subsystem n ds) = ds"
  "ss_boot (demo_subsystem n ds) = Returned (Inr ())" "ss_load (demo_subsystem n ds) = Returned (Inr ())"
  "ss_shutdown (demo_subsystem n ds) = Returned (Inr ())"
  by (simp_all add: demo_subsystem_def subsystem_defaults_def)

theorem topo_sort_finds_boot_order_witness:
  "\<exists>order. topo_sort [demo_subsystem ''b'' [''a''], demo_subsystem ''a'' []] = Some (Inr order) \<and>
    set order = {''a'', ''b''}"
proof -
  let ?subs = "[demo_subsystem ''b'' [''a''], demo_subsystem ''a'' []]"
  have wd: "well_declared ?subs"
    by (simp add: well_declared_def)
  have "deps_before (deps_of ?subs) [] [''a'', ''b'']"
    by (simp add: deps_of_def)
  then have "acyclic (dep_rel ?subs)"
    unfolding deps_before_first by (rule acyclic_from_order) simp_all
  then show ?thesis
    using topo_sort_finds_boot_order [OF wd] by auto
qed

theorem cycle_report_is_downstream_witness:
  "\<exists>cycle. topo_sort [demo_subsystem ''a'' [''b''], demo_subsystem ''b'' [''a''], demo_subsystem ''c'' [''b'']] =
      Some (Inl (DependencyCycle cycle)) \<and> ''c'' \<in> set cycle"
proof -
  let ?subs = "[demo_subsystem ''a'' [''b''], demo_subsystem ''b'' [''a''], demo_subsystem ''c'' [''b'']]"
  have wd: "well_declared ?subs"
    by (simp add: well_declared_def)
  have ab: "(''a'', ''b'') \<in> dep_rel ?subs" "(''b'', ''a'') \<in> dep_rel ?subs" and bc: "(''b'', ''c'') \<in> dep_rel ?subs"
    by (simp_all add: dep_rel_def deps_of_def)
  then have bb: "(''b'', ''b'') \<in> (dep_rel ?subs)\<^sup>+"
    by (meson r_into_trancl' trancl_trans)
  then have "\<not> acyclic (dep_rel ?subs)"
    by (auto simp: acyclic_def)
  then show ?thesis
    using cycle_report_is_downstream [OF wd] bb bc by blast
qed

section \<open>Building a kernel\<close>

lemma duplicate_name_None:
  "duplicate_name seen subs = None \<longleftrightarrow>
     distinct (map ss_name subs) \<and> set (map ss_name subs) \<inter> set seen = {}"
  by (induction seen subs rule: duplicate_name.induct) auto

lemma duplicate_name_Some:
  "duplicate_name seen subs = Some n \<Longrightarrow> 2 \<le> count_list (seen @ map ss_name subs) n"
proof (induction seen subs rule: duplicate_name.induct)
  case (2 seen s subs)
  show ?case
  proof (cases "ss_name s \<in> set seen")
    case True
    then have "n = ss_name s" "0 < count_list seen (ss_name s)"
      using 2(2) by (auto, metis count_list_0_iff gr0I)
    then show ?thesis
      by (simp add: count_list_append)
  next
    case False
    then show ?thesis
      using 2 by (simp add: count_list_append split: if_splits)
  qed
qed simp

lemma find_SomeD: "find P xs = Some x \<Longrightarrow> x \<in> set xs \<and> P x"
  by (induction xs) (auto split: if_splits)

lemma missing_dependency_None:
  "missing_dependency seen subs = None \<longleftrightarrow> (\<forall>s \<in> set subs. set (ss_dependencies s) \<subseteq> set seen)"
proof (induction seen subs rule: missing_dependency.induct)
  case (2 seen s subs)
  show ?case
  proof (cases "find (\<lambda>dep. dep \<notin> set seen) (ss_dependencies s)")
    case None
    then have "set (ss_dependencies s) \<subseteq> set seen"
      by (auto simp: find_None_iff)
    with None 2 show ?thesis
      by simp
  next
    case (Some d)
    then have "\<not> set (ss_dependencies s) \<subseteq> set seen"
      using find_SomeD [OF Some] by blast
    with Some show ?thesis
      by simp
  qed
qed simp

lemma missing_dependency_Some:
  "missing_dependency seen subs = Some (n, d) \<Longrightarrow>
   \<exists>s \<in> set subs. ss_name s = n \<and> d \<in> set (ss_dependencies s) \<and> d \<notin> set seen"
  by (induction seen subs rule: missing_dependency.induct)
    (auto split: option.splits dest: find_SomeD)

lemma reserved_name_None:
  "reserved_name subs = None \<longleftrightarrow> (\<forall>s \<in> set subs. ss_name s \<notin> set BUILTIN_NAMES)"
  by (auto simp: reserved_name_def find_None_iff)

lemma indexed_find:
  "distinct (map ss_name subs) \<Longrightarrow>
   fold (\<lambda>s m. m(ss_name s \<mapsto> s)) (rev subs) (\<lambda>_. None) = (\<lambda>v. find (\<lambda>s. ss_name s = v) subs)"
  by (induction subs) (auto simp: fun_eq_iff)

lemma pick_in_order_map:
  "distinct order \<Longrightarrow> (\<And>n. n \<in> set order \<Longrightarrow> indexed n \<noteq> None) \<Longrightarrow>
   pick_in_order order indexed = map (the \<circ> indexed) order"
proof (induction order arbitrary: indexed)
  case (Cons n order)
  obtain s where s: "indexed n = Some s"
    using Cons.prems(2) [of n] by auto
  have "pick_in_order order (indexed(n := None)) = map (the \<circ> indexed(n := None)) order"
    using Cons by (intro Cons.IH) auto
  also have "\<dots> = map (the \<circ> indexed) order"
    using Cons.prems(1) by (intro map_cong) auto
  finally show ?case
    by (simp add: s)
qed simp

lemma reorder_permutes:
  assumes "distinct (map ss_name subs)" and "distinct order" and "set order = set (map ss_name subs)"
  shows "map ss_name (reorder subs order) = order" and "mset (reorder subs order) = mset subs"
proof -
  let ?find = "\<lambda>v. find (\<lambda>s. ss_name s = v) subs"
  have found: "\<exists>s \<in> set subs. ?find v = Some s \<and> ss_name s = v" if "v \<in> set order" for v
  proof -
    have "?find v \<noteq> None"
      using that assms(3) by (auto simp: find_None_iff)
    then show ?thesis
      by (auto simp: find_Some_iff)
  qed
  then have eq: "reorder subs order = map (the \<circ> ?find) order"
    unfolding reorder_def indexed_find [OF assms(1)] by (intro pick_in_order_map assms(2)) force
  have "ss_name (the (?find v)) = v" if "v \<in> set order" for v
    using found [OF that] by auto
  then show names: "map ss_name (reorder subs order) = order"
    unfolding eq by (simp add: map_idI)
  have sub: "set (reorder subs order) \<subseteq> set subs"
    unfolding eq using found by fastforce
  have "distinct (map ss_name (reorder subs order))"
    by (simp only: names assms(2))
  then have dist: "distinct (reorder subs order)" "distinct subs"
    using assms(1) by (simp_all only: distinct_map)
  have "length (reorder subs order) = length subs"
    using assms names by (metis distinct_card length_map)
  then have "set (reorder subs order) = set subs"
    using sub dist by (metis List.finite_set card_subset_eq distinct_card)
  then show "mset (reorder subs order) = mset subs"
    using dist set_eq_iff_mset_eq_distinct by blast
qed

abbreviation combined_subsystems :: "'e KernelBuilder \<Rightarrow> Subsystem list" where
  "combined_subsystems kb \<equiv> boxed_builtins @ kb_subsystems kb"

lemma builtin_names: "map ss_name boxed_builtins = BUILTIN_NAMES"
  by (simp add: boxed_builtins_def BUILTIN_NAMES_def subsystem_defaults_def LifecycleSubsystem_def
      EventSubsystem_def ErrorSubsystem_def HealthSubsystem_def MetricsSubsystem_def
      WorkerSubsystem_def ShutdownSubsystem_def)

lemma well_declared_checks:
  "well_declared subs \<longleftrightarrow> duplicate_name [] subs = None \<and> missing_dependency (map ss_name subs) subs = None"
  by (simp add: well_declared_def duplicate_name_None missing_dependency_None)

lemma reserved_not_declared:
  "reserved_name (kb_subsystems kb) = Some n \<Longrightarrow> \<not> well_declared (combined_subsystems kb)"
  by (auto simp: reserved_name_def well_declared_def distinct_append builtin_names [symmetric] simp del: map_append
      dest!: find_SomeD) (auto simp: image_iff)

lemma build_cases:
  obtains (early) e where "build now kb = Some (Inl e)" "kb_name kb = [] \<or> \<not> well_declared (combined_subsystems kb)"
  | (sorts) "kb_name kb \<noteq> []" "well_declared (combined_subsystems kb)"
      "build now kb = (case topo_sort (combined_subsystems kb) of
         None \<Rightarrow> None | Some (Inl e) \<Rightarrow> Some (Inl e)
       | Some (Inr order) \<Rightarrow> Some (Inr (assemble now kb (reorder (combined_subsystems kb) order))))"
proof (cases "kb_name kb = [] \<or> \<not> well_declared (combined_subsystems kb)")
  case True
  then have "\<exists>e. build now kb = Some (Inl e)"
    unfolding well_declared_checks by (auto simp: build_def Let_def split: option.split)
  then show ?thesis
    using True early by blast
next
  case False
  then have "reserved_name (kb_subsystems kb) = None"
    using reserved_not_declared by (cases "reserved_name (kb_subsystems kb)") auto
  moreover have "kb_name kb \<noteq> []" "duplicate_name [] (combined_subsystems kb) = None"
      "missing_dependency (map ss_name (combined_subsystems kb)) (combined_subsystems kb) = None"
    using False unfolding well_declared_checks by blast+
  ultimately show ?thesis
    using False by (intro sorts) (simp_all add: build_def Let_def del: map_append)
qed

lemma sort_outcome:
  assumes wd: "well_declared subs"
  shows "(\<exists>order. topo_sort subs = Some (Inr order) \<and> acyclic (dep_rel subs) \<and> distinct order \<and>
            set order = set (map ss_name subs) \<and> dependencies_first (deps_of subs) order) \<or>
         (\<exists>cycle. topo_sort subs = Some (Inl (DependencyCycle cycle)) \<and> \<not> acyclic (dep_rel subs))"
proof (rule topo_sort_result [OF wd])
  fix ind order
  assume r: "topo_sort subs = Some (if length order \<noteq> length subs
       then Inl (DependencyCycle (map ss_name (filter (\<lambda>s. ss_name s \<notin> set order) subs))) else Inr order)"
    and inv: "kahn_inv subs ind [] order"
  have "distinct order" "dependencies_first (deps_of subs) order"
    using inv by (auto simp: kahn_inv_def)
  then show ?thesis
    using all_sorted_iff [OF wd inv] by (auto simp: r)
qed

text \<open>
  C20: Building always returns. It yields a kernel exactly when the name is not empty, the built-in and
  declared subsystems have distinct names and known dependencies, and the dependencies have no cycle.
\<close>

theorem build_succeeds_iff:
  "\<exists>r. build now kb = Some r \<and>
     ((\<exists>k. r = Inr k) \<longleftrightarrow> kb_name kb \<noteq> [] \<and> well_declared (combined_subsystems kb) \<and>
        acyclic (dep_rel (combined_subsystems kb)))"
proof (cases rule: build_cases [of now kb])
  case (early e)
  then show ?thesis
    by auto
next
  case sorts
  then show ?thesis
    using sort_outcome [OF sorts(2)] by fastforce
qed

text \<open>
  C21: A kernel that was built holds every built-in and every declared subsystem exactly once, in an order in which each
  comes after everything it depends on; it is in the state Created, keeps the workers in the order they
  were added, and both of its grace periods are the builder's.
\<close>

theorem built_kernel_is_ordered:
  assumes "build now kb = Some (Inr k)"
  shows "mset (ki_subsystems k) = mset (combined_subsystems kb) \<and>
    dependencies_first (deps_of (combined_subsystems kb)) (map ss_name (ki_subsystems k)) \<and>
    lc_state (ki_lifecycle k) = Created \<and> ki_workers k = kb_workers kb \<and> ki_log k = [] \<and>
    ki_coordinator k = ShutdownCoordinator_new (ki_shutdown_grace k) \<and> ki_shutdown_grace k = kb_shutdown_grace kb"
proof (cases rule: build_cases [of now kb])
  case (early e)
  then show ?thesis
    using assms by simp
next
  case sorts
  then obtain order where order: "topo_sort (combined_subsystems kb) = Some (Inr order)" "distinct order"
      "set order = set (map ss_name (combined_subsystems kb))"
      "dependencies_first (deps_of (combined_subsystems kb)) order"
    using sort_outcome [OF sorts(2)] assms by auto
  then have k: "k = assemble now kb (reorder (combined_subsystems kb) order)"
    using sorts(3) assms by simp
  have "distinct (map ss_name (combined_subsystems kb))"
    using sorts(2) by (simp only: well_declared_def)
  note perm = reorder_permutes [OF this order(2,3)]
  show ?thesis
    unfolding k using perm order(4)
    by (simp add: assemble_def LifecycleController_with_events_and_metrics_def LifecycleController_fresh_def)
qed

lemma default_builder_builds:
  "\<exists>k. build now (KernelBuilder_new ''svc'' :: 'e KernelBuilder) = Some (Inr k)"
proof (cases rule: build_cases [of now "KernelBuilder_new ''svc'' :: 'e KernelBuilder"])
  case (early e)
  then show ?thesis
    by (simp add: KernelBuilder_new_def well_declared_def boxed_builtins_def subsystem_defaults_def LifecycleSubsystem_def
      EventSubsystem_def ErrorSubsystem_def HealthSubsystem_def MetricsSubsystem_def
      WorkerSubsystem_def ShutdownSubsystem_def)
next
  case sorts
  have "deps_before (deps_of boxed_builtins) [] BUILTIN_NAMES"
    by (simp add: BUILTIN_NAMES_def boxed_builtins_def deps_of_def subsystem_defaults_def LifecycleSubsystem_def
      EventSubsystem_def ErrorSubsystem_def HealthSubsystem_def MetricsSubsystem_def
      WorkerSubsystem_def ShutdownSubsystem_def)
  then have "acyclic (dep_rel boxed_builtins)"
    unfolding deps_before_first
    by (rule acyclic_from_order) (simp add: BUILTIN_NAMES_def, simp add: builtin_names)
  moreover have "combined_subsystems (KernelBuilder_new ''svc'' :: 'e KernelBuilder) = boxed_builtins"
    by (simp add: KernelBuilder_new_def)
  ultimately show ?thesis
    using sorts sort_outcome [OF sorts(2)] by auto
qed

theorem built_kernel_is_ordered_witness:
  "\<exists>k. build 0 (KernelBuilder_new ''svc'' :: nat KernelBuilder) = Some (Inr k) \<and>
     lc_state (ki_lifecycle k) = Created"
  using default_builder_builds [of 0] built_kernel_is_ordered by blast



end
