(* ===== verification/Kernel_Phases.thy ===== *)
theory Kernel_Phases
  imports Kernel_Core Boot_Order
begin

text \<open>
  What booting, running and stopping a kernel do: which subsystems are called, in which order, with which
  result, and the state the kernel is left in.
\<close>

section \<open>First failures\<close>

text \<open>The result of calling subsystems until one fails, and those that were called.\<close>

fun first_error :: "(Subsystem \<Rightarrow> KernelError + unit) \<Rightarrow> Subsystem list \<Rightarrow> KernelError option" where
  "first_error f [] = None"
| "first_error f (s # subs) = (case f s of Inl e \<Rightarrow> Some e | Inr _ \<Rightarrow> first_error f subs)"

fun up_to_failure :: "(Subsystem \<Rightarrow> KernelError + unit) \<Rightarrow> Subsystem list \<Rightarrow> Subsystem list" where
  "up_to_failure f [] = []"
| "up_to_failure f (s # subs) = s # (case f s of Inl _ \<Rightarrow> [] | Inr _ \<Rightarrow> up_to_failure f subs)"

definition before_failure :: "(Subsystem \<Rightarrow> KernelError + unit) \<Rightarrow> Subsystem list \<Rightarrow> Subsystem list" where
  "before_failure f subs = takeWhile (\<lambda>s. \<not> isl (f s)) subs"

definition boot_result :: "Subsystem \<Rightarrow> KernelError + unit" where
  "boot_result s = caught (ss_name s) (ss_boot s)"

definition load_result :: "Subsystem \<Rightarrow> KernelError + unit" where
  "load_result s = caught (ss_name s) (ss_load s)"

definition shutdown_result :: "Subsystem \<Rightarrow> KernelError + unit" where
  "shutdown_result s = caught (ss_name s) (ss_shutdown s)"

definition boot_calls :: "Subsystem list \<Rightarrow> SubsystemCall list" where
  "boot_calls subs = map (\<lambda>s. BootCall (ss_name s)) subs"

definition load_calls :: "Subsystem list \<Rightarrow> SubsystemCall list" where
  "load_calls subs = map (\<lambda>s. LoadCall (ss_name s)) subs"

definition shutdown_calls :: "Subsystem list \<Rightarrow> SubsystemCall list" where
  "shutdown_calls subs = map (\<lambda>s. ShutdownCall (ss_name s)) subs"

lemma up_to_failure_ok: "first_error f subs = None \<Longrightarrow> up_to_failure f subs = subs"
  by (induction subs) (auto split: sum.splits)

lemma before_failure_ok: "first_error f subs = None \<Longrightarrow> before_failure f subs = subs"
  by (induction subs) (auto simp: before_failure_def split: sum.splits)

lemma before_failure_is_prefix:
  "first_error f subs = Some e \<Longrightarrow>
   \<exists>s rest. subs = before_failure f subs @ s # rest \<and> up_to_failure f subs = before_failure f subs @ [s] \<and> f s = Inl e"
  by (induction subs) (auto simp: before_failure_def split: sum.splits)

section \<open>The phases\<close>

lemma subseq_appended [simp]: "subseq xs (xs @ ys)"
  by (simp add: prefix_imp_subseq)

lemma beside_trans [trans]: "beside i j \<Longrightarrow> beside j l \<Longrightarrow> beside i l"
  unfolding beside_def by (auto intro: subseq_order.trans prefix_order.trans)

lemma through_context_refl [simp]: "through_context i i"
  by (simp add: through_context_def beside_def)

lemma through_context_trans [trans]: "through_context i j \<Longrightarrow> through_context j l \<Longrightarrow> through_context i l"
  by (auto simp: through_context_def intro: beside_trans)

lemma effect_through_context: "context_only env \<Longrightarrow> through_context i (en_effect env c i)"
  by (simp add: context_only_def)

lemma call_fields [simp]:
  "kn_calls (call_subsystem env c k) = kn_calls k @ [c]" "kn_book (call_subsystem env c k) = kn_book k"
  "kn_inner (call_subsystem env c k) = en_effect env c (kn_inner k)"
  by (simp_all add: call_subsystem_def)

lemma record_fields [simp]:
  "kn_calls (record_booted n t k) = kn_calls k" "kn_inner (record_booted n t k) = kn_inner k"
  "kn_calls (record_loaded n t k) = kn_calls k" "kn_inner (record_loaded n t k) = kn_inner k"
  "bk_loaded_at (kn_book (record_booted n t k)) = bk_loaded_at (kn_book k)"
  "bk_loaded_at (kn_book (record_loaded n t k)) = (bk_loaded_at (kn_book k))(n \<mapsto> t)"
  "bk_booted_at (kn_book (record_booted n t k)) = (bk_booted_at (kn_book k))(n \<mapsto> t)"
  "bk_booted_at (kn_book (record_loaded n t k)) = bk_booted_at (kn_book k)"
  "bk_id (kn_book (record_booted n t k)) = bk_id (kn_book k)"
  "bk_id (kn_book (record_loaded n t k)) = bk_id (kn_book k)"
  by (simp_all add: record_booted_def record_loaded_def)

lemma boot_loop_calls:
  assumes "context_only env"
  shows "fst (boot_loop env subs k) = (case first_error boot_result subs of Some e \<Rightarrow> Inl e | None \<Rightarrow> Inr ()) \<and>
    kn_calls (snd (boot_loop env subs k)) = kn_calls k @ boot_calls (up_to_failure boot_result subs) \<and>
    bk_loaded_at (kn_book (snd (boot_loop env subs k))) = bk_loaded_at (kn_book k) \<and>
    (\<forall>n. bk_booted_at (kn_book (snd (boot_loop env subs k))) n \<noteq> None \<longleftrightarrow>
       bk_booted_at (kn_book k) n \<noteq> None \<or> n \<in> ss_name ` set (before_failure boot_result subs)) \<and>
    through_context (kn_inner k) (kn_inner (snd (boot_loop env subs k)))"
proof (induction subs arbitrary: k)
  case (Cons s subs)
  let ?c = "call_subsystem env (BootCall (ss_name s)) k"
  let ?k = "record_booted (ss_name s) (en_call_at env (BootCall (ss_name s))) ?c"
  have b: "through_context (kn_inner k) (kn_inner ?c)"
    by (simp add: effect_through_context assms)
  show ?case
  proof (cases "boot_result s")
    case (Inl e)
    then show ?thesis
      using b by (simp add: boot_result_def Let_def boot_calls_def before_failure_def)
  next
    case (Inr u)
    then have "boot_loop env (s # subs) k = boot_loop env subs ?k"
      by (simp add: boot_result_def Let_def)
    moreover have "through_context (kn_inner k) (kn_inner (snd (boot_loop env subs ?k)))"
      using b Cons.IH [of ?k] by (auto intro: through_context_trans)
    ultimately show ?thesis
      using Inr Cons.IH [of ?k] by (auto simp: boot_calls_def before_failure_def)
  qed
qed (simp add: boot_calls_def before_failure_def)

lemma load_loop_calls:
  assumes "context_only env"
  shows "fst (load_loop env subs k) = (case first_error load_result subs of Some e \<Rightarrow> Inl e | None \<Rightarrow> Inr ()) \<and>
    kn_calls (snd (load_loop env subs k)) = kn_calls k @ load_calls (up_to_failure load_result subs) \<and>
    bk_booted_at (kn_book (snd (load_loop env subs k))) = bk_booted_at (kn_book k) \<and>
    (\<forall>n. bk_loaded_at (kn_book (snd (load_loop env subs k))) n \<noteq> None \<longleftrightarrow>
       bk_loaded_at (kn_book k) n \<noteq> None \<or> n \<in> ss_name ` set (before_failure load_result subs)) \<and>
    through_context (kn_inner k) (kn_inner (snd (load_loop env subs k)))"
proof (induction subs arbitrary: k)
  case (Cons s subs)
  let ?c = "call_subsystem env (LoadCall (ss_name s)) k"
  let ?k = "record_loaded (ss_name s) (en_call_at env (LoadCall (ss_name s))) ?c"
  have b: "through_context (kn_inner k) (kn_inner ?c)"
    by (simp add: effect_through_context assms)
  show ?case
  proof (cases "load_result s")
    case (Inl e)
    then show ?thesis
      using b by (simp add: load_result_def Let_def load_calls_def before_failure_def)
  next
    case (Inr u)
    then have "load_loop env (s # subs) k = load_loop env subs ?k"
      by (simp add: load_result_def Let_def)
    moreover have "through_context (kn_inner k) (kn_inner (snd (load_loop env subs ?k)))"
      using b Cons.IH [of ?k] by (auto intro: through_context_trans)
    ultimately show ?thesis
      using Inr Cons.IH [of ?k] by (auto simp: load_calls_def before_failure_def)
  qed
qed (simp add: load_calls_def before_failure_def)

lemma shutdown_loop_calls:
  assumes "context_only env"
  shows "fst (shutdown_loop env subs fe k) = (case fe of Some e \<Rightarrow> Some e | None \<Rightarrow> first_error shutdown_result subs) \<and>
    kn_calls (snd (shutdown_loop env subs fe k)) = kn_calls k @ shutdown_calls subs \<and>
    kn_book (snd (shutdown_loop env subs fe k)) = kn_book k \<and>
    through_context (kn_inner k) (kn_inner (snd (shutdown_loop env subs fe k)))"
proof (induction subs arbitrary: fe k)
  case (Cons s subs)
  let ?c = "call_subsystem env (ShutdownCall (ss_name s)) k"
  have b: "through_context (kn_inner k) (kn_inner ?c)"
    by (simp add: effect_through_context assms)
  define fe' where "fe' = (case shutdown_result s of Inr _ \<Rightarrow> fe | Inl e \<Rightarrow> (if fe = None then Some e else fe))"
  have eq: "shutdown_loop env (s # subs) fe k = shutdown_loop env subs fe' ?c"
    by (simp add: fe'_def shutdown_result_def Let_def)
  have "through_context (kn_inner k) (kn_inner (snd (shutdown_loop env subs fe' ?c)))"
    using b Cons.IH [of fe' ?c] by (auto intro: through_context_trans)
  then show ?case
    unfolding eq using Cons.IH [of fe' ?c]
    by (cases "shutdown_result s"; cases fe) (simp_all add: shutdown_calls_def fe'_def)
qed (simp add: shutdown_calls_def split: option.split)

lemma fold_shutdown_calls:
  assumes "context_only env"
  shows "kn_calls (fold (\<lambda>s. call_subsystem env (ShutdownCall (ss_name s))) subs k) = kn_calls k @ shutdown_calls subs \<and>
    kn_book (fold (\<lambda>s. call_subsystem env (ShutdownCall (ss_name s))) subs k) = kn_book k \<and>
    through_context (kn_inner k) (kn_inner (fold (\<lambda>s. call_subsystem env (ShutdownCall (ss_name s))) subs k))"
proof (induction subs arbitrary: k)
  case (Cons s subs)
  let ?c = "call_subsystem env (ShutdownCall (ss_name s)) k"
  have "through_context (kn_inner k) (kn_inner ?c)"
    by (simp add: effect_through_context assms)
  then show ?case
    using Cons.IH [of ?c] by (auto simp: shutdown_calls_def intro: through_context_trans)
qed (simp add: shutdown_calls_def)

section \<open>Transitions\<close>

lemma transition_fields [simp]:
  "kn_calls (snd (kernel_transition env t k)) = kn_calls k"
  "kn_book (snd (kernel_transition env t k)) = kn_book k"
  "kernel_subsystems (snd (kernel_transition env t k)) = kernel_subsystems k"
  "kernel_signalled (snd (kernel_transition env t k)) = kernel_signalled k"
  "ki_workers (kn_inner (snd (kernel_transition env t k))) = ki_workers (kn_inner k)"
  "ki_coordinator (kn_inner (snd (kernel_transition env t k))) = ki_coordinator (kn_inner k)"
  "ki_signal_handler_requested (kn_inner (snd (kernel_transition env t k))) = ki_signal_handler_requested (kn_inner k)"
  "ki_shutdown (kn_inner (snd (kernel_transition env t k))) = ki_shutdown (kn_inner k)"
  by (simp_all add: kernel_transition_def on_inner_def case_prod_beta kernel_signalled_def)

lemma transition_ok:
  "is_legal (kernel_state k) t \<Longrightarrow> fst (kernel_transition env t k) = Inr ()"
  "is_legal (kernel_state k) t \<Longrightarrow> kernel_state (snd (kernel_transition env t k)) = t"
  by (simp_all add: kernel_transition_def kernel_state_def on_inner_def)

lemma transition_refused:
  "\<not> is_legal (kernel_state k) t \<Longrightarrow>
   kernel_transition env t k = (Inl \<lparr>te_from = kernel_state k, te_to = t\<rparr>, k)"
  by (simp add: kernel_transition_def kernel_state_def on_inner_def)

lemma beside_kernel:
  assumes "beside (kn_inner k) (kn_inner k')"
  shows "kernel_state k' = kernel_state k" "kernel_subsystems k' = kernel_subsystems k"
    "ki_workers (kn_inner k') = ki_workers (kn_inner k)"
    "kernel_signalled k \<Longrightarrow> kernel_signalled k'"
  using assms by (auto simp: beside_def kernel_state_def kernel_signalled_def)

lemma context_kernel:
  assumes "through_context (kn_inner k) (kn_inner k')"
  shows "kernel_state k' = kernel_state k" "kernel_subsystems k' = kernel_subsystems k"
    "ki_workers (kn_inner k') = ki_workers (kn_inner k)"
    "kernel_signalled k \<Longrightarrow> kernel_signalled k'"
    "ki_coordinator (kn_inner k') = ki_coordinator (kn_inner k)"
    "ki_signal_handler_requested (kn_inner k') = ki_signal_handler_requested (kn_inner k)"
  using assms beside_kernel [of k k'] by (auto simp: through_context_def)

section \<open>Booting\<close>

text \<open>A kernel as \<open>build\<close> hands it out.\<close>

definition fresh_kernel :: "'e Kernel \<Rightarrow> bool" where
  "fresh_kernel k \<longleftrightarrow> kernel_state k = Created \<and> kn_calls k = [] \<and>
     bk_booted_at (kn_book k) = (\<lambda>_. None) \<and> bk_loaded_at (kn_book k) = (\<lambda>_. None) \<and>
     distinct (map ss_name (kernel_subsystems k))"

lemma legal_moves:
  "is_legal Created Booting" "is_legal Booting Failed" "is_legal Booting Loading" "is_legal Loading Failed"
  "is_legal Loading Running" "is_legal Running Stopping" "is_legal Stopping Stopped"
  by (simp_all add: is_legal_def LEGAL_TRANSITIONS_rows)

lemma transition_cases:
  assumes "is_legal (kernel_state k) t"
  obtains k1 where "kernel_transition env t k = (Inr (), k1)" "kernel_state k1 = t"
    "kn_calls k1 = kn_calls k" "kn_book k1 = kn_book k" "kernel_subsystems k1 = kernel_subsystems k"
    "ki_workers (kn_inner k1) = ki_workers (kn_inner k)"
      "ki_coordinator (kn_inner k1) = ki_coordinator (kn_inner k)"
      "ki_signal_handler_requested (kn_inner k1) = ki_signal_handler_requested (kn_inner k)" "kernel_signalled k1 = kernel_signalled k"
proof (rule that)
  show "kernel_transition env t k = (Inr (), snd (kernel_transition env t k))"
    using transition_ok(1) [OF assms, of env] by (metis prod.collapse)
qed (simp_all add: transition_ok(2) [OF assms])

text \<open>
  What \<open>boot\<close> leaves behind: result, state and calls, by the first subsystem that fails to boot or,
  all having booted, to load.
\<close>

definition boot_outcome :: "Subsystem list \<Rightarrow> (KernelError + unit) \<times> KernelState \<times> SubsystemCall list" where
  "boot_outcome subs =
     (case first_error boot_result subs of
        Some e \<Rightarrow> (Inl e, Failed, boot_calls (up_to_failure boot_result subs))
      | None \<Rightarrow>
          (case first_error load_result subs of
             Some e \<Rightarrow> (Inl e, Failed, boot_calls subs @ load_calls (up_to_failure load_result subs) @
                        shutdown_calls (rev (before_failure load_result subs)))
           | None \<Rightarrow> (Inr (), Running, boot_calls subs @ load_calls subs)))"

lemma loaded_prefix:
  assumes "distinct (map ss_name subs)"
  shows "filter (\<lambda>s. ss_name s \<in> ss_name ` set (before_failure f subs)) (rev subs) = rev (before_failure f subs)"
proof -
  let ?p = "before_failure f subs" and ?r = "dropWhile (\<lambda>s. \<not> isl (f s)) subs"
  have eq: "subs = ?p @ ?r"
    by (simp add: before_failure_def)
  then have "distinct (map ss_name (?p @ ?r))"
    using assms by simp
  then have "ss_name ` set ?p \<inter> ss_name ` set ?r = {}"
    by simp
  then have "filter (\<lambda>s. ss_name s \<in> ss_name ` set ?p) ?r = []"
    unfolding filter_empty_conv by blast
  moreover have "filter (\<lambda>s. ss_name s \<in> ss_name ` set ?p) ?p = ?p"
    unfolding filter_id_conv by blast
  ultimately have "filter (\<lambda>s. ss_name s \<in> ss_name ` set ?p) (?p @ ?r) = ?p"
    unfolding filter_append by simp
  then show ?thesis
    by (simp add: rev_filter [symmetric] eq [symmetric])
qed

lemma boot_leaves:
  assumes fresh: "fresh_kernel k" and env: "context_only env"
  obtains r k' where "Kernel_boot env k = (r, k')"
    "(r, kernel_state k', kn_calls k') = boot_outcome (kernel_subsystems k)"
    "kernel_subsystems k' = kernel_subsystems k" "ki_workers (kn_inner k') = ki_workers (kn_inner k)"
      "ki_coordinator (kn_inner k') = ki_coordinator (kn_inner k)"
      "ki_signal_handler_requested (kn_inner k') = ki_signal_handler_requested (kn_inner k)"
proof -
  let ?subs = "kernel_subsystems k"
  note Kernel_boot_def [simp] boot_outcome_def [simp]
  have "is_legal (kernel_state k) Booting"
    using fresh by (simp add: fresh_kernel_def legal_moves)
  from transition_cases [OF this, of env] obtain k1 where t1: "kernel_transition env Booting k = (Inr (), k1)"
      "kernel_state k1 = Booting" "kn_calls k1 = []" "kn_book k1 = kn_book k" "kernel_subsystems k1 = ?subs"
      "ki_workers (kn_inner k1) = ki_workers (kn_inner k)"
      "ki_coordinator (kn_inner k1) = ki_coordinator (kn_inner k)"
      "ki_signal_handler_requested (kn_inner k1) = ki_signal_handler_requested (kn_inner k)"
    using fresh by (auto simp: fresh_kernel_def)
  obtain rb k2 where b: "run_boot_phase env k1 = (rb, k2)"
    by (cases "run_boot_phase env k1")
  have b2: "rb = (case first_error boot_result ?subs of Some e \<Rightarrow> Inl e | None \<Rightarrow> Inr ())"
      "kn_calls k2 = boot_calls (up_to_failure boot_result ?subs)"
      "bk_loaded_at (kn_book k2) = (\<lambda>_. None)" "through_context (kn_inner k1) (kn_inner k2)"
    using boot_loop_calls [OF env, of ?subs k1] b fresh by (auto simp: run_boot_phase_def t1 fresh_kernel_def)
  note s2 = context_kernel [OF b2(4), unfolded t1]
  show ?thesis
  proof (cases "first_error boot_result ?subs")
    case (Some e)
    have "is_legal (kernel_state k2) Failed"
      by (simp add: s2 legal_moves)
    from transition_cases [OF this, of env] obtain k3 where t3: "kernel_transition env Failed k2 = (Inr (), k3)"
        "kernel_state k3 = Failed" "kn_calls k3 = kn_calls k2" "kernel_subsystems k3 = kernel_subsystems k2"
        "ki_workers (kn_inner k3) = ki_workers (kn_inner k2)"
      "ki_coordinator (kn_inner k3) = ki_coordinator (kn_inner k2)"
      "ki_signal_handler_requested (kn_inner k3) = ki_signal_handler_requested (kn_inner k2)"
      by auto
    then show ?thesis
      using Some b b2 s2 t1 by (intro that [of "Inl e" k3]) simp_all
  next
    case None
    have "is_legal (kernel_state k2) Loading"
      by (simp add: s2 legal_moves)
    from transition_cases [OF this, of env] obtain k3 where t3: "kernel_transition env Loading k2 = (Inr (), k3)"
        "kernel_state k3 = Loading" "kn_calls k3 = kn_calls k2" "kn_book k3 = kn_book k2" "kernel_subsystems k3 = ?subs"
        "ki_workers (kn_inner k3) = ki_workers (kn_inner k)"
      "ki_coordinator (kn_inner k3) = ki_coordinator (kn_inner k)"
      "ki_signal_handler_requested (kn_inner k3) = ki_signal_handler_requested (kn_inner k)"
      using s2 by auto
    obtain rl k4 where l: "run_load_phase env k3 = (rl, k4)"
      by (cases "run_load_phase env k3")
    have l4: "rl = (case first_error load_result ?subs of Some e \<Rightarrow> Inl e | None \<Rightarrow> Inr ())"
        "kn_calls k4 = boot_calls ?subs @ load_calls (up_to_failure load_result ?subs)"
        "\<And>n. bk_loaded_at (kn_book k4) n \<noteq> None \<longleftrightarrow> n \<in> ss_name ` set (before_failure load_result ?subs)"
        "through_context (kn_inner k3) (kn_inner k4)"
      using load_loop_calls [OF env, of ?subs k3] l b2 None
      by (auto simp: run_load_phase_def t3 up_to_failure_ok)
    note s4 = context_kernel [OF l4(4), unfolded t3]
    show ?thesis
    proof (cases "first_error load_result ?subs")
      case (Some e)
      let ?k5 = "run_shutdown_phase_to_loaded env k4"
      have "filter (\<lambda>s. bk_loaded_at (kn_book k4) (ss_name s) \<noteq> None) (rev ?subs) = rev (before_failure load_result ?subs)"
        unfolding l4(3) using fresh by (intro loaded_prefix) (simp add: fresh_kernel_def)
      then have k5: "kn_calls ?k5 = kn_calls k4 @ shutdown_calls (rev (before_failure load_result ?subs))"
          "through_context (kn_inner k4) (kn_inner ?k5)"
        using fold_shutdown_calls [OF env] by (simp_all add: run_shutdown_phase_to_loaded_def s4)
      note s5 = context_kernel [OF k5(2), unfolded s4]
      have "is_legal (kernel_state ?k5) Failed"
        by (simp add: s5 legal_moves)
      from transition_cases [OF this, of env] obtain k6 where t6: "kernel_transition env Failed ?k5 = (Inr (), k6)"
          "kernel_state k6 = Failed" "kn_calls k6 = kn_calls ?k5" "kernel_subsystems k6 = kernel_subsystems ?k5"
          "ki_workers (kn_inner k6) = ki_workers (kn_inner ?k5)"
      "ki_coordinator (kn_inner k6) = ki_coordinator (kn_inner ?k5)"
      "ki_signal_handler_requested (kn_inner k6) = ki_signal_handler_requested (kn_inner ?k5)"
        by auto
      then show ?thesis
        using Some None b b2 l l4 t1 t3 s5 k5 by (intro that [of "Inl e" k6]) simp_all
    next
      case lnone: None
      have "is_legal (kernel_state k4) Running"
        by (simp add: s4 legal_moves)
      from transition_cases [OF this, of env] obtain k5 where t5: "kernel_transition env Running k4 = (Inr (), k5)"
          "kernel_state k5 = Running" "kn_calls k5 = kn_calls k4" "kernel_subsystems k5 = kernel_subsystems k4"
          "ki_workers (kn_inner k5) = ki_workers (kn_inner k4)"
      "ki_coordinator (kn_inner k5) = ki_coordinator (kn_inner k4)"
      "ki_signal_handler_requested (kn_inner k5) = ki_signal_handler_requested (kn_inner k4)"
        by auto
      then show ?thesis
        using None lnone b b2 l l4 t1 t3 s4 by (intro that [of "Inr ()" k5]) (simp_all add: up_to_failure_ok)
    qed
  qed
qed

lemma assign_ids_other [simp]:
  "kn_calls (Kernel_from_inner i) = []" "kn_inner (Kernel_from_inner i) = i"
  "bk_booted_at (kn_book (Kernel_from_inner i)) = (\<lambda>_. None)"
  "bk_loaded_at (kn_book (Kernel_from_inner i)) = (\<lambda>_. None)"
  by (simp_all add: Kernel_from_inner_def)

lemma built_inner:
  assumes "Kernel_build now kb = Some (Inr k)"
  obtains i where "k = Kernel_from_inner i" "build now kb = Some (Inr i)"
  using assms unfolding Kernel_build_def by (cases "build now kb"; cases "the (build now kb)") auto

lemma built_by:
  assumes "build now kb = Some (Inr i)"
  obtains order where "i = assemble now kb (reorder (combined_subsystems kb) order)"
    "map ss_name (ki_subsystems i) = order" "distinct order"
    "dependencies_first (deps_of (combined_subsystems kb)) order"
proof (cases rule: build_cases [of now kb])
  case (early e)
  then show ?thesis
    using assms by simp
next
  case sorts
  then obtain order where order: "topo_sort (combined_subsystems kb) = Some (Inr order)" "distinct order"
      "set order = set (map ss_name (combined_subsystems kb))"
      "dependencies_first (deps_of (combined_subsystems kb)) order"
    using sort_outcome [OF sorts(2)] assms by auto
  then have i: "i = assemble now kb (reorder (combined_subsystems kb) order)"
    using sorts(3) assms by simp
  have "distinct (map ss_name (combined_subsystems kb))"
    using sorts(2) by (simp only: well_declared_def)
  then have "map ss_name (ki_subsystems i) = order"
    using reorder_permutes(1) [OF _ order(2,3)] by (simp add: i assemble_def)
  then show ?thesis
    using i order(2,4) that by blast
qed

lemma built_fresh:
  assumes "Kernel_build now kb = Some (Inr k)"
  shows "fresh_kernel k" "ki_workers (kn_inner k) = kb_workers kb" "\<not> kernel_signalled k"
    "ki_signal_handler_requested (kn_inner k) = False"
    "ki_coordinator (kn_inner k) = ShutdownCoordinator_new (kb_shutdown_grace kb)"
    "dependencies_first (deps_of (combined_subsystems kb)) (map ss_name (kernel_subsystems k))"
proof -
  obtain i where i: "k = Kernel_from_inner i" "build now kb = Some (Inr i)"
    using assms by (rule built_inner)
  obtain order where o: "i = assemble now kb (reorder (combined_subsystems kb) order)"
      "map ss_name (ki_subsystems i) = order" "distinct order"
      "dependencies_first (deps_of (combined_subsystems kb)) order"
    using i(2) by (rule built_by)
  show "fresh_kernel k"
    using o(2,3) by (simp add: i fresh_kernel_def kernel_state_def)
      (simp add: o(1) assemble_def LifecycleController_with_events_and_metrics_def LifecycleController_fresh_def)
  show "ki_workers (kn_inner k) = kb_workers kb" "\<not> kernel_signalled k"
      "ki_signal_handler_requested (kn_inner k) = False"
      "ki_coordinator (kn_inner k) = ShutdownCoordinator_new (kb_shutdown_grace kb)"
    by (simp_all add: i o(1) assemble_def kernel_signalled_def ShutdownInner_new_def ShutdownHandle_is_signalled_def)
  show "dependencies_first (deps_of (combined_subsystems kb)) (map ss_name (kernel_subsystems k))"
    using o(2,4) i(1) by simp
qed

text \<open>
  C3: Booting a kernel fresh from the builder calls every subsystem's \<open>boot\<close> in dependency order, then every
  \<open>load\<close>. It stops at the first failure, error or panic, returns it and leaves the kernel Failed; after a failed
  load it shuts down the subsystems that had loaded, in reverse, and no others; after a
  failed boot it shuts down none. Otherwise the kernel is Running.
\<close>

theorem boot_stops_at_first_failure:
  assumes "Kernel_build now kb = Some (Inr k)" and "context_only env"
  shows "\<exists>r k'. Kernel_boot env k = (r, k') \<and>
    (case first_error boot_result (kernel_subsystems k) of
       Some e \<Rightarrow> r = Inl e \<and> kernel_state k' = Failed \<and>
         kn_calls k' = boot_calls (up_to_failure boot_result (kernel_subsystems k))
     | None \<Rightarrow>
       (case first_error load_result (kernel_subsystems k) of
          Some e \<Rightarrow> r = Inl e \<and> kernel_state k' = Failed \<and>
            kn_calls k' = boot_calls (kernel_subsystems k) @
              load_calls (up_to_failure load_result (kernel_subsystems k)) @
              shutdown_calls (rev (before_failure load_result (kernel_subsystems k)))
        | None \<Rightarrow> r = Inr () \<and> kernel_state k' = Running \<and>
            kn_calls k' = boot_calls (kernel_subsystems k) @ load_calls (kernel_subsystems k)))"
proof -
  obtain r k' where "Kernel_boot env k = (r, k')"
      "(r, kernel_state k', kn_calls k') = boot_outcome (kernel_subsystems k)"
    using boot_leaves [OF built_fresh(1) [OF assms(1)] assms(2)] by blast
  then show ?thesis
    by (intro exI [of _ r] exI [of _ k']) (auto simp: boot_outcome_def split: option.splits)
qed

definition demo_environment :: "'e environment" where
  "demo_environment = \<lparr>en_effect = (\<lambda>c i. i), en_call_at = (\<lambda>c. 1), en_transition_at = (\<lambda>s. 1),
     en_translate = (\<lambda>key fallback. fallback), en_debug = (\<lambda>d. []),
     en_shutdown_clock = \<lparr>sc_started = 1, sc_std_started = 1, sc_hook = (\<lambda>i. 2), sc_completed = 3\<rparr>\<rparr>"

lemma demo_context_only: "context_only demo_environment"
  by (simp add: context_only_def demo_environment_def)

lemma default_kernel_builds:
  obtains k where "Kernel_build 0 (KernelBuilder_new ''svc'' :: 'e KernelBuilder) = Some (Inr k)"
    "\<And>s. s \<in> set (kernel_subsystems k) \<Longrightarrow> boot_result s = Inr () \<and> load_result s = Inr () \<and> shutdown_result s = Inr ()"
proof -
  obtain i where i: "build 0 (KernelBuilder_new ''svc'' :: 'e KernelBuilder) = Some (Inr i)"
    using default_builder_builds by blast
  then obtain order where "i = assemble 0 (KernelBuilder_new ''svc'') (reorder boxed_builtins order)"
      "set order = set (map ss_name boxed_builtins)" "distinct order" "distinct (map ss_name boxed_builtins)"
    using sort_outcome [of boxed_builtins]
    by (cases rule: build_cases [of 0 "KernelBuilder_new ''svc'' :: 'e KernelBuilder"])
      (fastforce simp: KernelBuilder_new_def well_declared_def)+
  then have "mset (ki_subsystems i) = mset boxed_builtins"
    using reorder_permutes(2) by (simp add: assemble_def)
  then have subs: "set (ki_subsystems i) = set boxed_builtins"
    by (rule mset_eq_setD)
  show ?thesis
  proof (rule that [of "Kernel_from_inner i"])
    fix s
    assume "s \<in> set (kernel_subsystems (Kernel_from_inner i))"
    then show "boot_result s = Inr () \<and> load_result s = Inr () \<and> shutdown_result s = Inr ()"
      by (auto simp: subs boxed_builtins_def boot_result_def load_result_def shutdown_result_def caught_def
          subsystem_defaults_def LifecycleSubsystem_def EventSubsystem_def ErrorSubsystem_def
          HealthSubsystem_def MetricsSubsystem_def WorkerSubsystem_def ShutdownSubsystem_def)
  qed (simp add: Kernel_build_def i)
qed

lemma no_first_error: "(\<And>s. s \<in> set subs \<Longrightarrow> f s = Inr ()) \<Longrightarrow> first_error f subs = None"
  by (induction subs) auto

theorem boot_stops_at_first_failure_witness:
  "\<exists>(k :: nat Kernel) k'. Kernel_build 0 (KernelBuilder_new ''svc'') = Some (Inr k) \<and>
     Kernel_boot demo_environment k = (Inr (), k') \<and> kernel_state k' = Running"
proof -
  obtain k :: "nat Kernel" where k: "Kernel_build 0 (KernelBuilder_new ''svc'') = Some (Inr k)"
    "\<And>s. s \<in> set (kernel_subsystems k) \<Longrightarrow> boot_result s = Inr () \<and> load_result s = Inr () \<and> shutdown_result s = Inr ()"
    using default_kernel_builds by blast
  then have "first_error boot_result (kernel_subsystems k) = None" "first_error load_result (kernel_subsystems k) = None"
    by (simp_all add: no_first_error)
  then show ?thesis
    using boot_stops_at_first_failure [OF k(1) demo_context_only] k(1) by fastforce
qed

text \<open>
  A kernel that has left the state Created refuses to boot: no subsystem is called and nothing changes.
\<close>

theorem second_boot_is_refused:
  assumes "kernel_state k \<noteq> Created"
  shows "Kernel_boot env k =
    (Inl (KE_Lifecycle LifecycleIllegalTransition \<lparr>te_from = kernel_state k, te_to = Booting\<rparr>), k)"
proof -
  have "\<not> is_legal (kernel_state k) Booting"
    using assms by (cases "kernel_state k") (simp_all add: is_legal_def LEGAL_TRANSITIONS_rows)
  then show ?thesis
    by (simp add: Kernel_boot_def transition_refused)
qed

theorem second_boot_is_refused_witness:
  "\<exists>k k' :: nat Kernel. Kernel_boot demo_environment k = (Inr (), k') \<and>
     Kernel_boot demo_environment k' =
       (Inl (KE_Lifecycle LifecycleIllegalTransition \<lparr>te_from = Running, te_to = Booting\<rparr>), k')"
proof -
  obtain k :: "nat Kernel" where k: "Kernel_build 0 (KernelBuilder_new ''svc'') = Some (Inr k)"
    "\<And>s. s \<in> set (kernel_subsystems k) \<Longrightarrow> boot_result s = Inr () \<and> load_result s = Inr () \<and> shutdown_result s = Inr ()"
    using default_kernel_builds by blast
  then have e: "first_error boot_result (kernel_subsystems k) = None" "first_error load_result (kernel_subsystems k) = None"
    by (simp_all add: no_first_error)
  obtain r k' where k': "Kernel_boot demo_environment k = (r, k')"
      "(r, kernel_state k', kn_calls k') = boot_outcome (kernel_subsystems k)"
    using boot_leaves [OF built_fresh(1) [OF k(1)] demo_context_only] by blast
  then have "r = Inr ()" "kernel_state k' = Running"
    by (simp_all add: boot_outcome_def e)
  with k' second_boot_is_refused [of k' demo_environment] show ?thesis
    by auto
qed

end
