(* ===== verification/Kernel_Run.thy ===== *)
theory Kernel_Run
  imports Kernel_Phases
begin

text \<open>
  \<open>run\<close> from boot to the end: the supervised phase ends only after the shutdown signal, and the calls to
  the subsystems respect the declared dependencies whatever happens.
\<close>

section \<open>The supervised phase\<close>

lemma stage_outcome:
  assumes "get_worker w s = Some r"
  shows "sv_stage (handle_outcome rd w out s) = sv_stage s"
proof -
  obtain s1 where eq: "handle_outcome rd w out s =
       restart_or_stop rd w (out \<noteq> Completed) (restarts rd w (out \<noteq> Completed) r)
         (backoff_delay (failures_after rd (out \<noteq> Completed) r) (ws_backoff (rw_spec r)))
         (failures_after rd (out \<noteq> Completed) r) (ws_name (rw_spec r)) (ws_criticality (rw_spec r)) s1"
    and q: "quiet s s1"
    using assms by (rule handle_outcome_decides)
  have crit: "sv_stage (apply_criticality now n c t) = sv_stage t" for now n c t
    using quiet_apply_criticality [of t now n c] by (simp add: quiet_def)
  show ?thesis
    using q unfolding eq restart_or_stop_def Let_def by (simp add: crit quiet_def)
qed

lemma stage_outcome_any [simp]: "sv_stage (handle_outcome rd w out s) = sv_stage s"
proof (cases "get_worker w s")
  case None
  then show ?thesis
    by (simp add: handle_outcome_def)
qed (rule stage_outcome)

lemma stage_join_task [simp]: "sv_stage (join_task rd t w outcome s) = sv_stage s"
  by (simp add: join_task_def Let_def split: option.split)

lemma stage_fold: "(\<And>x s. sv_stage (f x s) = sv_stage s) \<Longrightarrow> sv_stage (fold f xs s) = sv_stage s"
  by (induction xs arbitrary: s) simp_all

lemma stage_watchdog_tick [simp]: "sv_stage (watchdog_tick rd s) = sv_stage s"
proof -
  have "sv_stage (time_out_worker rd t s) = sv_stage s" for t s
    using quiet_time_out [of s rd t] by (simp add: quiet_def)
  then show ?thesis
    unfolding watchdog_tick_def Let_def by (simp add: stage_fold)
qed

lemma stage_start_run [simp]: "sv_stage (start_run rd s) = Looping"
  by (simp add: start_run_def stage_fold)

lemma stage_register [simp]: "sv_stage (snd (register_inner spec runner s)) = sv_stage s"
  by (simp add: register_inner_def Let_def case_prod_beta)

lemma finishes_cancelled:
  assumes "sup_step s s'" and "sv_stage s' = Finished_run"
  shows "sv_stage s = Finished_run \<or> sv_cancelled s"
  using assms by cases simp_all

definition watched_inv :: "Supervisor \<Rightarrow> bool" where
  "watched_inv s \<longleftrightarrow> sup_inv s \<and> (sv_cancelled s \<longrightarrow> ShutdownHandle_is_signalled (sv_shutdown s)) \<and>
     (sv_stage s = Finished_run \<longrightarrow> ShutdownHandle_is_signalled (sv_shutdown s))"

definition watched_start :: "(WorkerSpec \<times> WorkerRunner) list \<Rightarrow> Supervisor \<Rightarrow> bool" where
  "watched_start ws s \<longleftrightarrow> length ws < 2 ^ 64 \<and> (\<exists>h i. s = register_pending ws (Supervisor_new h i))"

lemma register_fields [simp]:
  "sv_cancelled (snd (register_inner spec runner s)) = sv_cancelled s"
  "sv_shutdown (snd (register_inner spec runner s)) = sv_shutdown s"
  "ig_next (sv_id_gen (snd (register_inner spec runner s))) = ig_next (sv_id_gen s) + 1"
  by (simp_all add: register_inner_def Let_def case_prod_beta next_worker_id_def id_fetch_add_def)

lemma register_pending_inv:
  "sup_inv s \<Longrightarrow> unat (ig_next (sv_id_gen s)) + length ws < 2 ^ 64 \<Longrightarrow>
   sup_inv (register_pending ws s) \<and> sv_stage (register_pending ws s) = sv_stage s \<and>
   sv_cancelled (register_pending ws s) = sv_cancelled s \<and> sv_shutdown (register_pending ws s) = sv_shutdown s"
proof (induction ws arbitrary: s)
  case (Cons p ws)
  let ?s = "snd (register_inner (fst p) (snd p) s)"
  have ne: "ig_next (sv_id_gen s) \<noteq> - 1"
    using Cons.prems(2) by (auto simp: unsigned_minus_1_eq_mask mask_eq_exp_minus_1)
  then have "unat (ig_next (sv_id_gen ?s)) = Suc (unat (ig_next (sv_id_gen s)))"
    by (simp add: unat_plus_one)
  then show ?case
    using Cons.IH [of ?s] Cons.prems inv_register [OF Cons.prems(1) ne]
    by (simp add: register_pending_def case_prod_beta)
qed (simp add: register_pending_def)

interpretation watched: invariant_system "watched_start ws" watched_step watched_inv for ws
proof
  show "watched_inv s" if "watched_start ws s" for s
  proof -
    obtain h i where s: "s = register_pending ws (Supervisor_new h i)" and len: "length ws < 2 ^ 64"
      using \<open>watched_start ws s\<close> by (auto simp: watched_start_def)
    have "sup_inv (Supervisor_new h i)"
      by (rule supervisor.inv_start) (auto simp: sup_start_def)
    moreover have "unat (ig_next (sv_id_gen (Supervisor_new h i))) = 0" "\<not> sv_cancelled (Supervisor_new h i)"
        "sv_stage (Supervisor_new h i) = Registering"
      by (simp_all add: Supervisor_new_def IdGenerator_new_def)
    ultimately show ?thesis
      using register_pending_inv [of "Supervisor_new h i" ws] len by (simp add: watched_inv_def s)
  qed
  show "watched_inv s'" if inv: "watched_inv s" and step: "watched_step s s'" for s s'
  proof -
    have "sup_inv s'" "evolves s s'"
      using sup_inv_step inv step by (auto simp: watched_inv_def watched_step_def)
    then show ?thesis
      using inv step finishes_cancelled [of s s'] by (auto simp: watched_inv_def watched_step_def evolves_def)
  qed
qed

lemma supervisor_finishes_signalled:
  assumes "length ws < 2 ^ 64" and "watched_step\<^sup>*\<^sup>* (register_pending ws (Supervisor_new h i)) s"
    and "sv_stage s = Finished_run"
  shows "ShutdownHandle_is_signalled (sv_shutdown s)"
proof -
  have "watched_inv s"
    using assms(1,2) by (intro watched.inv_reachable [of ws]) (auto simp: watched_start_def)
  then show ?thesis
    using assms(3) by (simp add: watched_inv_def)
qed

section \<open>The execution phase\<close>

lemma coordinator_fields:
  assumes "run_coordinator env k = (rep, k')"
  shows "kernel_state k' = kernel_state k" "kn_calls k' = kn_calls k"
    "kernel_subsystems k' = kernel_subsystems k" "kernel_signalled k' = kernel_signalled k"
  using assms by (auto simp: run_coordinator_def case_prod_beta on_inner_def kernel_state_def kernel_signalled_def)

lemma shutdown_fields [simp]:
  "kernel_state (Kernel_shutdown k) = kernel_state k" "kn_calls (Kernel_shutdown k) = kn_calls k"
  "kernel_subsystems (Kernel_shutdown k) = kernel_subsystems k" "kernel_signalled (Kernel_shutdown k)"
  by (simp_all add: Kernel_shutdown_def on_inner_def kernel_state_def kernel_signalled_def
      ShutdownHandle_signal_def ShutdownHandle_is_signalled_def)

lemma absorb_fields [simp]:
  "kernel_state (absorb_supervisor s k) = kernel_state k"
  "kernel_subsystems (absorb_supervisor s k) = kernel_subsystems k"
  "kernel_signalled (absorb_supervisor s k) = ShutdownHandle_is_signalled (sv_shutdown s)"
  by (simp_all add: absorb_supervisor_def on_inner_def kernel_state_def kernel_signalled_def)

lemma exec_phase_leaves:
  assumes "exec_phase env k r k'" and "length (ki_workers (kn_inner k)) < 2 ^ 64"
  shows "kernel_state k' = kernel_state k" "kn_calls k' = kn_calls k" "kernel_subsystems k' = kernel_subsystems k"
    "(\<exists>m. r = Returned (Inl (KE_Internal Internal m))) \<or> kernel_signalled k'"
    "(\<exists>m. r = Returned (Inl (KE_Internal Internal m))) \<or> r = Returned (Inr ()) \<or> (\<exists>p. r = Unwound p)"
proof -
  have key: "kernel_state k' = kernel_state k \<and> kn_calls k' = kn_calls k \<and> kernel_subsystems k' = kernel_subsystems k \<and>
      kernel_signalled k'"
    if "beside (kn_inner k0) i" "kernel_signalled (k\<lparr>kn_inner := i\<rparr>)" "run_coordinator env (k\<lparr>kn_inner := i\<rparr>) = (rep, k')"
      "kernel_state k0 = kernel_state k" "kernel_subsystems k0 = kernel_subsystems k" for k0 i rep k'
    using beside_kernel [of k0 "k\<lparr>kn_inner := i\<rparr>"] coordinator_fields [OF that(3)] that by simp
  have sup: "kernel_signalled (k\<lparr>kn_inner := i\<rparr>)"
    if "watched_step\<^sup>*\<^sup>* (supervisor_at_start k) s" "sv_stage s = Finished_run"
      "beside (kn_inner (absorb_supervisor s k)) i" for s i
    using supervisor_finishes_signalled [OF assms(2) that(1) [unfolded supervisor_at_start_def] that(2)]
      beside_kernel(4) [of "absorb_supervisor s k" "k\<lparr>kn_inner := i\<rparr>"] that(3) by simp
  have "kernel_state k' = kernel_state k \<and> kn_calls k' = kn_calls k \<and> kernel_subsystems k' = kernel_subsystems k \<and>
      ((\<exists>m. r = Returned (Inl (KE_Internal Internal m))) \<or> kernel_signalled k') \<and>
      ((\<exists>m. r = Returned (Inl (KE_Internal Internal m))) \<or> r = Returned (Inr ()) \<or> (\<exists>p. r = Unwound p))"
    using assms(1)
  proof cases
    case (hooks_run i rep)
    then show ?thesis
      using key [of k i] by (simp add: kernel_signalled_def)
  next
    case (hooks_skipped i)
    then show ?thesis
      using beside_kernel [of k "k\<lparr>kn_inner := i\<rparr>"] by (simp add: kernel_signalled_def)
  next
    case (hooks_panic i payload)
    then show ?thesis
      using key [of k i] by (simp add: kernel_signalled_def)
  next
    case (no_runtime io_error)
    then show ?thesis
      by simp
  next
    case (workers_run s i rep k1)
    then show ?thesis
      using key [of "absorb_supervisor s k" i "Some rep" k1] sup by simp
  next
    case (workers_panic s i payload)
    then show ?thesis
      using key [of "absorb_supervisor s k" i None k'] sup by simp
  qed
  then show "kernel_state k' = kernel_state k" "kn_calls k' = kn_calls k" "kernel_subsystems k' = kernel_subsystems k"
    "(\<exists>m. r = Returned (Inl (KE_Internal Internal m))) \<or> kernel_signalled k'"
    "(\<exists>m. r = Returned (Inl (KE_Internal Internal m))) \<or> r = Returned (Inr ()) \<or> (\<exists>p. r = Unwound p)"
    by blast+
qed

section \<open>Stopping and running\<close>

lemma stop_leaves:
  assumes env: "context_only env" and "kernel_state k = Running"
  obtains k' where "stop_kernel env k =
      (case first_error shutdown_result (rev (kernel_subsystems k)) of Some e \<Rightarrow> Inl e | None \<Rightarrow> Inr (), k')"
    "kernel_state k' = Stopped" "kn_calls k' = kn_calls k @ shutdown_calls (rev (kernel_subsystems k))"
    "kernel_signalled k \<Longrightarrow> kernel_signalled k'"
proof -
  have "is_legal (kernel_state k) Stopping"
    by (simp add: assms legal_moves)
  from transition_cases [OF this, of env] obtain k1 where t1: "kernel_transition env Stopping k = (Inr (), k1)"
      "kernel_state k1 = Stopping" "kn_calls k1 = kn_calls k" "kernel_subsystems k1 = kernel_subsystems k"
      "kernel_signalled k1 = kernel_signalled k"
    by auto
  obtain fe k2 where l: "shutdown_loop env (rev (kernel_subsystems k)) None k1 = (fe, k2)"
    by (cases "shutdown_loop env (rev (kernel_subsystems k)) None k1")
  have l2: "fe = first_error shutdown_result (rev (kernel_subsystems k))"
      "kn_calls k2 = kn_calls k @ shutdown_calls (rev (kernel_subsystems k))" "through_context (kn_inner k1) (kn_inner k2)"
    using shutdown_loop_calls [OF env, of "rev (kernel_subsystems k)" None k1] l t1 by auto
  note s2 = context_kernel [OF l2(3), unfolded t1]
  have "is_legal (kernel_state k2) Stopped"
    by (simp add: s2 legal_moves)
  from transition_cases [OF this, of env] obtain k3 where t3: "kernel_transition env Stopped k2 = (Inr (), k3)"
      "kernel_state k3 = Stopped" "kn_calls k3 = kn_calls k2" "kernel_signalled k3 = kernel_signalled k2"
    by auto
  show ?thesis
  proof (rule that [of k3])
    show "stop_kernel env k =
        (case first_error shutdown_result (rev (kernel_subsystems k)) of Some e \<Rightarrow> Inl e | None \<Rightarrow> Inr (), k3)"
      by (simp add: stop_kernel_def t1 run_shutdown_phase_def l t3 l2(1))
  qed (use t3 l2 s2 in auto)
qed

lemma boot_outcome_cases:
  obtains (fails) e where "fst (boot_outcome subs) = Inl e" "fst (snd (boot_outcome subs)) = Failed"
  | (boots) "boot_outcome subs = (Inr (), Running, boot_calls subs @ load_calls subs)"
proof (cases "fst (boot_outcome subs)")
  case (Inl e)
  then show ?thesis
    by (intro fails [of e]) (auto simp: boot_outcome_def split: option.splits)
next
  case (Inr u)
  then show ?thesis
    by (intro boots) (auto simp: boot_outcome_def split: option.splits)
qed

lemma run_leaves_fresh:
  assumes fresh: "fresh_kernel k" and env: "context_only env"
    and len: "length (ki_workers (kn_inner k)) < 2 ^ 64" and run: "kernel_run env k r k'"
  shows "(\<exists>e. fst (boot_outcome (kernel_subsystems k)) = Inl e \<and> r = Returned (Inl e) \<and>
             kernel_state k' = Failed \<and> kn_calls k' = snd (snd (boot_outcome (kernel_subsystems k)))) \<or>
         fst (boot_outcome (kernel_subsystems k)) = Inr () \<and>
         (kernel_state k' = Running \<and> kn_calls k' = boot_calls (kernel_subsystems k) @ load_calls (kernel_subsystems k) \<and>
            ((\<exists>m. r = Returned (Inl (KE_Internal Internal m))) \<or> (\<exists>p. r = Unwound p)) \<or>
          kernel_state k' = Stopped \<and> kernel_signalled k' \<and>
            kn_calls k' = boot_calls (kernel_subsystems k) @ load_calls (kernel_subsystems k) @
              shutdown_calls (rev (kernel_subsystems k)) \<and>
            r = Returned (case first_error shutdown_result (rev (kernel_subsystems k)) of
                            Some e \<Rightarrow> Inl e | None \<Rightarrow> Inr ()))"
proof -
  obtain rb kb where b: "Kernel_boot env k = (rb, kb)"
      "(rb, kernel_state kb, kn_calls kb) = boot_outcome (kernel_subsystems k)"
      "kernel_subsystems kb = kernel_subsystems k" "ki_workers (kn_inner kb) = ki_workers (kn_inner k)"
    using boot_leaves [OF fresh env] by blast
  have len: "length (ki_workers (kn_inner kb)) < 2 ^ 64"
    using len b(4) by simp
  show ?thesis
  proof (cases rule: boot_outcome_cases [of "kernel_subsystems k"])
    case (fails e)
    then have "rb = Inl e" "kernel_state kb = Failed" "kn_calls kb = snd (snd (boot_outcome (kernel_subsystems k)))"
      using b(2) by (metis fst_conv snd_conv)+
    then show ?thesis
      using run b(1) fails(1) by (auto elim!: kernel_runE)
  next
    case boots
    then have rb: "rb = Inr ()" "kernel_state kb = Running"
        "kn_calls kb = boot_calls (kernel_subsystems k) @ load_calls (kernel_subsystems k)"
      using b(2) by simp_all
    from run show ?thesis
    proof cases
      case (boot_failed e)
      then show ?thesis
        using b(1) rb by simp
    next
      case (exec_failed k1 e)
      then have "exec_phase env kb (Returned (Inl e)) k'"
        using b(1) by simp
      from exec_phase_leaves [OF this len] show ?thesis
        using exec_failed(1) rb boots by simp
    next
      case (exec_panicked k1 p)
      then have "exec_phase env kb (Unwound p) k'"
        using b(1) by simp
      from exec_phase_leaves [OF this len] show ?thesis
        using exec_panicked(1) rb boots by simp
    next
      case (finished k1 k2 r')
      then have e: "exec_phase env kb (Returned (Inr ())) k2"
        using b(1) by simp
      note x = exec_phase_leaves [OF e len]
      obtain k3 where "stop_kernel env k2 =
          (case first_error shutdown_result (rev (kernel_subsystems k2)) of Some e \<Rightarrow> Inl e | None \<Rightarrow> Inr (), k3)"
          "kernel_state k3 = Stopped" "kn_calls k3 = kn_calls k2 @ shutdown_calls (rev (kernel_subsystems k2))"
          "kernel_signalled k2 \<Longrightarrow> kernel_signalled k3"
        using stop_leaves [OF env, of k2] x(1) rb by metis
      then show ?thesis
        using finished x b(3) rb boots by auto
    qed
  qed
qed

lemma built_worker_count:
  "Kernel_build now kb = Some (Inr k) \<Longrightarrow> length (kb_workers kb) < 2 ^ 64 \<Longrightarrow> length (ki_workers (kn_inner k)) < 2 ^ 64"
  by (simp add: built_fresh(2))

text \<open>
  C2: A run that got past booting either stops the kernel: the shutdown signal was raised, every subsystem was
  shut down exactly once in the reverse of the boot order, the first error of these calls is the result, and
  later failures did not stop the others; or its execution phase failed or panicked: then the
  kernel is left Running and no subsystem is ever shut down.
\<close>

theorem run_stops_in_reverse:
  assumes "Kernel_build now kb = Some (Inr k)" and "context_only env" and "length (kb_workers kb) < 2 ^ 64"
    and "first_error boot_result (kernel_subsystems k) = None" and "first_error load_result (kernel_subsystems k) = None"
    and "kernel_run env k r k'"
  shows "kernel_state k' = Stopped \<and> kernel_signalled k' \<and>
        kn_calls k' = boot_calls (kernel_subsystems k) @ load_calls (kernel_subsystems k) @
          shutdown_calls (rev (kernel_subsystems k)) \<and>
        r = Returned (case first_error shutdown_result (rev (kernel_subsystems k)) of Some e \<Rightarrow> Inl e | None \<Rightarrow> Inr ()) \<or>
      kernel_state k' = Running \<and>
        kn_calls k' = boot_calls (kernel_subsystems k) @ load_calls (kernel_subsystems k) \<and>
        ((\<exists>message. r = Returned (Inl (KE_Internal Internal message))) \<or> (\<exists>payload. r = Unwound payload))"
  using run_leaves_fresh [OF built_fresh(1) [OF assms(1)] assms(2) built_worker_count [OF assms(1,3)] assms(6)] by (auto simp: boot_outcome_def assms(4,5))

lemma signalled_run:
  assumes "Kernel_build now kb = Some (Inr k)" and "context_only env" and "kb_workers kb = []"
    and "first_error boot_result (kernel_subsystems k) = None" and "first_error load_result (kernel_subsystems k) = None"
  obtains k1 where "Kernel_boot env k = (Inr (), k1)" "kernel_state k1 = Running"
    "kernel_subsystems k1 = kernel_subsystems k" "ki_workers (kn_inner k1) = []"
    "kn_calls k1 = boot_calls (kernel_subsystems k) @ load_calls (kernel_subsystems k)"
    "\<not> supervised k1" "ki_coordinator (kn_inner k1) = ShutdownCoordinator_new (kb_shutdown_grace kb)"
proof -
  obtain r k1 where k1: "Kernel_boot env k = (r, k1)"
      "(r, kernel_state k1, kn_calls k1) = boot_outcome (kernel_subsystems k)"
      "kernel_subsystems k1 = kernel_subsystems k" "ki_workers (kn_inner k1) = ki_workers (kn_inner k)"
      "ki_coordinator (kn_inner k1) = ki_coordinator (kn_inner k)"
      "ki_signal_handler_requested (kn_inner k1) = ki_signal_handler_requested (kn_inner k)"
    using boot_leaves [OF built_fresh(1) [OF assms(1)] assms(2)] by blast
  then have "r = Inr ()" "kernel_state k1 = Running"
      "kn_calls k1 = boot_calls (kernel_subsystems k) @ load_calls (kernel_subsystems k)"
    by (simp_all add: boot_outcome_def assms)
  then show ?thesis
    using k1 built_fresh [OF assms(1)] assms(3) that by (simp add: supervised_def)
qed

lemma raised_beside:
  assumes "ki_workers i = []"
  shows "\<exists>j. beside i j \<and> ShutdownHandle_is_signalled (ki_shutdown j) \<and> ki_workers j = [] \<and>
    ki_coordinator j = ki_coordinator i"
  by (rule exI [of _ "i\<lparr>ki_shutdown := ShutdownHandle_signal (ki_shutdown i)\<rparr>"])
    (simp add: beside_def ShutdownHandle_signal_def ShutdownHandle_is_signalled_def assms)

theorem run_stops_in_reverse_witness:
  "\<exists>(k :: nat Kernel) k'. Kernel_build 0 (KernelBuilder_new ''svc'') = Some (Inr k) \<and>
     kernel_run demo_environment k (Returned (Inr ())) k' \<and> kernel_state k' = Stopped"
proof -
  let ?kb = "KernelBuilder_new ''svc'' :: nat KernelBuilder"
  have w: "kb_workers ?kb = []"
    by (simp add: KernelBuilder_new_def)
  obtain k where k: "Kernel_build 0 ?kb = Some (Inr k)"
    "\<And>s. s \<in> set (kernel_subsystems k) \<Longrightarrow> boot_result s = Inr () \<and> load_result s = Inr () \<and> shutdown_result s = Inr ()"
    using default_kernel_builds by blast
  have ok: "first_error boot_result (kernel_subsystems k) = None" "first_error load_result (kernel_subsystems k) = None"
      "first_error shutdown_result (rev (kernel_subsystems k)) = None"
    using k(2) by (auto intro!: no_first_error)
  obtain k1 where k1: "Kernel_boot demo_environment k = (Inr (), k1)" "kernel_state k1 = Running"
      "ki_workers (kn_inner k1) = []" "\<not> supervised k1" "kernel_subsystems k1 = kernel_subsystems k"
    using signalled_run [OF k(1) demo_context_only w ok(1,2)] by blast
  obtain i where i: "beside (kn_inner k1) i" "ShutdownHandle_is_signalled (ki_shutdown i)"
    using raised_beside [OF k1(3)] by blast
  let ?k2 = "k1\<lparr>kn_inner := i\<rparr>"
  have "exec_phase demo_environment k1 (Returned (Inr ())) ?k2"
    using k1(4) i by (rule exec_phase.hooks_skipped)
  then have "kernel_run demo_environment k (Returned (fst (stop_kernel demo_environment ?k2)))
      (snd (stop_kernel demo_environment ?k2))"
    using k1(1) by (intro kernel_run.finished) simp_all
  moreover from run_stops_in_reverse [OF k(1) demo_context_only _ ok(1,2) this]
  have "kernel_state (snd (stop_kernel demo_environment ?k2)) = Stopped \<or>
      kernel_state (snd (stop_kernel demo_environment ?k2)) = Running"
    by (auto simp: w)
  moreover have "kernel_state ?k2 = Running"
    using beside_kernel(1) [of k1 ?k2] i(1) k1(2) by simp
  then obtain k3 where "stop_kernel demo_environment ?k2 =
      (case first_error shutdown_result (rev (kernel_subsystems ?k2)) of Some e \<Rightarrow> Inl e | None \<Rightarrow> Inr (), k3)"
      "kernel_state k3 = Stopped"
    using stop_leaves [OF demo_context_only] by blast
  moreover have "kernel_subsystems ?k2 = kernel_subsystems k"
    using k1(5) beside_kernel(2) [of k1 ?k2] i(1) by simp
  ultimately show ?thesis
    using k(1) ok(3) by auto
qed

text \<open>
  The supervisor's loop ends only by cancellation: as long as its token is not cancelled it goes on, even when
  every worker has stopped for good and no task is left.
\<close>

theorem supervisor_ends_only_cancelled:
  assumes "sup_start s0" and "sup_step\<^sup>*\<^sup>* s0 s" and "sv_stage s = Finished_run"
  shows "sv_cancelled s"
proof -
  have "sup_inv s \<and> (sv_stage s = Finished_run \<longrightarrow> sv_cancelled s)"
    using assms(2)
  proof (induction rule: rtranclp_induct)
    case base
    then show ?case
      using assms(1) supervisor.inv_start by (auto simp: sup_start_def Supervisor_new_def)
  next
    case (step s t)
    then show ?case
      using sup_inv_step [of s t] finishes_cancelled [of s t] by (auto simp: evolves_def)
  qed
  with assms(3) show ?thesis
    by simp
qed

theorem supervisor_ends_only_cancelled_witness:
  "\<exists>s. sup_step\<^sup>*\<^sup>* (Supervisor_new HealthRegistry_new ShutdownInner_new) s \<and>
     sv_stage s = Finished_run \<and> sv_cancelled s"
proof -
  let ?s0 = "Supervisor_new HealthRegistry_new ShutdownInner_new"
  let ?s1 = "start_run (demo_readings 1) ?s0"
  let ?s2 = "?s1\<lparr>sv_cancelled := True\<rparr>"
  let ?s3 = "snd (shutdown_all (demo_readings 1) [] ?s2)\<lparr>sv_stage := Finished_run\<rparr>"
  have "sup_step ?s0 ?s1"
    by (rule sup_step.start) (simp add: Supervisor_new_def)
  moreover have "sup_step ?s1 ?s2"
    by (rule sup_step.cancel)
  moreover have "sup_step ?s2 ?s3"
    by (rule sup_step.shut_down) (simp_all add: start_run_def Supervisor_new_def)
  ultimately have "sup_step\<^sup>*\<^sup>* ?s0 ?s3"
    by (meson converse_rtranclp_into_rtranclp rtranclp.rtrancl_refl)
  moreover have "sup_start ?s0"
    by (auto simp: sup_start_def)
  ultimately have "sv_cancelled ?s3"
    by (intro supervisor_ends_only_cancelled [of ?s0 ?s3]) simp_all
  with \<open>sup_step\<^sup>*\<^sup>* ?s0 ?s3\<close> show ?thesis
    by (intro exI [of _ ?s3]) simp
qed

text \<open>
  A shutdown that panics, because of the grace period or of a hook, unwinds through \<open>run\<close>: the kernel
  stays Running and none of its subsystems is shut down.
\<close>

theorem panicking_shutdown_skips_subsystems:
  assumes "Kernel_build now kb = Some (Inr k)" and "context_only env" and "kb_workers kb = []"
    and "first_error boot_result (kernel_subsystems k) = None" and "first_error load_result (kernel_subsystems k) = None"
    and "instant_max < sc_std_started (en_shutdown_clock env) + int (kb_shutdown_grace kb)"
  shows "\<exists>k'. kernel_run env k (Unwound payload) k' \<and> kernel_state k' = Running \<and> kernel_signalled k' \<and>
    kn_calls k' = boot_calls (kernel_subsystems k) @ load_calls (kernel_subsystems k)"
proof -
  obtain k1 where k1: "Kernel_boot env k = (Inr (), k1)" "kernel_state k1 = Running" "ki_workers (kn_inner k1) = []"
      "kn_calls k1 = boot_calls (kernel_subsystems k) @ load_calls (kernel_subsystems k)" "\<not> supervised k1"
      "ki_coordinator (kn_inner k1) = ShutdownCoordinator_new (kb_shutdown_grace kb)"
    using signalled_run [OF assms(1-5)] by blast
  obtain i where i: "beside (kn_inner k1) i" "ShutdownHandle_is_signalled (ki_shutdown i)"
      "ki_coordinator i = ShutdownCoordinator_new (kb_shutdown_grace kb)"
    using raised_beside [OF k1(3)] k1(6) by auto
  let ?k2 = "k1\<lparr>kn_inner := i\<rparr>"
  have "fst (run_coordinator env ?k2) = None"
    using assms(6) by (simp add: run_coordinator_def i(3) coordinator_shutdown_def ShutdownCoordinator_new_def Let_def
        instant_plus_def Instant_checked_add_def)
  then obtain k3 where k3: "run_coordinator env ?k2 = (None, k3)"
    by (metis prod.collapse)
  have "exec_phase env k1 (Unwound payload) k3"
    using k1(5) i(1,2) k3 by (rule exec_phase.hooks_panic)
  then have "kernel_run env k (Unwound payload) k3"
    using k1(1) by (intro kernel_run.exec_panicked)
  moreover have "kernel_state k3 = Running" "kn_calls k3 = kn_calls k1" "kernel_signalled k3"
    using coordinator_fields [OF k3] beside_kernel(1) [of k1 ?k2] i(1,2) k1(2)
    by (simp_all add: kernel_signalled_def)
  ultimately show ?thesis
    using k1(4) by auto
qed

lemma grace_overflow_builds:
  fixes k :: "'e Kernel"
  assumes "Kernel_build 0 (KernelBuilder_new ''svc'') = Some (Inr k)"
  obtains k' :: "'e Kernel" where "Kernel_build 0 (with_shutdown_grace g (KernelBuilder_new ''svc'')) = Some (Inr k')"
    "kernel_subsystems k' = kernel_subsystems k"
proof -
  have eq: "build 0 (with_shutdown_grace g kb) =
      map_option (map_sum (\<lambda>e. e) (\<lambda>i. i\<lparr>ki_shutdown_grace := g, ki_coordinator := ShutdownCoordinator_new g\<rparr>)) (build 0 kb)"
    for kb :: "'e KernelBuilder"
    by (simp add: build_def with_shutdown_grace_def Let_def assemble_def split: option.split sum.split)
  obtain i where "k = Kernel_from_inner i" "build 0 (KernelBuilder_new ''svc'') = Some (Inr i)"
    using assms by (rule built_inner)
  then show ?thesis
    by (intro that [of "Kernel_from_inner (i\<lparr>ki_shutdown_grace := g, ki_coordinator := ShutdownCoordinator_new g\<rparr>)"])
      (simp_all add: Kernel_build_def eq)
qed

theorem panicking_shutdown_skips_subsystems_witness:
  "\<exists>(k :: nat Kernel) k'. Kernel_build 0 (with_shutdown_grace duration_max (KernelBuilder_new ''svc'')) = Some (Inr k) \<and>
     kernel_run demo_environment k (Unwound (PayloadStaticStr ''overflow'')) k' \<and> kernel_state k' = Running"
proof -
  obtain k0 :: "nat Kernel" where k0: "Kernel_build 0 (KernelBuilder_new ''svc'') = Some (Inr k0)"
    "\<And>s. s \<in> set (kernel_subsystems k0) \<Longrightarrow> boot_result s = Inr () \<and> load_result s = Inr () \<and> shutdown_result s = Inr ()"
    using default_kernel_builds by blast
  obtain k :: "nat Kernel" where k: "Kernel_build 0 (with_shutdown_grace duration_max (KernelBuilder_new ''svc'')) = Some (Inr k)"
      "kernel_subsystems k = kernel_subsystems k0"
    using k0(1) by (rule grace_overflow_builds [where g = duration_max])
  have ok: "first_error boot_result (kernel_subsystems k) = None" "first_error load_result (kernel_subsystems k) = None"
    using k0(2) by (simp_all add: k(2) no_first_error)
  have "kb_workers (with_shutdown_grace duration_max (KernelBuilder_new ''svc'' :: nat KernelBuilder)) = []"
    by (simp add: with_shutdown_grace_def KernelBuilder_new_def)
  moreover have "instant_max < sc_std_started (en_shutdown_clock (demo_environment :: nat environment)) +
      int (kb_shutdown_grace (with_shutdown_grace duration_max (KernelBuilder_new ''svc'' :: nat KernelBuilder)))"
    by (simp add: with_shutdown_grace_def demo_environment_def instant_max_def nanos_per_sec_def duration_max_value)
  ultimately obtain k' where "kernel_run demo_environment k (Unwound (PayloadStaticStr ''overflow'')) k'" "kernel_state k' = Running"
    using panicking_shutdown_skips_subsystems [OF k(1) demo_context_only _ ok] by blast
  then show ?thesis
    using k(1) by blast
qed

section \<open>Calls respect the dependencies\<close>

text \<open>
  Every call is made at most once; a subsystem boots after what it depends on has booted, loads after what it
  depends on has loaded, and is shut down only after it has loaded and before anything it depends on is.
\<close>

definition respects_dependencies :: "(string \<Rightarrow> string list) \<Rightarrow> SubsystemCall list \<Rightarrow> bool" where
  "respects_dependencies deps calls \<longleftrightarrow> distinct calls \<and>
     (\<forall>xs v ys. calls = xs @ BootCall v # ys \<longrightarrow> BootCall ` set (deps v) \<subseteq> set xs) \<and>
     (\<forall>xs v ys. calls = xs @ LoadCall v # ys \<longrightarrow> LoadCall ` set (deps v) \<subseteq> set xs) \<and>
     (\<forall>xs v ys. calls = xs @ ShutdownCall v # ys \<longrightarrow>
        LoadCall v \<in> set xs \<and> ShutdownCall ` set (deps v) \<inter> set xs = {})"

lemma prefix_dependencies:
  assumes "dependencies_first deps (p @ rest)" and "p = xs @ v # ys"
  shows "set (deps v) \<subseteq> set xs"
  using assms unfolding dependencies_first_def by (metis append.assoc append_Cons)

lemma respects_shape:
  assumes first: "dependencies_first deps order" and dist: "distinct order"
    and p: "order = p @ p'" and q: "order = q @ q'" and t: "order = t @ t'" and sub: "set t \<subseteq> set q"
  shows "respects_dependencies deps (map BootCall p @ map LoadCall q @ map ShutdownCall (rev t))"
proof -
  let ?calls = "map BootCall p @ map LoadCall q @ map ShutdownCall (rev t)"
  have d: "distinct p" "distinct q" "distinct t"
    using dist by (simp add: p, metis distinct_append q, metis distinct_append t)
  then have "distinct ?calls"
    by (auto simp: distinct_map inj_on_def)
  moreover have "BootCall ` set (deps v) \<subseteq> set xs" if c: "?calls = xs @ BootCall v # ys" for xs v ys
  proof -
    obtain us where "map BootCall p = xs @ BootCall v # us"
      using split_left [OF c] by auto
    then obtain xs' ys' where "p = xs' @ v # ys'" "xs = map BootCall xs'"
      by (auto simp: map_eq_append_conv)
    then show ?thesis
      using prefix_dependencies [of deps p p' xs' v ys'] first p by auto
  qed
  moreover have "LoadCall ` set (deps v) \<subseteq> set xs" if c: "?calls = xs @ LoadCall v # ys" for xs v ys
  proof -
    obtain us where us: "xs = map BootCall p @ us" "map LoadCall q @ map ShutdownCall (rev t) = us @ LoadCall v # ys"
      using split_right [OF c] by auto
    obtain ws where "map LoadCall q = us @ LoadCall v # ws"
      using split_left [OF us(2)] by auto
    then obtain xs' ys' where "q = xs' @ v # ys'" "us = map LoadCall xs'"
      by (auto simp: map_eq_append_conv)
    then show ?thesis
      using prefix_dependencies [of deps q q' xs' v ys'] first q us(1) by auto
  qed
  moreover have "LoadCall v \<in> set xs \<and> ShutdownCall ` set (deps v) \<inter> set xs = {}"
    if c: "?calls = xs @ ShutdownCall v # ys" for xs v ys
  proof -
    have "(map BootCall p @ map LoadCall q) @ map ShutdownCall (rev t) = xs @ ShutdownCall v # ys"
      using c by simp
    from split_right [OF this] obtain us where
        us: "xs = (map BootCall p @ map LoadCall q) @ us" "map ShutdownCall (rev t) = us @ ShutdownCall v # ys"
      by auto
    then obtain xs' ys' where s: "rev t = xs' @ v # ys'" "us = map ShutdownCall xs'"
      by (auto simp: map_eq_append_conv)
    then have "t = rev ys' @ v # rev xs'"
      by (metis append.assoc append_Cons append_Nil rev.simps(2) rev_append rev_rev_ident)
    moreover from this have "set (deps v) \<subseteq> set ys'"
      using prefix_dependencies [of deps t t' "rev ys'" v "rev xs'"] first t by auto
    ultimately show ?thesis
      using us(1) s(2) d(3) sub by auto
  qed
  ultimately show ?thesis
    by (simp add: respects_dependencies_def)
qed

lemma outcome_shape:
  "\<exists>p p' q q' t t'. subs = p @ p' \<and> subs = q @ q' \<and> subs = t @ t' \<and> set t \<subseteq> set q \<and>
     snd (snd (boot_outcome subs)) = boot_calls p @ load_calls q @ shutdown_calls (rev t)"
proof (cases "first_error boot_result subs")
  case (Some e)
  then obtain s rest where "subs = (before_failure boot_result subs @ [s]) @ rest"
      "up_to_failure boot_result subs = before_failure boot_result subs @ [s]"
    using before_failure_is_prefix [OF Some] by auto
  then show ?thesis
    using Some by (intro exI [of _ "up_to_failure boot_result subs"] exI [of _ rest] exI [of _ "[]"] exI [of _ subs])
      (simp add: boot_outcome_def load_calls_def shutdown_calls_def)
next
  case boots: None
  show ?thesis
  proof (cases "first_error load_result subs")
    case (Some e)
    let ?t = "before_failure load_result subs"
    obtain s rest where "subs = ?t @ s # rest" "up_to_failure load_result subs = ?t @ [s]"
      using before_failure_is_prefix [OF Some] by auto
    then show ?thesis
      using boots Some by (intro exI [of _ subs] exI [of _ "[]"] exI [of _ "up_to_failure load_result subs"]
          exI [of _ rest] exI [of _ ?t] exI [of _ "s # rest"]) (auto simp: boot_outcome_def)
  next
    case None
    then show ?thesis
      using boots by (intro exI [of _ subs] exI [of _ "[]"] exI [of _ subs] exI [of _ "[]"] exI [of _ subs])
        (simp add: boot_outcome_def shutdown_calls_def)
  qed
qed


lemma built_ne:
  assumes "build now kb = Some (Inr i)"
  shows "ki_subsystems i \<noteq> []"
proof (cases rule: build_cases [of now kb])
  case (early e)
  then show ?thesis
    using assms by simp
next
  case sorts
  then obtain order where order: "topo_sort (combined_subsystems kb) = Some (Inr order)" "distinct order"
      "set order = set (map ss_name (combined_subsystems kb))"
    using sort_outcome [OF sorts(2)] assms by auto
  have "distinct (map ss_name (combined_subsystems kb))"
    using sorts(2) by (simp only: well_declared_def)
  then have "mset (ki_subsystems i) = mset (combined_subsystems kb)"
    using reorder_permutes(2) [OF _ order(2,3)] sorts(3) assms order(1) by (auto simp: assemble_def)
  then show ?thesis
    by (auto simp: boxed_builtins_def)
qed


end
