(* ===== verification/Kernel_Snapshots.thy ===== *)
theory Kernel_Snapshots
  imports Kernel_Run
begin

text \<open>
  The public operations of \<open>Kernel\<close> (src/kernel/core.rs) in any order, and what a snapshot then shows: the
  subsystems in boot order under distinct names and ids, and time stamps that fit the lifecycle state.
\<close>

section \<open>Operations\<close>

definition Kernel_name :: "'e Kernel \<Rightarrow> string" where
  "Kernel_name k = ki_name (kn_inner k)"

definition Kernel_shutdown_grace :: "'e Kernel \<Rightarrow> duration" where
  "Kernel_shutdown_grace k = ki_shutdown_grace (kn_inner k)"

text \<open>
  \<open>shutdown_token\<close> hands out the token of the coordinator; these are the two things a consumer does with it.
\<close>

definition Kernel_shutdown_token_signal :: "'e Kernel \<Rightarrow> 'e Kernel" where
  "Kernel_shutdown_token_signal = on_inner (\<lambda>i. i\<lparr>ki_coordinator := (ki_coordinator i)\<lparr>co_cancelled :=
     ShutdownToken_signal ShutdownToken_new (co_cancelled (ki_coordinator i))\<rparr>\<rparr>)"

definition Kernel_shutdown_token_is_signalled :: "'e Kernel \<Rightarrow> bool" where
  "Kernel_shutdown_token_is_signalled k =
     ShutdownToken_is_signalled ShutdownToken_new (co_cancelled (ki_coordinator (kn_inner k)))"

text \<open>A call of a public operation; \<open>others\<close> is what subsystems and consumers do through a context.\<close>

inductive kernel_call :: "'e environment \<Rightarrow> 'e Kernel \<Rightarrow> 'e Kernel \<Rightarrow> bool" for env where
  boots: "Kernel_boot env k = (r, k') \<Longrightarrow> kernel_call env k k'"
| runs: "kernel_run env k r k' \<Longrightarrow> kernel_call env k k'"
| asks_to_stop: "kernel_call env k (Kernel_shutdown k)"
| signals_token: "kernel_call env k (Kernel_shutdown_token_signal k)"
| registers_hook: "kernel_call env k (Kernel_register_shutdown_hook h k)"
| installs_handler: "kernel_call env k (Kernel_install_signal_handler k)"
| others: "beside (kn_inner k) i \<Longrightarrow> kernel_call env k (k\<lparr>kn_inner := i\<rparr>)"

section \<open>Consistency\<close>

abbreviation booted :: "'e Kernel \<Rightarrow> string set" where
  "booted k \<equiv> dom (bk_booted_at (kn_book k))"

abbreviation loaded :: "'e Kernel \<Rightarrow> string set" where
  "loaded k \<equiv> dom (bk_loaded_at (kn_book k))"

abbreviation names_of :: "'e Kernel \<Rightarrow> string list" where
  "names_of k \<equiv> map ss_name (kernel_subsystems k)"

text \<open>The time stamps a kernel with these subsystems may carry in each state.\<close>

fun stamps_fit :: "string set \<Rightarrow> string set \<Rightarrow> string set \<Rightarrow> KernelState \<Rightarrow> bool" where
  "stamps_fit names b l Created \<longleftrightarrow> b = {} \<and> l = {}"
| "stamps_fit names b l Booting \<longleftrightarrow> b \<subseteq> names \<and> l = {}"
| "stamps_fit names b l Loading \<longleftrightarrow> b = names \<and> l \<subseteq> names"
| "stamps_fit names b l Failed \<longleftrightarrow> b \<subseteq> names \<and> l \<subseteq> b"
| "stamps_fit names b l _ \<longleftrightarrow> b = names \<and> l = names"

definition kernel_consistent :: "string list \<Rightarrow> 'e Kernel \<Rightarrow> bool" where
  "kernel_consistent names k \<longleftrightarrow> distinct names \<and> names_of k = names \<and>
     bk_id (kn_book k) = assign_ids (kernel_subsystems k) IdGenerator_new (\<lambda>_. None) \<and>
     stamps_fit (set names) (booted k) (loaded k) (kernel_state k)"

lemma stamps_nested: "stamps_fit N b l s \<Longrightarrow> b \<subseteq> N \<and> l \<subseteq> b"
  by (cases s) auto

lemma consistent_transition:
  assumes "kernel_consistent names k"
    and "t = Loading \<Longrightarrow> booted k = set names" and "t = Running \<Longrightarrow> loaded k = set names"
  shows "kernel_consistent names (snd (kernel_transition env t k))"
proof (cases "is_legal (kernel_state k) t")
  case True
  have "stamps_fit (set names) (booted k) (loaded k) t"
    using assms True unfolding kernel_consistent_def is_legal_iff_edge
    by (cases "kernel_state k"; cases t) (auto simp: legal_edge_to)
  then show ?thesis
    using assms(1) transition_ok(2) [OF True, of env] by (simp add: kernel_consistent_def)
next
  case False
  then show ?thesis
    using assms(1) transition_refused [OF False, of env] by simp
qed

text \<open>A change that touches neither the bookkeeping nor the lifecycle nor the subsystems.\<close>

lemma consistent_same:
  "kernel_consistent names k \<Longrightarrow> kernel_state k' = kernel_state k \<Longrightarrow> kernel_subsystems k' = kernel_subsystems k \<Longrightarrow>
   kn_book k' = kn_book k \<Longrightarrow> kernel_consistent names k'"
  by (simp add: kernel_consistent_def)

lemma ids_of_loops:
  "bk_id (kn_book (snd (boot_loop env subs k))) = bk_id (kn_book k)"
  "bk_id (kn_book (snd (load_loop env subs k))) = bk_id (kn_book k)"
  by (induction subs arbitrary: k) (auto simp: Let_def split: sum.split)

lemma failed_prefix: "set (before_failure f subs) \<subseteq> set subs"
  by (auto simp: before_failure_def dest: set_takeWhileD)

lemma consistent_boot_phase:
  assumes "context_only env" and "kernel_consistent names k" and "kernel_state k = Booting"
    and "run_boot_phase env k = (r, k')"
  shows "kernel_consistent names k'" and "kernel_state k' = Booting" and "r = Inr () \<Longrightarrow> booted k' = set names"
proof -
  let ?subs = "kernel_subsystems k"
  note loop = boot_loop_calls [OF assms(1), of ?subs k]
  have k': "k' = snd (boot_loop env ?subs k)" and r: "r = fst (boot_loop env ?subs k)"
    using assms(4) by (simp_all add: run_boot_phase_def)
  have ctx: "kernel_state k' = kernel_state k" "kernel_subsystems k' = kernel_subsystems k"
    using loop context_kernel [of k k'] by (simp_all add: k')
  have b: "booted k' = booted k \<union> ss_name ` set (before_failure boot_result ?subs)"
    using loop unfolding k' by blast
  have l: "loaded k' = loaded k"
    using loop by (simp add: k')
  have fit: "distinct names" "names_of k = names" "booted k \<subseteq> set names" "loaded k = {}"
    using assms(2,3) by (simp_all add: kernel_consistent_def)
  then have "booted k' \<subseteq> set names"
    using b failed_prefix [of boot_result ?subs] by auto
  then show "kernel_consistent names k'"
    using assms(2,3) ctx l fit ids_of_loops(1) [of env ?subs k] by (simp add: kernel_consistent_def k')
  show "kernel_state k' = Booting"
    using ctx assms(3) by simp
  show "booted k' = set names" if "r = Inr ()"
  proof -
    have "before_failure boot_result ?subs = ?subs"
      using that loop unfolding r by (intro before_failure_ok) (auto split: option.splits)
    then show ?thesis
      using b fit by auto
  qed
qed

lemma consistent_load_phase:
  assumes "context_only env" and "kernel_consistent names k" and "kernel_state k = Loading"
    and "run_load_phase env k = (r, k')"
  shows "kernel_consistent names k'" and "kernel_state k' = Loading" and "r = Inr () \<Longrightarrow> loaded k' = set names"
proof -
  let ?subs = "kernel_subsystems k"
  note loop = load_loop_calls [OF assms(1), of ?subs k]
  have k': "k' = snd (load_loop env ?subs k)" and r: "r = fst (load_loop env ?subs k)"
    using assms(4) by (simp_all add: run_load_phase_def)
  have ctx: "kernel_state k' = kernel_state k" "kernel_subsystems k' = kernel_subsystems k"
    using loop context_kernel [of k k'] by (simp_all add: k')
  have l: "loaded k' = loaded k \<union> ss_name ` set (before_failure load_result ?subs)"
    using loop unfolding k' by blast
  have b: "booted k' = booted k"
    using loop by (simp add: k')
  have fit: "distinct names" "names_of k = names" "booted k = set names" "loaded k \<subseteq> set names"
    using assms(2,3) by (simp_all add: kernel_consistent_def)
  then have "loaded k' \<subseteq> set names"
    using l failed_prefix [of load_result ?subs] by auto
  then show "kernel_consistent names k'"
    using assms(2,3) ctx b fit ids_of_loops(2) [of env ?subs k] by (simp add: kernel_consistent_def k')
  show "kernel_state k' = Loading"
    using ctx assms(3) by simp
  show "loaded k' = set names" if "r = Inr ()"
  proof -
    have "before_failure load_result ?subs = ?subs"
      using that loop unfolding r by (intro before_failure_ok) (auto split: option.splits)
    then show ?thesis
      using l fit by auto
  qed
qed

lemma consistent_rollback:
  assumes "context_only env" and "kernel_consistent names k"
  shows "kernel_consistent names (run_shutdown_phase_to_loaded env k)"
  using fold_shutdown_calls [OF assms(1)] context_kernel(1,2)
  unfolding run_shutdown_phase_to_loaded_def by (intro consistent_same [OF assms(2)]) blast+

lemma consistent_shutdown_phase:
  assumes "context_only env" and "kernel_consistent names k"
  shows "kernel_consistent names (snd (run_shutdown_phase env k))"
proof -
  have "snd (run_shutdown_phase env k) = snd (shutdown_loop env (rev (kernel_subsystems k)) None k)"
    by (simp add: run_shutdown_phase_def case_prod_beta)
  then show ?thesis
    using shutdown_loop_calls [OF assms(1)] context_kernel(1,2) by (metis consistent_same [OF assms(2)])
qed

section \<open>Every operation keeps consistency\<close>

lemma transition_accepted: "kernel_transition env t k = (Inr u, k') \<Longrightarrow> kernel_state k' = t"
  using transition_ok(2) [of k t env] transition_refused [of k t env]
  by (cases "is_legal (kernel_state k) t") auto

lemma consistent_boot:
  assumes env: "context_only env" and k: "kernel_consistent names k" and boot: "Kernel_boot env k = (r, k')"
  shows "kernel_consistent names k'"
proof -
  note move = consistent_transition [where env = env]
  obtain r1 k1 where t1: "kernel_transition env Booting k = (r1, k1)"
    by fastforce
  obtain rb k2 where b: "run_boot_phase env k1 = (rb, k2)"
    by fastforce
  obtain r3 k3 where t3: "kernel_transition env Loading k2 = (r3, k3)"
    by fastforce
  obtain rl k4 where l: "run_load_phase env k3 = (rl, k4)"
    by fastforce
  obtain r5 k5 where t5: "kernel_transition env Running k4 = (r5, k5)"
    by fastforce
  have k1: "kernel_consistent names k1"
    using move [OF k, of Booting] t1 by simp
  show ?thesis
  proof (cases r1)
    case (Inl e)
    then show ?thesis
      using boot k1 t1 by (simp add: Kernel_boot_def)
  next
    case r1: (Inr u)
    then have "kernel_state k1 = Booting"
      using t1 transition_accepted by blast
    note k2 = consistent_boot_phase [OF env k1 this b]
    show ?thesis
    proof (cases rb)
      case (Inl e)
      then show ?thesis
        using boot k2(1) t1 r1 b move [OF k2(1), of Failed] by (simp add: Kernel_boot_def)
    next
      case rb: (Inr u)
      have k3: "kernel_consistent names k3"
        using move [OF k2(1), of Loading] k2(3) rb t3 by simp
      show ?thesis
      proof (cases r3)
        case (Inl e)
        then show ?thesis
          using boot k3 t1 r1 b rb t3 by (simp add: Kernel_boot_def)
      next
        case r3: (Inr u)
        then have "kernel_state k3 = Loading"
          using t3 transition_accepted by blast
        note k4 = consistent_load_phase [OF env k3 this l]
        show ?thesis
        proof (cases rl)
          case (Inl e)
          then show ?thesis
            using boot t1 r1 b rb t3 r3 l move [OF consistent_rollback [OF env k4(1)], of Failed]
            by (simp add: Kernel_boot_def)
        next
          case rl: (Inr u)
          have "kernel_consistent names k5"
            using move [OF k4(1), of Running] k4(3) rl t5 by simp
          then show ?thesis
            using boot t1 r1 b rb t3 r3 l rl t5 by (auto simp: Kernel_boot_def split: sum.splits)
        qed
      qed
    qed
  qed
qed

lemma coordinator_keeps:
  "run_coordinator env k = (rep, k') \<Longrightarrow>
   kernel_state k' = kernel_state k \<and> kernel_subsystems k' = kernel_subsystems k \<and> kn_book k' = kn_book k"
  by (auto simp: run_coordinator_def on_inner_def case_prod_beta kernel_state_def)

lemma beside_keeps:
  assumes "beside (kn_inner k) i"
  shows "kernel_state (k\<lparr>kn_inner := i\<rparr>) = kernel_state k" "ki_subsystems i = kernel_subsystems k"
  using beside_kernel [of k "k\<lparr>kn_inner := i\<rparr>"] assms by simp_all

lemma exec_phase_keeps:
  assumes "exec_phase env k r k'"
  shows "kernel_state k' = kernel_state k \<and> kernel_subsystems k' = kernel_subsystems k \<and> kn_book k' = kn_book k"
  using assms
proof cases
  case (workers_run s i rep k1)
  have "beside (kn_inner (absorb_supervisor s k)) i"
    using workers_run by simp
  from beside_kernel(1,2) [of "absorb_supervisor s k" "absorb_supervisor s k\<lparr>kn_inner := i\<rparr>"] this
  show ?thesis
    using workers_run(2) coordinator_keeps [OF workers_run(7)]
    by (simp add: kernel_state_def absorb_supervisor_def Kernel_shutdown_def on_inner_def)
next
  case (workers_panic s i rep)
  have "beside (kn_inner (absorb_supervisor s k)) i"
    using workers_panic by simp
  from beside_kernel(1,2) [of "absorb_supervisor s k" "absorb_supervisor s k\<lparr>kn_inner := i\<rparr>"] this
  show ?thesis
    using workers_panic coordinator_keeps [of env "k\<lparr>kn_inner := i\<rparr>" None k']
    by (simp add: kernel_state_def absorb_supervisor_def on_inner_def)
qed (auto dest: coordinator_keeps simp: beside_keeps)

lemma consistent_stop:
  assumes "context_only env" and "kernel_consistent names k" and "stop_kernel env k = (r, k')"
  shows "kernel_consistent names k'"
proof -
  obtain r1 k1 where t1: "kernel_transition env Stopping k = (r1, k1)"
    by fastforce
  obtain rs k2 where s: "run_shutdown_phase env k1 = (rs, k2)"
    by fastforce
  obtain r3 k3 where t3: "kernel_transition env Stopped k2 = (r3, k3)"
    by fastforce
  have k1: "kernel_consistent names k1"
    using consistent_transition [OF assms(2), of Stopping env] t1 by simp
  then have "kernel_consistent names k2"
    using consistent_shutdown_phase [OF assms(1), of names k1] s by simp
  then have "kernel_consistent names k3"
    using consistent_transition [of names k2 Stopped env] t3 by simp
  then show ?thesis
    using assms(3) k1 t1 s t3 by (auto simp: stop_kernel_def split: sum.splits)
qed

lemma consistent_run:
  assumes env: "context_only env" and k: "kernel_consistent names k" and run: "kernel_run env k r k'"
  shows "kernel_consistent names k'"
proof -
  have exec: "kernel_consistent names k2" if "Kernel_boot env k = (rb, k1)" "exec_phase env k1 r' k2" for rb k1 r' k2
    using exec_phase_keeps [OF that(2)] by (intro consistent_same [OF consistent_boot [OF env k that(1)]]) simp_all
  show ?thesis
    using run
  proof cases
    case (boot_failed e)
    then show ?thesis
      using consistent_boot [OF env k] by blast
  next
    case (finished k1 k2 r')
    then show ?thesis
      using exec consistent_stop [OF env] by blast
  qed (use exec in blast)+
qed

lemma consistent_call:
  assumes "context_only env" and "kernel_consistent names k" and "kernel_call env k k'"
  shows "kernel_consistent names k'"
  using assms(3)
proof cases
  case (boots r)
  then show ?thesis
    using consistent_boot [OF assms(1,2)] by blast
next
  case (runs r)
  then show ?thesis
    using consistent_run [OF assms(1,2)] by blast
next
  case (others i)
  then show ?thesis
    using beside_keeps [of k i] by (intro consistent_same [OF assms(2)]) simp_all
qed (use assms(2) in \<open>simp_all add: kernel_consistent_def on_inner_def kernel_state_def Kernel_shutdown_def
       Kernel_shutdown_token_signal_def Kernel_register_shutdown_hook_def Kernel_install_signal_handler_def\<close>)

definition built_kernel :: "'e environment \<Rightarrow> string list \<Rightarrow> 'e Kernel \<Rightarrow> bool" where
  "built_kernel env names k \<longleftrightarrow> context_only env \<and>
     (\<exists>now kb. Kernel_build now kb = Some (Inr k) \<and> names = names_of k)"

definition kernel_reached :: "'e environment \<Rightarrow> string list \<Rightarrow> 'e Kernel \<Rightarrow> bool" where
  "kernel_reached env names k \<longleftrightarrow> context_only env \<and> kernel_consistent names k"

interpretation kernel_calls: invariant_system "built_kernel env names" "kernel_call env" "kernel_reached env names" for env names
proof unfold_locales
  show "kernel_reached env names k" if built: "built_kernel env names k" for k
  proof -
    obtain now kb where k: "Kernel_build now kb = Some (Inr k)" "names = names_of k" "context_only env"
      using built by (auto simp: built_kernel_def)
    obtain i where "k = Kernel_from_inner i"
      using k(1) by (rule built_inner)
    then have "bk_id (kn_book k) = assign_ids (kernel_subsystems k) IdGenerator_new (\<lambda>_. None)"
      by (simp add: Kernel_from_inner_def)
    then show ?thesis
      using built_fresh(1) [OF k(1)] k(2,3) by (simp add: kernel_reached_def kernel_consistent_def fresh_kernel_def)
  qed
qed (auto simp: kernel_reached_def intro: consistent_call)

section \<open>Identifiers\<close>

lemma assign_ids_keeps: "n \<notin> ss_name ` set subs \<Longrightarrow> assign_ids subs g ids n = ids n"
  by (induction subs arbitrary: g ids) (auto simp: next_subsystem_id_def id_fetch_add_def)

lemma assign_ids_in_order:
  "distinct (map ss_name subs) \<Longrightarrow>
   map (assign_ids subs g ids) (map ss_name subs) = map (\<lambda>v. Some (SubsystemId v)) (fst (take_ids (length subs) g))"
proof (induction subs arbitrary: g ids)
  case (Cons s subs)
  let ?g = "g\<lparr>ig_next := ig_next g + 1\<rparr>" and ?ids = "ids(ss_name s \<mapsto> SubsystemId (ig_next g))"
  have "assign_ids (s # subs) g ids = assign_ids subs ?g ?ids"
    by (simp add: next_subsystem_id_def id_fetch_add_def)
  then show ?case
    using Cons.IH [of ?g ?ids] Cons.prems by (simp add: assign_ids_keeps id_fetch_add_def case_prod_beta fun_upd_same del: fun_upd_apply)
qed simp

lemma snapshot_ids:
  assumes "kernel_consistent names k"
  shows "map ss_id (subsystem_snapshots k) = map SubsystemId (fst (take_ids (length names) IdGenerator_new))"
proof -
  let ?ids = "assign_ids (kernel_subsystems k) IdGenerator_new (\<lambda>_. None)"
  have names: "names = map ss_name (kernel_subsystems k)" "distinct (map ss_name (kernel_subsystems k))"
    using assms by (auto simp: kernel_consistent_def)
  have "map (\<lambda>n. case ?ids n of Some i \<Rightarrow> i | None \<Rightarrow> SubsystemId 0) names =
      map (case_option (SubsystemId 0) (\<lambda>i. i)) (map ?ids names)"
    by simp
  also have "\<dots> = map SubsystemId (fst (take_ids (length names) IdGenerator_new))"
    unfolding names(1) assign_ids_in_order [OF names(2)] by simp
  finally show ?thesis
    using assms by (simp add: subsystem_snapshots_def kernel_consistent_def names(1) comp_def)
qed

section \<open>Properties\<close>


text \<open>The default kernel, built and booted, without workers.\<close>

lemma booted_default:
  obtains k k1 :: "nat Kernel" where "Kernel_build 0 (KernelBuilder_new ''svc'') = Some (Inr k)"
    "Kernel_boot demo_environment k = (Inr (), k1)" "kernel_state k1 = Running" "kernel_subsystems k1 = kernel_subsystems k"
    "ki_workers (kn_inner k1) = []" "\<not> supervised k1"
proof -
  obtain k :: "nat Kernel" where k: "Kernel_build 0 (KernelBuilder_new ''svc'') = Some (Inr k)"
    "\<And>s. s \<in> set (kernel_subsystems k) \<Longrightarrow> boot_result s = Inr () \<and> load_result s = Inr () \<and> shutdown_result s = Inr ()"
    using default_kernel_builds by blast
  have "kb_workers (KernelBuilder_new ''svc'' :: nat KernelBuilder) = []"
    by (simp add: KernelBuilder_new_def)
  moreover have "first_error boot_result (kernel_subsystems k) = None" "first_error load_result (kernel_subsystems k) = None"
    using k(2) by (simp_all add: no_first_error)
  ultimately show ?thesis
    using signalled_run [OF k(1) demo_context_only] k(1) that by metis
qed


lemma token_signal_fields:
  "kernel_signalled (Kernel_shutdown_token_signal k) = kernel_signalled k"
  "ki_workers (kn_inner (Kernel_shutdown_token_signal k)) = ki_workers (kn_inner k)"
  "supervised (Kernel_shutdown_token_signal k) = supervised k"
  "Kernel_shutdown_token_is_signalled (Kernel_shutdown_token_signal k)"
  by (simp_all add: Kernel_shutdown_token_signal_def Kernel_shutdown_token_is_signalled_def on_inner_def
      kernel_signalled_def supervised_def token_latch.raise_raises)



end
