(* ===== verification/Kernel_Liveness.thy ===== *)
theory Kernel_Liveness
  imports Kernel_Snapshots Supervisor_Properties
begin

text \<open>
  From the shutdown signal to a stopped kernel. The supervisor, its watcher, the shutdown coordinator and the kernel are
  put together: wherever the supervisor stands when the signal is raised, it can be brought to its end, and
  \<open>run\<close> then stops the kernel.
\<close>

section \<open>The list of handles is fixed\<close>

lemma handles_simple [simp]:
  "sv_handles (put_worker w r s) = sv_handles s" "sv_handles (on_handle f w s) = sv_handles s"
  "sv_handles (log_fx fx s) = sv_handles s"
  by (simp_all add: put_worker_def on_handle_def log_fx_def split: option.split)

lemma handles_spawn_one [simp]: "sv_handles (spawn_one rd w s) = sv_handles s"
  by (simp add: spawn_one_def Let_def split: option.split)

lemma handles_fold: "(\<And>x s. sv_handles (f x s) = sv_handles s) \<Longrightarrow> sv_handles (fold f xs s) = sv_handles s"
  by (induction xs arbitrary: s) simp_all

lemma handles_start_run [simp]: "sv_handles (start_run rd s) = sv_handles s"
  by (simp add: start_run_def handles_fold)

lemma handles_drained: "sv_handles (snd (fold join_drained joined (c, s))) = sv_handles s"
  by (induction joined arbitrary: c s) (auto simp: join_drained_def case_prod_beta)

lemma handles_shutdown_all [simp]: "sv_handles (snd (shutdown_all rd joined s)) = sv_handles s"
  by (simp add: shutdown_all_def Let_def case_prod_beta handles_fold handles_drained stop_worker_def finish_worker_def)

section \<open>The supervisor can finish\<close>

lemma signalled_loop_finishes:
  assumes inv: "watched_inv s" and stage: "sv_stage s = Looping" and sig: "ShutdownHandle_is_signalled (sv_shutdown s)"
  obtains s' where "watched_step\<^sup>*\<^sup>* s s'" "sv_stage s' = Finished_run"
proof -
  let ?c = "s\<lparr>sv_cancelled := True\<rparr>" and ?joined = "map (\<lambda>(tid, w). (tid, JoinCancelled)) (sv_tasks s)"
  fix rd :: readings
  let ?e = "snd (shutdown_all rd ?joined ?c)\<lparr>sv_stage := Finished_run\<rparr>"
  have "watched_step s ?c"
    using sig by (simp add: watched_step_def sup_step.cancel)
  moreover have joined: "keys ?joined = keys (sv_tasks s)"
    by (simp add: case_prod_beta)
  have "distinct (keys ?joined)" "set (keys ?joined) = set (keys (sv_tasks ?c))"
    unfolding joined using inv by (simp_all add: watched_inv_def sup_inv_def)
  then have "sup_step ?c ?e"
    using stage by (intro sup_step.shut_down) simp_all
  then have "watched_step ?c ?e"
    by (simp add: watched_step_def)
  ultimately show ?thesis
    by (intro that [of ?e]) (auto intro: converse_rtranclp_into_rtranclp)
qed

lemma signalled_supervisor_finishes:
  assumes inv: "watched_inv s" and sig: "ShutdownHandle_is_signalled (sv_shutdown s)"
  obtains s' where "watched_step\<^sup>*\<^sup>* s s'" "sv_stage s' = Finished_run"
proof (cases "sv_stage s")
  case Registering
  fix rd :: readings
  have step: "sup_step s (start_run rd s)"
    using Registering by (rule sup_step.start)
  then have "evolves s (start_run rd s)" "sup_inv (start_run rd s)"
    using sup_inv_step inv by (auto simp: watched_inv_def)
  then have "ShutdownHandle_is_signalled (sv_shutdown (start_run rd s))"
    using sig by (simp add: evolves_def)
  moreover from this step have "watched_step s (start_run rd s)"
    by (simp add: watched_step_def)
  ultimately show ?thesis
    using signalled_loop_finishes [of "start_run rd s"] watched.inv_step [OF inv] that
    by (metis converse_rtranclp_into_rtranclp stage_start_run)
next
  case Looping
  then show ?thesis
    using signalled_loop_finishes [OF inv _ sig] that by blast
next
  case Finished_run
  then show ?thesis
    using that by blast
qed

section \<open>The kernel can stop\<close>

lemma supervisor_inv:
  assumes "length (ki_workers (kn_inner k)) < 2 ^ 64" and "watched_step\<^sup>*\<^sup>* (supervisor_at_start k) s"
  shows "watched_inv s"
  using assms by (intro watched.inv_reachable [of "ki_workers (kn_inner k)"])
    (auto simp: watched_start_def supervisor_at_start_def)

lemma finished_supervisor_stops:
  assumes "Kernel_boot env k = (Inr (), k1)" and "supervised k1" and env: "context_only env"
    and run: "watched_step\<^sup>*\<^sup>* (supervisor_at_start k1) s" "sv_stage s = Finished_run"
    and running: "kernel_state k1 = Running"
    and hooks: "fst (run_coordinator env k1) \<noteq> None"
  shows "\<exists>r k'. kernel_run env k (Returned r) k' \<and> kernel_state k' = Stopped"
proof -
  let ?i = "kn_inner (absorb_supervisor s k1)"
  have "fst (run_coordinator env (k1\<lparr>kn_inner := ?i\<rparr>)) = fst (run_coordinator env k1)"
    by (simp add: run_coordinator_def case_prod_beta absorb_supervisor_def on_inner_def)
  then obtain rep k2 where co: "run_coordinator env (k1\<lparr>kn_inner := ?i\<rparr>) = (Some rep, k2)"
    using hooks by (cases "run_coordinator env (k1\<lparr>kn_inner := ?i\<rparr>)") auto
  have "beside ?i ?i"
    by (simp add: beside_def)
  then have exec: "exec_phase env k1 (Returned (Inr ())) (Kernel_shutdown k2)"
    using co assms(2) run by (intro exec_phase.workers_run)
  have "kernel_state (k1\<lparr>kn_inner := ?i\<rparr>) = Running"
    using running by (simp add: kernel_state_def absorb_supervisor_def on_inner_def)
  then have "kernel_state (Kernel_shutdown k2) = Running"
    using coordinator_fields(1) [OF co] by simp
  then obtain r k' where "stop_kernel env (Kernel_shutdown k2) = (r, k')" "kernel_state k' = Stopped"
    using stop_leaves [OF env] by metis
  then show ?thesis
    using kernel_run.finished [OF assms(1) exec] by blast
qed

lemma signalled_kernel_stops:
  assumes "Kernel_boot env k = (Inr (), k1)" and "supervised k1" and "context_only env"
    and "kernel_state k1 = Running" and "fst (run_coordinator env k1) \<noteq> None"
    and len: "length (ki_workers (kn_inner k1)) < 2 ^ 64"
    and steps: "watched_step\<^sup>*\<^sup>* (supervisor_at_start k1) s" and sig: "ShutdownHandle_is_signalled (sv_shutdown s)"
  shows "\<exists>s' r k'. watched_step\<^sup>*\<^sup>* s s' \<and> sv_stage s' = Finished_run \<and>
    kernel_run env k (Returned r) k' \<and> kernel_state k' = Stopped"
proof -
  obtain s' where s': "watched_step\<^sup>*\<^sup>* s s'" "sv_stage s' = Finished_run"
    using signalled_supervisor_finishes [OF supervisor_inv [OF len steps] sig] by blast
  then show ?thesis
    using finished_supervisor_stops [OF assms(1-3) rtranclp_trans [OF steps s'(1)] s'(2) assms(4,5)] by blast
qed

lemma supervised_kernel_stops:
  assumes "Kernel_boot env k = (Inr (), k1)" and "supervised k1" and "context_only env" and "kernel_state k1 = Running"
    and "fst (run_coordinator env k1) \<noteq> None" and "length (ki_workers (kn_inner k1)) < 2 ^ 64"
  shows "\<exists>r k'. kernel_run env k (Returned r) k' \<and> kernel_state k' = Stopped"
proof -
  let ?s = "supervisor_at_start k1"
  let ?t = "?s\<lparr>sv_shutdown := ShutdownHandle_signal (sv_shutdown ?s)\<rparr>"
  have "watched_step ?s ?t"
    by (simp add: watched_step_def sup_step.signal_shutdown)
  moreover have "ShutdownHandle_is_signalled (sv_shutdown ?t)"
    by (simp add: ShutdownHandle_signal_def ShutdownHandle_is_signalled_def)
  ultimately show ?thesis
    using signalled_kernel_stops [OF assms, of ?t] by blast
qed

section \<open>The signal handler\<close>

text \<open>
  What the task that \<open>spawn_signal_handler\<close> spawns does to the shutdown signal, given which registrations with the operating
  system succeeded and which signals have arrived since. The results of both waits are discarded, so a wait that fails counts
  as one that is over.
\<close>

datatype os_signal = Terminate | Interrupt

definition signal_handler_fires :: "bool \<Rightarrow> bool \<Rightarrow> bool \<Rightarrow> os_signal list \<Rightarrow> bool" where
  "signal_handler_fires unix sigterm_registered ctrl_c_registered arrived \<longleftrightarrow>
     (if unix then sigterm_registered \<and> (Terminate \<in> set arrived \<or> \<not> ctrl_c_registered \<or> Interrupt \<in> set arrived)
      else \<not> ctrl_c_registered \<or> Interrupt \<in> set arrived)"

definition spawn_signal_handler :: "bool \<Rightarrow> bool \<Rightarrow> bool \<Rightarrow> os_signal list \<Rightarrow> ShutdownInner \<Rightarrow> ShutdownInner" where
  "spawn_signal_handler unix sigterm_registered ctrl_c_registered arrived i =
     (if signal_handler_fires unix sigterm_registered ctrl_c_registered arrived then ShutdownHandle_signal i else i)"

text \<open>
  A kernel that asked for the handler and receives a signal can stop, unless SIGTERM could not be registered: then Ctrl+C is not
  listened to either. When Ctrl+C cannot be registered the kernel stops without any signal.
\<close>

theorem handled_signal_stops_the_kernel:
  assumes "Kernel_boot env k = (Inr (), k1)" and "ki_signal_handler_requested (kn_inner k1)" and "context_only env"
    and "kernel_state k1 = Running" and "fst (run_coordinator env k1) \<noteq> None" and "length (ki_workers (kn_inner k1)) < 2 ^ 64"
    and "watched_step\<^sup>*\<^sup>* (supervisor_at_start k1) s" and "signal_handler_fires unix sigterm ctrl_c arrived"
  defines "t \<equiv> s\<lparr>sv_shutdown := spawn_signal_handler unix sigterm ctrl_c arrived (sv_shutdown s)\<rparr>"
  shows "watched_step s t \<and>
    (\<exists>s' r k'. watched_step\<^sup>*\<^sup>* t s' \<and> sv_stage s' = Finished_run \<and> kernel_run env k (Returned r) k' \<and> kernel_state k' = Stopped)"
proof -
  have step: "watched_step s t"
    using assms(8) by (simp add: t_def spawn_signal_handler_def watched_step_def sup_step.signal_shutdown)
  have "ShutdownHandle_is_signalled (sv_shutdown t)"
    using assms(8) by (simp add: t_def spawn_signal_handler_def ShutdownHandle_signal_def ShutdownHandle_is_signalled_def)
  then show ?thesis
    using signalled_kernel_stops [OF assms(1) _ assms(3-6) rtranclp.rtrancl_into_rtrancl [OF assms(7) step]] assms(2) step
    by (simp add: supervised_def)
qed

theorem signal_handler_failures:
  "signal_handler_fires True False ctrl_c arrived \<longleftrightarrow> False"
  "signal_handler_fires True True False [] \<and> signal_handler_fires False sigterm False []"
  "signal_handler_fires unix True True arrived \<longleftrightarrow> Interrupt \<in> set arrived \<or> unix \<and> Terminate \<in> set arrived"
  by (auto simp: signal_handler_fires_def)

section \<open>A critical worker that fails\<close>

lemma handles_criticality [simp]: "sv_handles (apply_criticality now name c s) = sv_handles s"
  by (cases c) (simp_all add: case_prod_beta Let_def)

lemma handles_advance [simp]: "sv_handles (snd (advance_circuit rd w f s)) = sv_handles s"
  by (simp add: advance_circuit_def case_prod_beta Let_def split: option.split)

lemma handles_restart_or_stop [simp]: "sv_handles (restart_or_stop rd w f restart delay n name c s) = sv_handles s"
  by (simp add: restart_or_stop_def Let_def)

lemma handles_handle_outcome [simp]: "sv_handles (handle_outcome rd w out s) = sv_handles s"
  by (simp add: handle_outcome_def maybe_restart_def case_prod_beta Let_def split: option.split)

lemma critical_failure_signals:
  assumes inv: "watched_inv s" and stage: "sv_stage s = Looping" and nc: "\<not> sv_cancelled s"
    and task: "(tid, w) \<in> set (sv_tasks s)" and r: "get_worker w s = Some r"
    and crit: "ws_criticality (rw_spec r) = CriticalWorker" and fails: "out \<noteq> Completed" "\<not> restarts rd w True r"
  shows "watched_step s (join_task rd tid w (Some out) s) \<and>
    ShutdownHandle_is_signalled (sv_shutdown (join_task rd tid w (Some out) s))"
proof -
  have step: "sup_step s (join_task rd tid w (Some out) s)"
    using stage nc task by (rule sup_step.joined)
  have "get_worker w (without_task tid s) = Some r"
    using r by simp
  from outcome_stopped [OF this, of rd out] show ?thesis
    using step crit fails nc
    by (simp add: watched_step_def join_task_def ShutdownHandle_signal_def ShutdownHandle_is_signalled_def)
qed


section \<open>A run with a critical worker\<close>

lemma worker_builds:
  fixes k :: "'e Kernel"
  assumes "Kernel_build 0 (KernelBuilder_new ''svc'') = Some (Inr k)"
  obtains k' :: "'e Kernel" where "Kernel_build 0 (with_worker spec (KernelBuilder_new ''svc'')) = Some (Inr k')"
    "kernel_subsystems k' = kernel_subsystems k" "ki_health (kn_inner k') = ki_health (kn_inner k)"
proof -
  have eq: "build 0 (with_worker spec kb) =
      map_option (map_sum (\<lambda>e. e) (\<lambda>i. i\<lparr>ki_workers := kb_workers kb @ [(spec, SyncRunner)]\<rparr>)) (build 0 kb)"
    for kb :: "'e KernelBuilder"
    by (simp add: build_def with_worker_def Let_def assemble_def split: option.split sum.split)
  obtain i where "k = Kernel_from_inner i" "build 0 (KernelBuilder_new ''svc'') = Some (Inr i)"
    using assms by (rule built_inner)
  then show ?thesis
    by (intro that [of "Kernel_from_inner (i\<lparr>ki_workers := kb_workers (KernelBuilder_new ''svc'' :: 'e KernelBuilder) @ [(spec, SyncRunner)]\<rparr>)"])
      (simp_all add: Kernel_build_def eq)
qed

lemma start_one_worker:
  fixes h :: HealthRegistry and sh :: ShutdownInner and spec :: WorkerSpec
  defines "s \<equiv> start_run (demo_readings 1) (register_pending [(spec, SyncRunner)] (Supervisor_new h sh))"
  shows "watched_step (register_pending [(spec, SyncRunner)] (Supervisor_new h sh)) s"
    and "sv_tasks s = [(0, WorkerId 0)]" "sv_stage s = Looping" "\<not> sv_cancelled s"
    and "get_worker (WorkerId 0) s = Some
      \<lparr>rw_handle = handle_set_state WRunning (WorkerHandle_new (WorkerId 0) (ws_name spec) False),
       rw_spec = spec, rw_runner = SyncRunner, rw_last_heartbeat = 0, rw_attempts = 0,
       rw_circuit = map_option CircuitBreaker_new (ws_circuit spec)\<rparr>"
proof -
  let ?s = "register_pending [(spec, SyncRunner)] (Supervisor_new h sh)"
  have reg: "keys (sv_registered ?s) = [WorkerId 0]" "get_worker (WorkerId 0) ?s = Some
     \<lparr>rw_handle = WorkerHandle_new (WorkerId 0) (ws_name spec) False, rw_spec = spec,
      rw_runner = SyncRunner, rw_last_heartbeat = 0, rw_attempts = 0,
      rw_circuit = map_option CircuitBreaker_new (ws_circuit spec)\<rparr>"
    by (simp_all add: register_pending_def register_inner_def Supervisor_new_def next_worker_id_def id_fetch_add_def
        IdGenerator_new_def put_worker_def get_worker_def)
  have plain: "sv_tasks ?s = []" "sv_spawned ?s = 0" "\<not> sv_cancelled ?s" "sv_stage ?s = Registering"
    by (simp_all add: register_pending_def register_inner_def Supervisor_new_def Let_def case_prod_beta)
  show "sv_tasks s = [(0, WorkerId 0)]" "sv_stage s = Looping" "\<not> sv_cancelled s" "get_worker (WorkerId 0) s = Some
      \<lparr>rw_handle = handle_set_state WRunning (WorkerHandle_new (WorkerId 0) (ws_name spec) False),
       rw_spec = spec, rw_runner = SyncRunner, rw_last_heartbeat = 0, rw_attempts = 0,
       rw_circuit = map_option CircuitBreaker_new (ws_circuit spec)\<rparr>"
    using reg plain by (simp_all add: s_def start_run_def spawn_one_def Let_def demo_readings_def handle_set_state_def)
  then show "watched_step ?s s"
    using plain(4) by (simp add: watched_step_def s_def sup_step.start)
qed

lemma one_worker_kernel:
  fixes spec :: WorkerSpec
  obtains k k1 :: "'e Kernel" where "Kernel_build 0 (with_worker spec (KernelBuilder_new ''svc'')) = Some (Inr k)"
    "Kernel_boot demo_environment k = (Inr (), k1)" "kernel_state k1 = Running"
    "ki_workers (kn_inner k1) = [(spec, SyncRunner)]" "fst (run_coordinator demo_environment k1) \<noteq> None"
proof -
  let ?kb = "with_worker spec (KernelBuilder_new ''svc'') :: 'e KernelBuilder"
  obtain k0 :: "'e Kernel" where k0: "Kernel_build 0 (KernelBuilder_new ''svc'') = Some (Inr k0)"
    "\<And>s. s \<in> set (kernel_subsystems k0) \<Longrightarrow> boot_result s = Inr () \<and> load_result s = Inr () \<and> shutdown_result s = Inr ()"
    using default_kernel_builds by blast
  obtain k :: "'e Kernel" where k: "Kernel_build 0 ?kb = Some (Inr k)" "kernel_subsystems k = kernel_subsystems k0"
    using k0(1) by (rule worker_builds [where spec = spec])
  have ok: "first_error boot_result (kernel_subsystems k) = None" "first_error load_result (kernel_subsystems k) = None"
    using k0(2) by (simp_all add: k(2) no_first_error)
  have kb: "kb_workers ?kb = [(spec, SyncRunner)]" "kb_shutdown_grace ?kb = from_secs 10"
    by (simp_all add: with_worker_def KernelBuilder_new_def DEFAULT_SHUTDOWN_GRACE_def)
  obtain k1 where k1: "Kernel_boot demo_environment k = (Inr (), k1)" "kernel_state k1 = Running"
      "ki_workers (kn_inner k1) = [(spec, SyncRunner)]" "ki_coordinator (kn_inner k1) = ShutdownCoordinator_new (from_secs 10)"
    using boot_leaves [OF built_fresh(1) [OF k(1)] demo_context_only] built_fresh(2,5) [OF k(1)] ok kb
    unfolding boot_outcome_def by (auto split: option.splits)
  moreover have "fst (run_coordinator demo_environment k1) \<noteq> None"
    by (simp add: run_coordinator_def case_prod_beta k1(4) coordinator_shutdown_def ShutdownCoordinator_new_def
        demo_environment_def instant_plus_def Instant_checked_add_def from_secs_def instant_max_def nanos_per_sec_def Let_def)
  ultimately show ?thesis
    using k(1) that by blast
qed


end
