(* ===== verification/Shutdown_Sequence.thy ===== *)
theory Shutdown_Sequence
  imports Kernel_Liveness
begin

text \<open>
  The order in which a run announces itself (src/kernel/core.rs with src/shutdown/coordinator.rs and src/worker/supervisor.rs):
  what ends up in the log of events between the first transition and the last. What others emit meanwhile may fall anywhere
  in between, so the order is stated as a subsequence of the log.
\<close>

section \<open>Subsequences\<close>

lemma subseq_then: "subseq xs ys \<Longrightarrow> subseq (ys @ a) zs \<Longrightarrow> subseq (xs @ a) zs"
  by (meson list_emb_append_mono subseq_order.order_refl subseq_order.trans)

lemma subseq_drop_left: "subseq (xs @ ys) zs \<Longrightarrow> subseq ys zs"
  by (meson list_emb_append2 subseq_order.order_refl subseq_order.trans)

lemma subseq_first [simp]: "subseq (xs @ [a]) (xs @ a # ys)"
  using subseq_appended [of "xs @ [a]" ys] by simp

section \<open>What the kernel and its subsystems announce\<close>

abbreviation log_of :: "'e Kernel \<Rightarrow> effect list" where
  "log_of k \<equiv> ki_log (kn_inner k)"

definition announcing :: "'e Kernel \<Rightarrow> bool" where
  "announcing k \<longleftrightarrow> lc_events (ki_lifecycle (kn_inner k))"

definition moved :: "'e environment \<Rightarrow> KernelState \<Rightarrow> KernelState \<Rightarrow> effect" where
  "moved env s t = Emit (Lifecycle (Transition s t (en_transition_at env t)))"

text \<open>A call \<open>c\<close> of a subsystem emits at least \<open>f c\<close>.\<close>

definition emits :: "'e environment \<Rightarrow> (SubsystemCall \<Rightarrow> effect list) \<Rightarrow> bool" where
  "emits env f \<longleftrightarrow> (\<forall>c i. subseq (ki_log i @ f c) (ki_log (en_effect env c i)))"

definition coordinator_events :: "'e environment \<Rightarrow> effect list" where
  "coordinator_events env =
     (let clock = en_shutdown_clock env; report = empty_report (sc_started clock) (sc_completed clock)
      in [Emit (Lifecycle (ShutdownStarted (sc_started clock))),
          Emit (Lifecycle (ShutdownCompleted (ShutdownReport_duration report) 0 0 (sc_completed clock)))])"

lemma transition_log:
  assumes "is_legal (kernel_state k) t" and "announcing k"
  shows "subseq (log_of k @ [moved env (kernel_state k) t]) (log_of (snd (kernel_transition env t k)))"
    "announcing (snd (kernel_transition env t k))"
  using assms by (simp_all add: kernel_transition_def kernel_state_def on_inner_def announcing_def moved_def transition_effects_def)

lemma announcing_context: "through_context (kn_inner k) (kn_inner k') \<Longrightarrow> announcing k' = announcing k"
  by (simp add: through_context_def beside_def announcing_def)

lemma boot_loop_log:
  assumes "emits env f" and "boot_loop env subs k = (Inr (), k')"
  shows "subseq (log_of k @ concat (map f (boot_calls subs))) (log_of k')"
  using assms(2)
proof (induction subs arbitrary: k)
  case (Cons s subs)
  let ?c = "BootCall (ss_name s)"
  have step: "subseq (log_of k @ f ?c) (ki_log (en_effect env ?c (kn_inner k)))"
    using assms(1) by (simp add: emits_def)
  from Cons.prems have "boot_loop env subs (record_booted (ss_name s) (en_call_at env ?c) (call_subsystem env ?c k)) = (Inr (), k')"
    by (auto simp: Let_def split: sum.splits)
  from Cons.IH [OF this] show ?case
    using subseq_then [OF step] by (simp add: boot_calls_def)
qed (simp add: boot_calls_def)

lemma load_loop_log:
  assumes "emits env f" and "load_loop env subs k = (Inr (), k')"
  shows "subseq (log_of k @ concat (map f (load_calls subs))) (log_of k')"
  using assms(2)
proof (induction subs arbitrary: k)
  case (Cons s subs)
  let ?c = "LoadCall (ss_name s)"
  have step: "subseq (log_of k @ f ?c) (ki_log (en_effect env ?c (kn_inner k)))"
    using assms(1) by (simp add: emits_def)
  from Cons.prems have "load_loop env subs (record_loaded (ss_name s) (en_call_at env ?c) (call_subsystem env ?c k)) = (Inr (), k')"
    by (auto simp: Let_def split: sum.splits)
  from Cons.IH [OF this] show ?case
    using subseq_then [OF step] by (simp add: load_calls_def)
qed (simp add: load_calls_def)

lemma shutdown_loop_log:
  assumes "emits env f"
  shows "subseq (log_of k @ concat (map f (shutdown_calls subs))) (log_of (snd (shutdown_loop env subs fe k)))"
proof (induction subs arbitrary: fe k)
  case (Cons s subs)
  let ?c = "ShutdownCall (ss_name s)"
  have step: "subseq (log_of k @ f ?c) (log_of (call_subsystem env ?c k))"
    using assms by (simp add: emits_def)
  show ?case
    using subseq_then [OF step] Cons.IH [of "call_subsystem env ?c k"] by (simp add: shutdown_calls_def Let_def)
qed (simp add: shutdown_calls_def)

section \<open>Booting\<close>

definition boot_story :: "'e environment \<Rightarrow> (SubsystemCall \<Rightarrow> effect list) \<Rightarrow> string list \<Rightarrow> effect list" where
  "boot_story env f order =
     [moved env Created Booting] @ concat (map (f \<circ> BootCall) order) @
     [moved env Booting Loading] @ concat (map (f \<circ> LoadCall) order) @ [moved env Loading Running]"

lemma boot_log:
  assumes fresh: "fresh_kernel k" and env: "context_only env" and f: "emits env f" and ann: "announcing k"
    and boot: "Kernel_boot env k = (Inr (), k')"
  shows "subseq (log_of k @ boot_story env f (map ss_name (kernel_subsystems k))) (log_of k')" "announcing k'"
proof -
  let ?subs = "kernel_subsystems k"
  obtain k1 k2 k3 k4 where t1: "kernel_transition env Booting k = (Inr (), k1)"
    and b: "boot_loop env (kernel_subsystems k1) k1 = (Inr (), k2)" and t3: "kernel_transition env Loading k2 = (Inr (), k3)"
    and l: "load_loop env (kernel_subsystems k3) k3 = (Inr (), k4)" and t5: "kernel_transition env Running k4 = (Inr (), k')"
    using boot by (auto simp: Kernel_boot_def run_boot_phase_def run_load_phase_def split: prod.splits sum.splits)
  have legal: "is_legal Created Booting" "is_legal Booting Loading" "is_legal Loading Running"
    by (simp_all add: legal_moves)
  have k0: "kernel_state k = Created"
    using fresh by (simp add: fresh_kernel_def)
  have s1: "kernel_state k1 = Booting" "kernel_subsystems k1 = ?subs" "announcing k1"
      "subseq (log_of k @ [moved env Created Booting]) (log_of k1)"
    using transition_ok(2) [of k Booting env] transition_fields(3) [of env Booting k] transition_log [of k Booting env] t1 k0 legal ann
    by simp_all
  have c2: "through_context (kn_inner k1) (kn_inner k2)"
    using boot_loop_calls [OF env, of "kernel_subsystems k1" k1] b by simp
  have s2: "kernel_state k2 = Booting" "kernel_subsystems k2 = ?subs" "announcing k2"
      "subseq (log_of k1 @ concat (map f (boot_calls ?subs))) (log_of k2)"
    using context_kernel [OF c2] announcing_context [OF c2] boot_loop_log [OF f b] s1 by simp_all
  have s3: "kernel_state k3 = Loading" "kernel_subsystems k3 = ?subs" "announcing k3"
      "subseq (log_of k2 @ [moved env Booting Loading]) (log_of k3)"
    using transition_ok(2) [of k2 Loading env] transition_fields(3) [of env Loading k2] transition_log [of k2 Loading env] t3 s2 legal
    by simp_all
  have c4: "through_context (kn_inner k3) (kn_inner k4)"
    using load_loop_calls [OF env, of "kernel_subsystems k3" k3] l by simp
  have s4: "kernel_state k4 = Loading" "announcing k4"
      "subseq (log_of k3 @ concat (map f (load_calls ?subs))) (log_of k4)"
    using context_kernel [OF c4] announcing_context [OF c4] load_loop_log [OF f l] s3 by simp_all
  have s5: "announcing k'" "subseq (log_of k4 @ [moved env Loading Running]) (log_of k')"
    using transition_log [of k4 Running env] t5 s4 legal by simp_all
  show "announcing k'"
    by (rule s5(1))
  have "subseq (log_of k @ [moved env Created Booting] @ concat (map f (boot_calls ?subs)) @ [moved env Booting Loading] @
      concat (map f (load_calls ?subs)) @ [moved env Loading Running]) (log_of k')"
    using subseq_then [OF subseq_then [OF subseq_then [OF subseq_then [OF s1(4) s2(4)] s3(4)] s4(3)] s5(2)] by simp
  then show "subseq (log_of k @ boot_story env f (map ss_name ?subs)) (log_of k')"
    by (simp add: boot_story_def boot_calls_def load_calls_def comp_def)
qed

section \<open>The supervisor announces every worker stopped\<close>

definition announced_stopped :: "WorkerId \<Rightarrow> effect list \<Rightarrow> bool" where
  "announced_stopped w fx \<longleftrightarrow> (\<exists>name t. WEv (Ev_Stopped w name t) \<in> set fx)"

definition wound_up :: "Supervisor \<Rightarrow> bool" where
  "wound_up s \<longleftrightarrow> (\<forall>w. get_worker w s \<noteq> None \<longrightarrow> announced_stopped w (sv_log s))"

lemma announced_stopped_append [simp]:
  "announced_stopped w (fx @ gx) \<longleftrightarrow> announced_stopped w fx \<or> announced_stopped w gx"
  by (auto simp: announced_stopped_def)

lemma get_join_drained: "get_worker w (snd (fold join_drained joined cs)) = get_worker w (snd cs)"
  by (induction joined arbitrary: cs) (auto simp: join_drained_def case_prod_beta)

lemma announced_map: "w \<in> set ids \<Longrightarrow> announced_stopped w (map (\<lambda>w. WEv (Ev_Stopped w (n w) (t w))) ids)"
  by (auto simp: announced_stopped_def)

lemma shutdown_all_winds_up: "wound_up (snd (shutdown_all rd joined s)\<lparr>sv_stage := st\<rparr>)"
proof -
  let ?ids = "keys (sv_registered s)"
  have ids: "w \<in> set ?ids" if "get_worker w s \<noteq> None" for w
    using that by (simp add: get_worker_def map_of_eq_None_iff)
  let ?d = "snd (fold join_drained joined ((0, 0), fold (stop_worker rd) ?ids s))"
  have eq: "snd (shutdown_all rd joined s) = fold (finish_worker rd) ?ids ?d"
    by (simp add: shutdown_all_def Let_def case_prod_beta)
  have "get_worker w s \<noteq> None" if "get_worker w (fold (finish_worker rd) ?ids ?d) \<noteq> None" for w
    using that by (auto simp: fold_finish_worker get_join_drained fold_stop_worker split: if_splits)
  moreover have "announced_stopped w (sv_log (fold (finish_worker rd) ?ids ?d))" if "get_worker w s \<noteq> None" for w
    unfolding fold_finish_worker(4) announced_stopped_append by (rule disjI2, rule announced_map) (rule ids [OF that])
  ultimately show ?thesis
    unfolding eq wound_up_def by simp
qed

lemma winds_up_step:
  assumes "sup_step s s'" and "sv_stage s = Finished_run \<longrightarrow> wound_up s" and "sv_stage s' = Finished_run"
  shows "wound_up s'"
  using assms
proof cases
  case (shut_down joined rd)
  then show ?thesis
    using shutdown_all_winds_up by simp
next
  case (rehash m)
  have "get_worker w (s\<lparr>sv_registered := m\<rparr>) \<noteq> None \<Longrightarrow> get_worker w s \<noteq> None" for w
    using rehash(3) by (simp add: get_worker_def map_of_eq_None_iff)
  then show ?thesis
    using rehash assms(2,3) by (auto simp: wound_up_def)
qed (use assms(2,3) in \<open>auto simp: wound_up_def split: if_splits\<close>)

lemma stage_register_pending [simp]: "sv_stage (register_pending ws s) = sv_stage s"
  unfolding register_pending_def by (rule stage_fold) (simp add: case_prod_beta)

interpretation winding: invariant_system "watched_start ws" watched_step "\<lambda>s. sv_stage s = Finished_run \<longrightarrow> wound_up s" for ws
proof
  show "sv_stage s = Finished_run \<longrightarrow> wound_up s" if "watched_start ws s" for s
    using that by (auto simp: watched_start_def Supervisor_new_def)
  show "sv_stage t = Finished_run \<longrightarrow> wound_up t" if "sv_stage s = Finished_run \<longrightarrow> wound_up s" "watched_step s t" for s t
    using that winds_up_step by (auto simp: watched_step_def)
qed

text \<open>The workers that are handed over get the identifiers from 0 on, and keep them.\<close>

lemma pending_next:
  "ig_next (sv_id_gen (register_pending ws s)) = ig_next (sv_id_gen s) + of_nat (length ws)"
  unfolding register_pending_def by (induction ws arbitrary: s) (simp_all add: case_prod_beta)

lemma pending_registered:
  "unat (ig_next (sv_id_gen s)) + length ws < 2 ^ 64 \<Longrightarrow> i < length ws \<Longrightarrow>
   get_worker (WorkerId (ig_next (sv_id_gen s) + of_nat i)) (register_pending ws s) \<noteq> None"
proof (induction ws arbitrary: s i rule: rev_induct)
  case (snoc p ws)
  let ?s = "register_pending ws s"
  have eq: "register_pending (ws @ [p]) s = snd (register_inner (fst p) (snd p) ?s)"
    by (simp add: register_pending_def case_prod_beta)
  have new: "get_worker w (snd (register_inner spec runner s')) =
      (if w = WorkerId (ig_next (sv_id_gen s')) then get_worker w (snd (register_inner spec runner s')) else get_worker w s')"
    and some: "get_worker (WorkerId (ig_next (sv_id_gen s'))) (snd (register_inner spec runner s')) \<noteq> None" for w spec runner s'
    by (auto simp: register_inner_def Let_def case_prod_beta next_worker_id_def id_fetch_add_def)
  show ?case
  proof (cases "i < length ws")
    case True
    then show ?thesis
      using snoc.IH [of s i] snoc.prems(1) some [of ?s] unfolding eq by (subst new) auto
  next
    case False
    then have "i = length ws"
      using snoc.prems(2) by simp
    then show ?thesis
      unfolding eq using some [of ?s] by (simp add: pending_next)
  qed
qed simp

lemma finished_announces_workers:
  assumes "watched_step\<^sup>*\<^sup>* (supervisor_at_start k) s" and "sv_stage s = Finished_run"
    and len: "length (ki_workers (kn_inner k)) < 2 ^ 64" and i: "i < length (ki_workers (kn_inner k))"
  shows "announced_stopped (WorkerId (of_nat i)) (sv_log s)"
proof -
  let ?ws = "ki_workers (kn_inner k)" and ?s0 = "Supervisor_new (ki_health (kn_inner k)) (ki_shutdown (kn_inner k))"
  have start: "watched_start ?ws (supervisor_at_start k)"
    using len by (auto simp: watched_start_def supervisor_at_start_def)
  have "ig_next (sv_id_gen ?s0) = 0"
    by (simp add: Supervisor_new_def IdGenerator_new_def)
  then have "get_worker (WorkerId (of_nat i)) (supervisor_at_start k) \<noteq> None"
    using pending_registered [of ?s0 ?ws i] len i by (simp add: supervisor_at_start_def)
  moreover have "evolves (supervisor_at_start k) s"
    using assms(1) watched.inv_start [OF start]
  proof (induction rule: rtranclp_induct)
    case (step t u)
    then show ?case
      using watched.inv_steps [OF step(1)] sup_inv_step [of t u] by (auto simp: watched_inv_def watched_step_def intro: evolves_trans)
  qed simp
  ultimately have "get_worker (WorkerId (of_nat i)) s \<noteq> None"
    unfolding evolves_def by fastforce
  moreover have "wound_up s"
    using winding.inv_reachable [OF start assms(1)] assms(2) by simp
  ultimately show ?thesis
    by (simp add: wound_up_def)
qed

section \<open>The execution phase\<close>

lemma coordinator_log:
  assumes "run_coordinator env k = (Some rep, k')" and "\<not> co_completed (ki_coordinator (kn_inner k))"
  shows "log_of k' = log_of k @ coordinator_events env" "announcing k' = announcing k"
  using assms by (auto simp: run_coordinator_def coordinator_shutdown_def coordinator_events_def on_inner_def announcing_def
      Let_def empty_report_def ShutdownReport_duration_def split: option.splits prod.splits)

lemma exec_log:
  assumes exec: "exec_phase env k (Returned (Inr ())) k'" and ann: "announcing k"
    and once: "\<not> co_completed (ki_coordinator (kn_inner k))" and len: "length (ki_workers (kn_inner k)) < 2 ^ 64"
  obtains workers hooks where "subseq (log_of k @ workers @ hooks) (log_of k')" "announcing k'"
    "\<forall>i < length (ki_workers (kn_inner k)). announced_stopped (WorkerId (of_nat i)) workers"
    "hooks = coordinator_events env \<or> hooks = [] \<and> ki_workers (kn_inner k) = []"
proof -
  have hooks: "subseq (xs @ coordinator_events env) (log_of k1)" "announcing k1"
    if "run_coordinator env (k\<lparr>kn_inner := i\<rparr>) = (Some rep, k1)" "beside j i" "subseq xs (ki_log j)"
      "\<not> co_completed (ki_coordinator j)" "lc_events (ki_lifecycle j)" for rep k1 i j xs
  proof -
    have "\<not> co_completed (ki_coordinator i)" "subseq xs (ki_log i)" "lc_events (ki_lifecycle i)"
      using that(2-5) by (auto simp: beside_def intro: subseq_order.trans)
    then show "subseq (xs @ coordinator_events env) (log_of k1)" "announcing k1"
      using coordinator_log [OF that(1)] by (simp_all add: list_emb_append_mono announcing_def)
  qed
  from exec show ?thesis
  proof cases
    case (hooks_run i rep)
    then show ?thesis
      using hooks [of i rep k' "kn_inner k" "log_of k"] ann once
      by (intro that [of "[]" "coordinator_events env"]) (simp_all add: supervised_def announcing_def)
  next
    case (hooks_skipped i)
    then show ?thesis
      using ann by (intro that [of "[]" "[]"]) (simp_all add: supervised_def announcing_def beside_def)
  next
    case (workers_run s i rep k1)
    have "subseq ((log_of k @ sv_log s) @ coordinator_events env) (log_of k1)" "announcing k1"
      using hooks [OF workers_run(6,5), of "log_of k @ sv_log s"] ann once
      by (simp_all add: absorb_supervisor_def on_inner_def announcing_def)
    then show ?thesis
      using workers_run(1) finished_announces_workers [OF workers_run(3,4) len]
      by (intro that [of "sv_log s" "coordinator_events env"]) (simp_all add: Kernel_shutdown_def on_inner_def announcing_def)
  qed
qed

section \<open>Stopping\<close>

lemma stop_log:
  assumes env: "context_only env" and f: "emits env f" and run: "kernel_state k = Running" and ann: "announcing k"
    and stop: "stop_kernel env k = (r, k')"
  shows "subseq (log_of k @ [moved env Running Stopping] @ concat (map f (shutdown_calls (rev (kernel_subsystems k)))) @
    [moved env Stopping Stopped]) (log_of k')"
proof -
  have legal: "is_legal Running Stopping" "is_legal Stopping Stopped"
    by (simp_all add: legal_moves)
  let ?k1 = "snd (kernel_transition env Stopping k)"
  let ?k2 = "snd (shutdown_loop env (rev (kernel_subsystems ?k1)) None ?k1)"
  have t1: "kernel_transition env Stopping k = (Inr (), ?k1)"
    using transition_ok(1) [of k Stopping env] run legal by (simp add: prod_eq_iff)
  have s1: "kernel_state ?k1 = Stopping" "announcing ?k1" "subseq (log_of k @ [moved env Running Stopping]) (log_of ?k1)"
    using transition_ok(2) [of k Stopping env] transition_log [of k Stopping env] run legal ann by simp_all
  have c2: "through_context (kn_inner ?k1) (kn_inner ?k2)"
    using shutdown_loop_calls [OF env] by blast
  have s2: "kernel_state ?k2 = Stopping" "announcing ?k2"
      "subseq (log_of ?k1 @ concat (map f (shutdown_calls (rev (kernel_subsystems k))))) (log_of ?k2)"
    using context_kernel [OF c2] announcing_context [OF c2] s1 shutdown_loop_log [OF f, of ?k1 "rev (kernel_subsystems k)"] by simp_all
  have "k' = snd (kernel_transition env Stopped ?k2)"
    using stop t1 by (auto simp: stop_kernel_def run_shutdown_phase_def case_prod_beta split: prod.splits sum.splits)
  then have "subseq (log_of ?k2 @ [moved env Stopping Stopped]) (log_of k')"
    using transition_log(1) [of ?k2 Stopped env] s2(1,2) legal by simp
  then show ?thesis
    using subseq_then [OF subseq_then [OF s1(3) s2(3)]] by simp
qed

section \<open>The whole run\<close>

lemma built_announces:
  assumes "Kernel_build now kb = Some (Inr k)"
  shows "announcing k" "log_of k = []"
proof -
  obtain i where i: "k = Kernel_from_inner i" "build now kb = Some (Inr i)"
    using assms by (rule built_inner)
  obtain subs where "i = assemble now kb subs"
    by (rule built_by [OF i(2)]) (rule that)
  then show "announcing k" "log_of k = []"
    by (simp_all add: i(1) announcing_def assemble_def LifecycleController_with_events_and_metrics_def LifecycleController_fresh_def)
qed

lemma stopped_run_phases:
  assumes fresh: "fresh_kernel k" and env: "context_only env" and len: "length (ki_workers (kn_inner k)) < 2 ^ 64"
    and run: "kernel_run env k r k'" and stopped: "kernel_state k' = Stopped"
  obtains k1 k2 res where "Kernel_boot env k = (Inr (), k1)" "exec_phase env k1 (Returned (Inr ())) k2" "stop_kernel env k2 = (res, k')"
    "kernel_state k1 = Running" "kernel_subsystems k1 = kernel_subsystems k" "ki_workers (kn_inner k1) = ki_workers (kn_inner k)"
    "ki_coordinator (kn_inner k1) = ki_coordinator (kn_inner k)"
proof -
  obtain r1 k1 where b: "Kernel_boot env k = (r1, k1)" "(r1, kernel_state k1, kn_calls k1) = boot_outcome (kernel_subsystems k)"
      "kernel_subsystems k1 = kernel_subsystems k" "ki_workers (kn_inner k1) = ki_workers (kn_inner k)"
      "ki_coordinator (kn_inner k1) = ki_coordinator (kn_inner k)"
    using boot_leaves [OF fresh env] by metis
  have state: "kernel_state k1 = (if r1 = Inr () then Running else Failed)"
  proof (cases rule: boot_outcome_cases [of "kernel_subsystems k"])
    case (fails e)
    have "r1 = Inl e" "kernel_state k1 = Failed"
      unfolding fails [symmetric] b(2) [symmetric] by simp_all
    then show ?thesis
      by simp
  next
    case boots
    then show ?thesis
      using b(2) by simp
  qed
  have exec: "kernel_state k2 = kernel_state k1" if "exec_phase env k1 u k2" for u k2
    using exec_phase_leaves(1) [OF that] len b(4) by simp
  from run show ?thesis
  proof cases
    case (finished k1' k2 res)
    then show ?thesis
      using b state by (intro that [of k1 k2 res]) simp_all
  qed (use b(1) state exec stopped in auto)
qed



end
