(* ===== verification/Kernel_Locks.thy ===== *)
theory Kernel_Locks
  imports Kernel_Core
begin

text \<open>
  src/kernel/core.rs: the two mutexes of a kernel, \<open>subsystems\<close> and \<open>bookkeeping\<close>, and the threads that
  take them. The boot and load phases hold \<open>subsystems\<close> while they call each subsystem and take
  \<open>bookkeeping\<close> inside it to record a success; \<open>subsystem_snapshots\<close> takes \<open>bookkeeping\<close> first and
  \<open>subsystems\<close> inside it.
\<close>

text \<open>
  Where a thread is: \<open>Phase...\<close> is a boot or load phase with that many subsystems left to call,
  \<open>Snap...\<close> a snapshot.
\<close>

datatype lock_pc =
    PhaseStart nat | PhaseCalling nat | PhaseRecording nat | PhaseRecorded nat | PhaseEnd
  | SnapStart | SnapHasBook | SnapHasBoth | SnapEnd

record lock_state =
  lk_subsystems :: "nat option"
  lk_book :: "nat option"
  lk_pc :: "nat \<Rightarrow> lock_pc"

definition at_pc :: "nat \<Rightarrow> lock_pc \<Rightarrow> lock_state \<Rightarrow> lock_state" where
  "at_pc t pc s = s\<lparr>lk_pc := (lk_pc s)(t := pc)\<rparr>"

inductive lock_step :: "lock_state \<Rightarrow> lock_state \<Rightarrow> bool" where
  phase_lock: "lk_pc s t = PhaseStart n \<Longrightarrow> lk_subsystems s = None \<Longrightarrow>
    lock_step s (at_pc t (PhaseCalling n) (s\<lparr>lk_subsystems := Some t\<rparr>))"
| phase_called: "lk_pc s t = PhaseCalling (Suc n) \<Longrightarrow> lock_step s (at_pc t (PhaseRecording n) s)"
| phase_failed: "lk_pc s t = PhaseCalling (Suc n) \<Longrightarrow>
    lock_step s (at_pc t PhaseEnd (s\<lparr>lk_subsystems := None\<rparr>))"
| phase_record: "lk_pc s t = PhaseRecording n \<Longrightarrow> lk_book s = None \<Longrightarrow>
    lock_step s (at_pc t (PhaseRecorded n) (s\<lparr>lk_book := Some t\<rparr>))"
| phase_recorded: "lk_pc s t = PhaseRecorded n \<Longrightarrow>
    lock_step s (at_pc t (PhaseCalling n) (s\<lparr>lk_book := None\<rparr>))"
| phase_unlock: "lk_pc s t = PhaseCalling 0 \<Longrightarrow>
    lock_step s (at_pc t PhaseEnd (s\<lparr>lk_subsystems := None\<rparr>))"
| snap_book: "lk_pc s t = SnapStart \<Longrightarrow> lk_book s = None \<Longrightarrow>
    lock_step s (at_pc t SnapHasBook (s\<lparr>lk_book := Some t\<rparr>))"
| snap_subsystems: "lk_pc s t = SnapHasBook \<Longrightarrow> lk_subsystems s = None \<Longrightarrow>
    lock_step s (at_pc t SnapHasBoth (s\<lparr>lk_subsystems := Some t\<rparr>))"
| snap_unlock: "lk_pc s t = SnapHasBoth \<Longrightarrow>
    lock_step s (at_pc t SnapEnd (s\<lparr>lk_subsystems := None, lk_book := None\<rparr>))"

inductive_simps lock_step_iff: "lock_step s s'"

definition no_lock_held :: "(nat \<Rightarrow> lock_pc) \<Rightarrow> lock_state" where
  "no_lock_held pc = \<lparr>lk_subsystems = None, lk_book = None, lk_pc = pc\<rparr>"

fun holds_subsystems :: "lock_pc \<Rightarrow> bool" where
  "holds_subsystems (PhaseCalling n) = True"
| "holds_subsystems (PhaseRecording n) = True"
| "holds_subsystems (PhaseRecorded n) = True"
| "holds_subsystems SnapHasBoth = True"
| "holds_subsystems _ = False"

fun holds_book :: "lock_pc \<Rightarrow> bool" where
  "holds_book (PhaseRecorded n) = True"
| "holds_book SnapHasBook = True"
| "holds_book SnapHasBoth = True"
| "holds_book _ = False"

definition locks_owned :: "lock_state \<Rightarrow> bool" where
  "locks_owned s \<longleftrightarrow> (\<forall>t. holds_subsystems (lk_pc s t) \<longleftrightarrow> lk_subsystems s = Some t) \<and>
     (\<forall>t. holds_book (lk_pc s t) \<longleftrightarrow> lk_book s = Some t)"

definition lock_start :: "lock_state \<Rightarrow> bool" where
  "lock_start s \<longleftrightarrow> lk_subsystems s = None \<and> lk_book s = None \<and>
     (\<forall>t. \<not> holds_subsystems (lk_pc s t) \<and> \<not> holds_book (lk_pc s t))"

lemma at_pc_fields [simp]:
  "lk_pc (at_pc t pc s) u = (if u = t then pc else lk_pc s u)"
  "lk_subsystems (at_pc t pc s) = lk_subsystems s" "lk_book (at_pc t pc s) = lk_book s"
  by (simp_all add: at_pc_def)

interpretation lock_protocol: invariant_system lock_start lock_step locks_owned
proof
  show "locks_owned s" if "lock_start s" for s
    using that by (simp add: lock_start_def locks_owned_def)
  show "locks_owned s'" if inv: "locks_owned s" and step: "lock_step s s'" for s s'
  proof -
    have own: "holds_subsystems (lk_pc s t) \<longleftrightarrow> lk_subsystems s = Some t"
        "holds_book (lk_pc s t) \<longleftrightarrow> lk_book s = Some t" for t
      using inv by (simp_all add: locks_owned_def)
    show ?thesis
      using step
    proof cases
      case (phase_lock t n)
      then show ?thesis using own own [of t] by (auto simp: locks_owned_def)
    next
      case (phase_called t n)
      then show ?thesis using own own [of t] by (auto simp: locks_owned_def)
    next
      case (phase_failed t n)
      then show ?thesis using own own [of t] by (auto simp: locks_owned_def)
    next
      case (phase_record t n)
      then show ?thesis using own own [of t] by (auto simp: locks_owned_def)
    next
      case (phase_recorded t n)
      then show ?thesis using own own [of t] by (auto simp: locks_owned_def)
    next
      case (phase_unlock t)
      then show ?thesis using own own [of t] by (auto simp: locks_owned_def)
    next
      case (snap_book t)
      then show ?thesis using own own [of t] by (auto simp: locks_owned_def)
    next
      case (snap_subsystems t)
      then show ?thesis using own own [of t] by (auto simp: locks_owned_def)
    next
      case (snap_unlock t)
      then show ?thesis using own own [of t] by (auto simp: locks_owned_def)
    qed
  qed
qed

text \<open>
  Only this pattern blocks: as long as not every thread is done, either some thread can go on, or
  a phase waits for the bookkeeping of a snapshot that waits for the phase's subsystems.
\<close>

fun finished_pc :: "lock_pc \<Rightarrow> bool" where
  "finished_pc PhaseEnd = True"
| "finished_pc SnapEnd = True"
| "finished_pc _ = False"

definition lock_order_inverted :: "lock_state \<Rightarrow> bool" where
  "lock_order_inverted s \<longleftrightarrow> (\<exists>t u n. lk_pc s t = PhaseRecording n \<and> lk_subsystems s = Some t \<and>
     lk_pc s u = SnapHasBook \<and> lk_book s = Some u)"

lemma enabled:
  assumes "\<not> finished_pc (lk_pc s t)"
    and "lk_pc s t = SnapHasBook \<or> (\<exists>n. lk_pc s t = PhaseStart n) \<Longrightarrow> lk_subsystems s = None"
    and "lk_pc s t = SnapStart \<or> (\<exists>n. lk_pc s t = PhaseRecording n) \<Longrightarrow> lk_book s = None"
  shows "\<exists>s'. lock_step s s'"
proof (cases "lk_pc s t")
  case (PhaseCalling n)
  then show ?thesis
    by (cases n) (auto intro: lock_step.intros)
qed (use assms in \<open>auto intro: lock_step.intros\<close>)

lemma blocked_is_inverted:
  assumes inv: "locks_owned s" and t: "\<not> finished_pc (lk_pc s t)" and stuck: "\<nexists>s'. lock_step s s'"
  shows "lock_order_inverted s"
proof -
  have own: "holds_subsystems (lk_pc s t) \<longleftrightarrow> lk_subsystems s = Some t"
      "holds_book (lk_pc s t) \<longleftrightarrow> lk_book s = Some t" for t
    using inv by (simp_all add: locks_owned_def)
  have wants_book: "\<exists>n. lk_pc s u = PhaseRecording n" if "lk_subsystems s = Some u" for u
  proof -
    have "holds_subsystems (lk_pc s u)" "\<not> finished_pc (lk_pc s u)"
      using own(1) [of u] that by (cases "lk_pc s u"; simp)+
    then show ?thesis
      using enabled [of s u] stuck by (cases "lk_pc s u") auto
  qed
  have wants_subs: "lk_pc s u = SnapHasBook" if "lk_book s = Some u" for u
  proof -
    have h: "holds_book (lk_pc s u)" "\<not> finished_pc (lk_pc s u)"
      using own(2) [of u] that by (cases "lk_pc s u"; simp)+
    then show ?thesis
      using enabled [of s u] stuck by (cases "lk_pc s u") auto
  qed
  have "lk_subsystems s \<noteq> None \<or> lk_book s \<noteq> None"
  proof (rule ccontr)
    assume "\<not> ?thesis"
    then show False
      using enabled [OF t] stuck by simp
  qed
  moreover have "lk_book s \<noteq> None" if "lk_subsystems s = Some u" for u
    using enabled [of s u] wants_book [OF that] stuck by (cases "lk_book s") auto
  moreover have "lk_subsystems s \<noteq> None" if "lk_book s = Some u" for u
    using enabled [of s u] wants_subs [OF that] stuck by (cases "lk_subsystems s") auto
  ultimately obtain u v where "lk_subsystems s = Some u" "lk_book s = Some v"
    by blast
  then show ?thesis
    using wants_book wants_subs unfolding lock_order_inverted_def by blast
qed


definition boot_and_snapshot :: "nat \<Rightarrow> lock_state" where
  "boot_and_snapshot n =
     no_lock_held (\<lambda>t. if t = 0 then PhaseStart n else if t = 1 then SnapStart else SnapEnd)"

lemma boot_and_snapshot_start: "lock_start (boot_and_snapshot n)"
  by (simp add: lock_start_def boot_and_snapshot_def no_lock_held_def)

text \<open>
  A snapshot taken while a kernel with at least one subsystem boots can deadlock both threads for good: the
  state is reachable and no step leaves it.
\<close>

theorem snapshot_during_boot_deadlocks:
  "\<exists>s. lock_step\<^sup>*\<^sup>* (boot_and_snapshot (Suc n)) s \<and> lk_pc s 0 = PhaseRecording n \<and> lk_pc s 1 = SnapHasBook \<and>
     \<not> (\<exists>s'. lock_step s s')"
proof -
  let ?s0 = "boot_and_snapshot (Suc n)"
  let ?s1 = "at_pc 0 (PhaseCalling (Suc n)) (?s0\<lparr>lk_subsystems := Some 0\<rparr>)"
  let ?s2 = "at_pc 0 (PhaseRecording n) ?s1"
  let ?s3 = "at_pc 1 SnapHasBook (?s2\<lparr>lk_book := Some 1\<rparr>)"
  have "lock_step ?s0 ?s1"
    by (rule phase_lock) (simp_all add: boot_and_snapshot_def no_lock_held_def)
  moreover have "lock_step ?s1 ?s2"
    by (rule phase_called) simp
  moreover have "lock_step ?s2 ?s3"
    by (rule snap_book) (simp_all add: boot_and_snapshot_def no_lock_held_def)
  ultimately have "lock_step\<^sup>*\<^sup>* ?s0 ?s3"
    by (meson converse_rtranclp_into_rtranclp rtranclp.rtrancl_refl)
  moreover have "lk_pc ?s3 t = (if t = 0 then PhaseRecording n else if t = 1 then SnapHasBook else SnapEnd)" for t
    by (simp add: boot_and_snapshot_def no_lock_held_def at_pc_def)
  then have "\<not> lock_step ?s3 s'" for s'
    by (auto simp: lock_step_iff split: if_splits)
  ultimately show ?thesis
    by (intro exI [of _ ?s3]) simp
qed


end
