(* ===== verification/Boot_Concurrent.thy ===== *)
theory Boot_Concurrent
  imports Kernel_Phases
begin

text \<open>
  \<open>boot\<close> of src/kernel/core.rs beside any number of threads that take snapshots, with the two mutexes and the data they protect.
  Each acquisition of a lock, each call of a subsystem and each critical section is one step. The big-step functions of the phases
  are the specification: the interleaved boot computes what they compute, and a snapshot shows a state between two phases.
\<close>

section \<open>Steps\<close>

datatype boot_phase = BootPhase | LoadPhase

text \<open>Where the booting thread is. From \<open>BRollback\<close> on it undoes a failed load phase.\<close>

datatype boot_pc =
    BStart
  | BLock boot_phase
  | BCall boot_phase "Subsystem list"
  | BRecord boot_phase Subsystem "Subsystem list"
  | BRecorded boot_phase Subsystem "Subsystem list"
  | BAfter boot_phase
  | BRollback KernelError
  | BRollbackRead KernelError
  | BRollbackLock KernelError "string \<Rightarrow> instant option"
  | BRollbackCall KernelError "Subsystem list"
  | BFailed KernelError
  | BEnded "KernelError + unit"

text \<open>A snapshot thread is known by the locks it holds.\<close>

datatype holder = Booter | Snapper nat

record 'e boot_world =
  bw_kernel :: "'e Kernel"
  bw_pc :: boot_pc
  bw_subsystems :: "holder option"
  bw_book :: "holder option"
  bw_taken :: "SubsystemSnapshot list list"

fun phase_call :: "boot_phase \<Rightarrow> string \<Rightarrow> SubsystemCall" where
  "phase_call BootPhase = BootCall"
| "phase_call LoadPhase = LoadCall"

fun phase_result :: "boot_phase \<Rightarrow> Subsystem \<Rightarrow> KernelError + unit" where
  "phase_result BootPhase s = caught (ss_name s) (ss_boot s)"
| "phase_result LoadPhase s = caught (ss_name s) (ss_load s)"

fun phase_record :: "boot_phase \<Rightarrow> 'e environment \<Rightarrow> Subsystem \<Rightarrow> 'e Kernel \<Rightarrow> 'e Kernel" where
  "phase_record BootPhase env s k = record_booted (ss_name s) (en_call_at env (BootCall (ss_name s))) k"
| "phase_record LoadPhase env s k = record_loaded (ss_name s) (en_call_at env (LoadCall (ss_name s))) k"

fun phase_target :: "boot_phase \<Rightarrow> KernelState" where
  "phase_target BootPhase = Loading"
| "phase_target LoadPhase = Running"

fun phase_next :: "boot_phase \<Rightarrow> boot_pc" where
  "phase_next BootPhase = BLock LoadPhase"
| "phase_next LoadPhase = BEnded (Inr ())"

fun phase_failed :: "boot_phase \<Rightarrow> KernelError \<Rightarrow> boot_pc" where
  "phase_failed BootPhase e = BFailed e"
| "phase_failed LoadPhase e = BRollback e"

definition moves :: "'e environment \<Rightarrow> KernelState \<Rightarrow> boot_pc \<Rightarrow> 'e boot_world \<Rightarrow> 'e boot_world" where
  "moves env t pc w =
     (case kernel_transition env t (bw_kernel w) of
        (Inl e, k) \<Rightarrow> w\<lparr>bw_kernel := k, bw_pc := BEnded (Inl (KE_Lifecycle LifecycleIllegalTransition e))\<rparr>
      | (Inr _, k) \<Rightarrow> w\<lparr>bw_kernel := k, bw_pc := pc\<rparr>)"

inductive boot_step :: "'e environment \<Rightarrow> 'e boot_world \<Rightarrow> 'e boot_world \<Rightarrow> bool" for env where
  starts: "bw_pc w = BStart \<Longrightarrow> boot_step env w (moves env Booting (BLock BootPhase) w)"
| locks: "bw_pc w = BLock p \<Longrightarrow> bw_subsystems w = None \<Longrightarrow>
    boot_step env w (w\<lparr>bw_subsystems := Some Booter, bw_pc := BCall p (kernel_subsystems (bw_kernel w))\<rparr>)"
| calls: "bw_pc w = BCall p (s # subs) \<Longrightarrow> phase_result p s = Inr () \<Longrightarrow>
    boot_step env w (w\<lparr>bw_kernel := call_subsystem env (phase_call p (ss_name s)) (bw_kernel w), bw_pc := BRecord p s subs\<rparr>)"
| call_fails: "bw_pc w = BCall p (s # subs) \<Longrightarrow> phase_result p s = Inl e \<Longrightarrow>
    boot_step env w (w\<lparr>bw_kernel := call_subsystem env (phase_call p (ss_name s)) (bw_kernel w),
      bw_subsystems := None, bw_pc := phase_failed p e\<rparr>)"
| locks_book: "bw_pc w = BRecord p s subs \<Longrightarrow> bw_book w = None \<Longrightarrow>
    boot_step env w (w\<lparr>bw_book := Some Booter, bw_pc := BRecorded p s subs\<rparr>)"
| records: "bw_pc w = BRecorded p s subs \<Longrightarrow>
    boot_step env w (w\<lparr>bw_kernel := phase_record p env s (bw_kernel w), bw_book := None, bw_pc := BCall p subs\<rparr>)"
| unlocks: "bw_pc w = BCall p [] \<Longrightarrow> boot_step env w (w\<lparr>bw_subsystems := None, bw_pc := BAfter p\<rparr>)"
| goes_on: "bw_pc w = BAfter p \<Longrightarrow> boot_step env w (moves env (phase_target p) (phase_next p) w)"
| rollback_locks_book: "bw_pc w = BRollback e \<Longrightarrow> bw_book w = None \<Longrightarrow>
    boot_step env w (w\<lparr>bw_book := Some Booter, bw_pc := BRollbackRead e\<rparr>)"
| rollback_reads: "bw_pc w = BRollbackRead e \<Longrightarrow>
    boot_step env w (w\<lparr>bw_book := None, bw_pc := BRollbackLock e (bk_loaded_at (kn_book (bw_kernel w)))\<rparr>)"
| rollback_locks: "bw_pc w = BRollbackLock e loaded \<Longrightarrow> bw_subsystems w = None \<Longrightarrow>
    boot_step env w (w\<lparr>bw_subsystems := Some Booter,
      bw_pc := BRollbackCall e (filter (\<lambda>s. loaded (ss_name s) \<noteq> None) (rev (kernel_subsystems (bw_kernel w))))\<rparr>)"
| rollback_calls: "bw_pc w = BRollbackCall e (s # subs) \<Longrightarrow>
    boot_step env w (w\<lparr>bw_kernel := call_subsystem env (ShutdownCall (ss_name s)) (bw_kernel w), bw_pc := BRollbackCall e subs\<rparr>)"
| rollback_unlocks: "bw_pc w = BRollbackCall e [] \<Longrightarrow> boot_step env w (w\<lparr>bw_subsystems := None, bw_pc := BFailed e\<rparr>)"
| fails: "bw_pc w = BFailed e \<Longrightarrow>
    boot_step env w (w\<lparr>bw_kernel := snd (kernel_transition env Failed (bw_kernel w)), bw_pc := BEnded (Inl e)\<rparr>)"
| snap_locks_book: "bw_book w = None \<Longrightarrow> boot_step env w (w\<lparr>bw_book := Some (Snapper t)\<rparr>)"
| snap_locks: "bw_book w = Some (Snapper t) \<Longrightarrow> bw_subsystems w = None \<Longrightarrow>
    boot_step env w (w\<lparr>bw_subsystems := Some (Snapper t)\<rparr>)"
| snap_reads: "bw_book w = Some (Snapper t) \<Longrightarrow> bw_subsystems w = Some (Snapper t) \<Longrightarrow>
    boot_step env w (w\<lparr>bw_taken := bw_taken w @ [subsystem_snapshots (bw_kernel w)], bw_book := None, bw_subsystems := None\<rparr>)"

definition boot_start :: "'e Kernel \<Rightarrow> 'e boot_world \<Rightarrow> bool" where
  "boot_start k w \<longleftrightarrow> w = \<lparr>bw_kernel = k, bw_pc = BStart, bw_subsystems = None, bw_book = None, bw_taken = []\<rparr>"

section \<open>What is left to do\<close>

text \<open>The phases of \<open>Kernel_boot\<close>, cut where the interleaved boot may be.\<close>

definition end_load :: "'e environment \<Rightarrow> (KernelError + unit) \<times> 'e Kernel \<Rightarrow> (KernelError + unit) \<times> 'e Kernel" where
  "end_load env = (\<lambda>(r, k). case r of
       Inl err \<Rightarrow> (Inl err, snd (kernel_transition env Failed (run_shutdown_phase_to_loaded env k)))
     | Inr _ \<Rightarrow> (case kernel_transition env Running k of
          (Inl e, k) \<Rightarrow> (Inl (KE_Lifecycle LifecycleIllegalTransition e), k) | (Inr _, k) \<Rightarrow> (Inr (), k)))"

definition end_boot :: "'e environment \<Rightarrow> (KernelError + unit) \<times> 'e Kernel \<Rightarrow> (KernelError + unit) \<times> 'e Kernel" where
  "end_boot env = (\<lambda>(r, k). case r of
       Inl err \<Rightarrow> (Inl err, snd (kernel_transition env Failed k))
     | Inr _ \<Rightarrow> (case kernel_transition env Loading k of
          (Inl e, k) \<Rightarrow> (Inl (KE_Lifecycle LifecycleIllegalTransition e), k) | (Inr _, k) \<Rightarrow> end_load env (run_load_phase env k)))"

fun phase_end :: "boot_phase \<Rightarrow> 'e environment \<Rightarrow> (KernelError + unit) \<times> 'e Kernel \<Rightarrow> (KernelError + unit) \<times> 'e Kernel" where
  "phase_end BootPhase = end_boot"
| "phase_end LoadPhase = end_load"

fun phase_loop :: "boot_phase \<Rightarrow> 'e environment \<Rightarrow> Subsystem list \<Rightarrow> 'e Kernel \<Rightarrow> (KernelError + unit) \<times> 'e Kernel" where
  "phase_loop BootPhase = boot_loop"
| "phase_loop LoadPhase = load_loop"

lemma Kernel_boot_phases:
  "Kernel_boot env k = (case kernel_transition env Booting k of
     (Inl e, k) \<Rightarrow> (Inl (KE_Lifecycle LifecycleIllegalTransition e), k) | (Inr _, k) \<Rightarrow> end_boot env (run_boot_phase env k))"
  by (simp add: Kernel_boot_def end_boot_def end_load_def split: prod.split sum.split)

fun remaining :: "'e environment \<Rightarrow> boot_pc \<Rightarrow> 'e Kernel \<Rightarrow> (KernelError + unit) \<times> 'e Kernel" where
  "remaining env BStart k = Kernel_boot env k"
| "remaining env (BLock p) k = phase_end p env (phase_loop p env (kernel_subsystems k) k)"
| "remaining env (BCall p subs) k = phase_end p env (phase_loop p env subs k)"
| "remaining env (BRecord p s subs) k = phase_end p env (phase_loop p env subs (phase_record p env s k))"
| "remaining env (BRecorded p s subs) k = phase_end p env (phase_loop p env subs (phase_record p env s k))"
| "remaining env (BAfter p) k = phase_end p env (Inr (), k)"
| "remaining env (BRollback e) k = end_load env (Inl e, k)"
| "remaining env (BRollbackRead e) k = end_load env (Inl e, k)"
| "remaining env (BRollbackLock e loaded) k = (Inl e, snd (kernel_transition env Failed
     (fold (\<lambda>s. call_subsystem env (ShutdownCall (ss_name s)))
        (filter (\<lambda>s. loaded (ss_name s) \<noteq> None) (rev (kernel_subsystems k))) k)))"
| "remaining env (BRollbackCall e subs) k =
     (Inl e, snd (kernel_transition env Failed (fold (\<lambda>s. call_subsystem env (ShutdownCall (ss_name s))) subs k)))"
| "remaining env (BFailed e) k = (Inl e, snd (kernel_transition env Failed k))"
| "remaining env (BEnded r) k = (r, k)"

lemma phase_loop_Nil [simp]: "phase_loop p env [] k = (Inr (), k)"
  by (cases p) simp_all

lemma phase_loop_Cons:
  "phase_loop p env (s # subs) k =
     (let k' = call_subsystem env (phase_call p (ss_name s)) k
      in case phase_result p s of Inl e \<Rightarrow> (Inl e, k') | Inr _ \<Rightarrow> phase_loop p env subs (phase_record p env s k'))"
  by (cases p) (simp_all add: Let_def split: sum.split)

lemma phase_end_failed: "remaining env (phase_failed p e) k = phase_end p env (Inl e, k)"
  by (cases p) (simp_all add: end_boot_def)

lemma phase_end_moves:
  "phase_end p env (Inr (), k) = (case kernel_transition env (phase_target p) k of
     (Inl e, k) \<Rightarrow> (Inl (KE_Lifecycle LifecycleIllegalTransition e), k) | (Inr _, k) \<Rightarrow> remaining env (phase_next p) k)"
  by (cases p) (simp_all add: end_boot_def end_load_def run_load_phase_def split: prod.split sum.split)

lemma phase_record_fields [simp]:
  "kn_inner (phase_record p env s k) = kn_inner k"
  by (cases p) simp_all

lemma moves_fields [simp]:
  "bw_subsystems (moves env t pc w) = bw_subsystems w" "bw_book (moves env t pc w) = bw_book w"
  "bw_taken (moves env t pc w) = bw_taken w"
  "bw_kernel (moves env t pc w) = snd (kernel_transition env t (bw_kernel w))"
  "bw_pc (moves env t pc w) = (case fst (kernel_transition env t (bw_kernel w)) of
     Inl e \<Rightarrow> BEnded (Inl (KE_Lifecycle LifecycleIllegalTransition e)) | Inr _ \<Rightarrow> pc)"
  by (simp_all add: moves_def split: prod.split sum.split)

section \<open>Invariant\<close>

fun owns_subsystems :: "boot_pc \<Rightarrow> bool" where
  "owns_subsystems (BCall _ _) = True"
| "owns_subsystems (BRecord _ _ _) = True"
| "owns_subsystems (BRecorded _ _ _) = True"
| "owns_subsystems (BRollbackCall _ _) = True"
| "owns_subsystems _ = False"

fun owns_book :: "boot_pc \<Rightarrow> bool" where
  "owns_book (BRecorded _ _ _) = True"
| "owns_book (BRollbackRead _) = True"
| "owns_book _ = False"

text \<open>What \<open>run_boot_phase\<close> leaves, and how far the interleaved boot phase is from it.\<close>

definition booted :: "'e environment \<Rightarrow> 'e Kernel \<Rightarrow> (KernelError + unit) \<times> 'e Kernel" where
  "booted env k = run_boot_phase env (snd (kernel_transition env Booting k))"

fun boot_stage :: "'e environment \<Rightarrow> 'e Kernel \<Rightarrow> boot_pc \<Rightarrow> 'e Kernel \<Rightarrow> bool" where
  "boot_stage env k0 BStart k \<longleftrightarrow> k = k0"
| "boot_stage env k0 (BLock BootPhase) k \<longleftrightarrow> kn_book k = kn_book k0 \<and> boot_loop env (kernel_subsystems k) k = booted env k0"
| "boot_stage env k0 (BLock LoadPhase) k \<longleftrightarrow> kn_book k = kn_book (snd (booted env k0))"
| "boot_stage env k0 (BCall BootPhase subs) k \<longleftrightarrow> boot_loop env subs k = booted env k0"
| "boot_stage env k0 (BRecord BootPhase s subs) k \<longleftrightarrow> boot_loop env subs (phase_record BootPhase env s k) = booted env k0"
| "boot_stage env k0 (BRecorded BootPhase s subs) k \<longleftrightarrow> boot_loop env subs (phase_record BootPhase env s k) = booted env k0"
| "boot_stage env k0 (BAfter BootPhase) k \<longleftrightarrow> booted env k0 = (Inr (), k)"
| "boot_stage env k0 _ k \<longleftrightarrow> True"

text \<open>The kernel as it is before the boot phase, between the two phases and after everything.\<close>

definition stable_books :: "'e environment \<Rightarrow> 'e Kernel \<Rightarrow> SubsystemBookkeeping set" where
  "stable_books env k = {kn_book k, kn_book (snd (booted env k)), kn_book (snd (Kernel_boot env k))}"

definition boot_inv :: "'e environment \<Rightarrow> 'e Kernel \<Rightarrow> 'e boot_world \<Rightarrow> bool" where
  "boot_inv env k w \<longleftrightarrow>
     remaining env (bw_pc w) (bw_kernel w) = Kernel_boot env k \<and>
     (bw_subsystems w = Some Booter \<longleftrightarrow> owns_subsystems (bw_pc w)) \<and> (bw_book w = Some Booter \<longleftrightarrow> owns_book (bw_pc w)) \<and>
     kernel_subsystems (bw_kernel w) = kernel_subsystems k \<and> boot_stage env k (bw_pc w) (bw_kernel w) \<and>
     set (bw_taken w) \<subseteq> (\<lambda>b. subsystem_snapshots (k\<lparr>kn_book := b\<rparr>)) ` stable_books env k"

lemma rollback_book:
  assumes "context_only env"
  shows "kn_book (run_shutdown_phase_to_loaded env k) = kn_book k"
  using fold_shutdown_calls [OF assms] by (simp add: run_shutdown_phase_to_loaded_def)

lemma end_load_ok: "snd (end_load env (Inr u, k)) = snd (kernel_transition env Running k)"
  by (simp add: end_load_def split: prod.split sum.split)

text \<open>While the booting thread does not hold \<open>subsystems\<close>, the bookkeeping is that of a stable point.\<close>

lemma unlocked_book:
  assumes inv: "boot_inv env k w" and env: "context_only env" and "\<not> owns_subsystems (bw_pc w)"
  shows "kn_book (bw_kernel w) \<in> stable_books env k"
proof -
  let ?k = "bw_kernel w"
  have rest: "remaining env (bw_pc w) ?k = Kernel_boot env k" and stage: "boot_stage env k (bw_pc w) ?k"
    using inv by (simp_all add: boot_inv_def)
  have load: "kn_book (snd (end_load env (r, ?k))) = kn_book ?k" for r
    by (cases r) (simp_all add: rollback_book [OF env] end_load_ok, simp add: end_load_def rollback_book [OF env])
  have "kn_book ?k = kn_book (snd (Kernel_boot env k))"
    if "bw_pc w \<noteq> BStart" "bw_pc w \<noteq> BLock BootPhase" "bw_pc w \<noteq> BLock LoadPhase" "bw_pc w \<noteq> BAfter BootPhase"
    using assms(3) that load fold_shutdown_calls [OF env] unfolding rest [symmetric]
    by (cases "bw_pc w"; cases "case bw_pc w of BAfter p \<Rightarrow> p | BLock p \<Rightarrow> p | _ \<Rightarrow> BootPhase") simp_all
  moreover have "kn_book ?k = kn_book k" if "bw_pc w = BStart \<or> bw_pc w = BLock BootPhase"
    using stage that by auto
  moreover have "kn_book ?k = kn_book (snd (booted env k))" if "bw_pc w = BLock LoadPhase \<or> bw_pc w = BAfter BootPhase"
    using stage that by auto
  ultimately show ?thesis
    by (auto simp: stable_books_def)
qed

lemma snapshots_of_book:
  "kernel_subsystems k' = kernel_subsystems k \<Longrightarrow> subsystem_snapshots k' = subsystem_snapshots (k\<lparr>kn_book := kn_book k'\<rparr>)"
  by (simp add: subsystem_snapshots_def)

lemma call_keeps:
  assumes "context_only env"
  shows "ki_subsystems (en_effect env c i) = ki_subsystems i"
  using effect_through_context [OF assms, of i c] by (simp add: through_context_def beside_def)

lemma moves_remaining:
  "remaining env (bw_pc (moves env t pc w)) (snd (kernel_transition env t (bw_kernel w))) =
     (case kernel_transition env t (bw_kernel w) of
        (Inl e, k) \<Rightarrow> (Inl (KE_Lifecycle LifecycleIllegalTransition e), k) | (Inr _, k) \<Rightarrow> remaining env pc k)"
  by (cases "kernel_transition env t (bw_kernel w)"; cases "fst (kernel_transition env t (bw_kernel w))") simp_all

lemma moves_inv:
  assumes inv: "boot_inv env k w" and pc: "\<not> owns_subsystems pc" "\<not> owns_book pc" "\<not> owns_subsystems (bw_pc w)" "\<not> owns_book (bw_pc w)"
    and rest: "remaining env (bw_pc (moves env t pc w)) (snd (kernel_transition env t (bw_kernel w))) = Kernel_boot env k"
    and stage: "boot_stage env k pc (snd (kernel_transition env t (bw_kernel w)))"
  shows "boot_inv env k (moves env t pc w)"
  using inv rest pc stage
  by (cases "fst (kernel_transition env t (bw_kernel w))") (simp_all add: boot_inv_def)

lemma boot_inv_step:
  assumes inv: "boot_inv env k w" and env: "context_only env" and step: "boot_step env w w'"
  shows "boot_inv env k w'"
proof -
  note call = call_keeps [OF env]
  have d: "remaining env (bw_pc w) (bw_kernel w) = Kernel_boot env k" "bw_subsystems w = Some Booter \<longleftrightarrow> owns_subsystems (bw_pc w)"
    "bw_book w = Some Booter \<longleftrightarrow> owns_book (bw_pc w)" "kernel_subsystems (bw_kernel w) = kernel_subsystems k"
    "boot_stage env k (bw_pc w) (bw_kernel w)"
    "set (bw_taken w) \<subseteq> (\<lambda>b. subsystem_snapshots (k\<lparr>kn_book := b\<rparr>)) ` stable_books env k"
    using inv by (simp_all add: boot_inv_def)
  from step show ?thesis
  proof cases
    case starts
    have k: "bw_kernel w = k"
      using d(5) starts(2) by simp
    show ?thesis
      unfolding starts(1)
    proof (rule moves_inv [OF inv])
      show "remaining env (bw_pc (moves env Booting (BLock BootPhase) w)) (snd (kernel_transition env Booting (bw_kernel w))) =
          Kernel_boot env k"
        unfolding moves_remaining unfolding k Kernel_boot_phases
        by (auto simp: run_boot_phase_def split: prod.split sum.split)
    qed (simp_all add: starts(2) k booted_def run_boot_phase_def)
  next
    case (locks p)
    then show ?thesis
      using d by (cases p) (auto simp: boot_inv_def)
  next
    case (calls p s subs)
    then show ?thesis
      using d by (cases p) (auto simp: boot_inv_def phase_loop_Cons call Let_def)
  next
    case (call_fails p s subs e)
    then show ?thesis
      using d by (cases p) (auto simp: boot_inv_def phase_loop_Cons call phase_end_failed Let_def end_boot_def)
  next
    case (locks_book p s subs)
    then show ?thesis
      using d by (cases p) (auto simp: boot_inv_def)
  next
    case (records p s subs)
    then show ?thesis
      using d by (cases p) (auto simp: boot_inv_def)
  next
    case (unlocks p)
    then show ?thesis
      using d by (cases p) (auto simp: boot_inv_def)
  next
    case (goes_on p)
    show ?thesis
      unfolding goes_on(1)
    proof (rule moves_inv [OF inv])
      show "remaining env (bw_pc (moves env (phase_target p) (phase_next p) w))
          (snd (kernel_transition env (phase_target p) (bw_kernel w))) = Kernel_boot env k"
        unfolding moves_remaining using d(1) by (simp add: goes_on(2) phase_end_moves)
    qed (use d(5) in \<open>cases p; simp add: goes_on(2)\<close>)+
  next
    case (rollback_locks_book e)
    then show ?thesis
      using d by (auto simp: boot_inv_def)
  next
    case (rollback_reads e)
    then show ?thesis
      using d by (auto simp: boot_inv_def end_load_def run_shutdown_phase_to_loaded_def)
  next
    case (rollback_locks e loaded)
    then show ?thesis
      using d by (auto simp: boot_inv_def)
  next
    case (rollback_calls e s subs)
    then show ?thesis
      using d by (auto simp: boot_inv_def call)
  next
    case (rollback_unlocks e)
    then show ?thesis
      using d by (auto simp: boot_inv_def)
  next
    case (fails e)
    then show ?thesis
      using d by (auto simp: boot_inv_def)
  next
    case (snap_locks_book t)
    then show ?thesis
      using d by (auto simp: boot_inv_def)
  next
    case (snap_locks t)
    then show ?thesis
      using d by (auto simp: boot_inv_def)
  next
    case (snap_reads t)
    then have "kn_book (bw_kernel w) \<in> stable_books env k"
      using d(2) by (intro unlocked_book [OF inv env]) simp
    then have "subsystem_snapshots (bw_kernel w) \<in> (\<lambda>b. subsystem_snapshots (k\<lparr>kn_book := b\<rparr>)) ` stable_books env k"
      unfolding snapshots_of_book [OF d(4)] by (rule imageI)
    then show ?thesis
      using snap_reads d by (auto simp: boot_inv_def)
  qed
qed

interpretation booting: invariant_system "boot_start k" "boot_step env" "\<lambda>w. context_only env \<longrightarrow> boot_inv env k w" for env k
proof
  show "context_only env \<longrightarrow> boot_inv env k w" if "boot_start k w" for w
    using that by (simp add: boot_start_def boot_inv_def)
  show "context_only env \<longrightarrow> boot_inv env k w'" if "context_only env \<longrightarrow> boot_inv env k w" "boot_step env w w'" for w w'
    using that boot_inv_step by blast
qed

section \<open>Fresh kernels\<close>

lemma end_load_booted:
  assumes "context_only env"
  shows "bk_booted_at (kn_book (snd (end_load env p))) = bk_booted_at (kn_book (snd p))"
proof -
  obtain r k where p: "p = (r, k)"
    by (cases p)
  then show ?thesis
    by (cases r) (simp_all add: end_load_ok, simp add: end_load_def rollback_book [OF assms])
qed

lemma end_boot_booted:
  assumes "context_only env"
  shows "bk_booted_at (kn_book (snd (end_boot env (r, k)))) = bk_booted_at (kn_book k)"
proof (cases r)
  case (Inr u)
  obtain t k1 where t: "kernel_transition env Loading k = (t, k1)"
    by (cases "kernel_transition env Loading k")
  then have "kn_book k1 = kn_book k"
    using transition_fields(2) [of env Loading k] by simp
  moreover have "bk_booted_at (kn_book (snd (end_load env (run_load_phase env k1)))) = bk_booted_at (kn_book k1)"
    using end_load_booted [OF assms] load_loop_calls [OF assms, of "kernel_subsystems k1" k1] by (simp add: run_load_phase_def)
  ultimately show ?thesis
    using Inr t by (cases t) (simp_all add: end_boot_def)
qed (simp add: end_boot_def)

lemma stable_books_whole:
  assumes fresh: "fresh_kernel k" and env: "context_only env" and ok: "first_error boot_result (kernel_subsystems k) = None"
    and b: "b \<in> stable_books env k"
  shows "(\<forall>s \<in> set (kernel_subsystems k). bk_booted_at b (ss_name s) = None) \<or>
    (\<forall>s \<in> set (kernel_subsystems k). bk_booted_at b (ss_name s) \<noteq> None)"
proof -
  have "is_legal (kernel_state k) Booting"
    using fresh by (simp add: fresh_kernel_def legal_moves)
  then obtain k1 where t: "kernel_transition env Booting k = (Inr (), k1)"
    using transition_ok(1) by (metis prod.collapse)
  have k1: "kn_book k1 = kn_book k" "kernel_subsystems k1 = kernel_subsystems k"
    using transition_fields(2,3) [of env Booting k] t by simp_all
  have all: "\<forall>s \<in> set (kernel_subsystems k). bk_booted_at (kn_book (snd (booted env k))) (ss_name s) \<noteq> None"
    using boot_loop_calls [OF env, of "kernel_subsystems k" k1] ok
    by (simp add: booted_def run_boot_phase_def t k1 before_failure_ok)
  have "bk_booted_at (kn_book (snd (Kernel_boot env k))) = bk_booted_at (kn_book (snd (booted env k)))"
    using end_boot_booted [OF env, of "fst (booted env k)" "snd (booted env k)"]
    by (simp add: Kernel_boot_phases booted_def t)
  then show ?thesis
    using b all fresh by (auto simp: stable_books_def fresh_kernel_def)
qed

section \<open>Left alone, the boot ends\<close>

definition unlocked :: "'e boot_world \<Rightarrow> bool" where
  "unlocked w \<longleftrightarrow> bw_subsystems w = None \<and> bw_book w = None"

definition arrives :: "'e environment \<Rightarrow> 'e boot_world \<Rightarrow> (boot_pc \<Rightarrow> bool) \<Rightarrow> bool" where
  "arrives env w P \<longleftrightarrow> (\<exists>w'. (boot_step env)\<^sup>*\<^sup>* w w' \<and> unlocked w' \<and> bw_taken w' = bw_taken w \<and> P (bw_pc w'))"

lemma arrives_now: "unlocked w \<Longrightarrow> P (bw_pc w) \<Longrightarrow> arrives env w P"
  by (auto simp: arrives_def)

lemma arrives_step: "boot_step env w v \<Longrightarrow> bw_taken v = bw_taken w \<Longrightarrow> arrives env v P \<Longrightarrow> arrives env w P"
  unfolding arrives_def by (metis converse_rtranclp_into_rtranclp)

lemma arrives_then:
  "arrives env w P \<Longrightarrow> (\<And>v. unlocked v \<Longrightarrow> P (bw_pc v) \<Longrightarrow> arrives env v Q) \<Longrightarrow> arrives env w Q"
  unfolding arrives_def by (metis rtranclp_trans)

lemma calls_run:
  "bw_pc w = BCall p subs \<Longrightarrow> bw_book w = None \<Longrightarrow> arrives env w (\<lambda>pc. pc = BAfter p \<or> (\<exists>e. pc = phase_failed p e))"
proof (induction subs arbitrary: w)
  case Nil
  show ?case
    by (rule arrives_step [OF boot_step.unlocks [OF Nil(1)]], simp, rule arrives_now) (simp_all add: unlocked_def Nil)
next
  case (Cons s subs)
  show ?case
  proof (cases "phase_result p s")
    case (Inl e)
    show ?thesis
      by (rule arrives_step [OF boot_step.call_fails [OF Cons.prems(1) Inl]], simp, rule arrives_now)
        (auto simp: unlocked_def Cons.prems)
  next
    case (Inr u)
    let ?w1 = "w\<lparr>bw_kernel := call_subsystem env (phase_call p (ss_name s)) (bw_kernel w), bw_pc := BRecord p s subs\<rparr>"
    let ?w2 = "?w1\<lparr>bw_book := Some Booter, bw_pc := BRecorded p s subs\<rparr>"
    let ?w3 = "?w2\<lparr>bw_kernel := phase_record p env s (bw_kernel ?w2), bw_book := None, bw_pc := BCall p subs\<rparr>"
    have steps: "boot_step env w ?w1" "boot_step env ?w1 ?w2" "boot_step env ?w2 ?w3"
      by (rule boot_step.calls boot_step.locks_book boot_step.records; use Cons.prems Inr in simp)+
    show ?thesis
      by (rule arrives_step [OF steps(1)], simp, rule arrives_step [OF steps(2)], simp, rule arrives_step [OF steps(3)], simp,
          rule Cons.IH) simp_all
  qed
qed

lemma rollback_calls_run: "bw_pc w = BRollbackCall e subs \<Longrightarrow> bw_book w = None \<Longrightarrow> arrives env w (\<lambda>pc. pc = BFailed e)"
proof (induction subs arbitrary: w)
  case Nil
  show ?case
    by (rule arrives_step [OF boot_step.rollback_unlocks [OF Nil(1)]], simp, rule arrives_now) (simp_all add: unlocked_def Nil)
next
  case (Cons s subs)
  show ?case
    by (rule arrives_step [OF boot_step.rollback_calls [OF Cons.prems(1)]], simp, rule Cons.IH) (simp_all add: Cons.prems)
qed

lemma rollback_runs:
  assumes "bw_pc w = BRollback e" and "unlocked w"
  shows "arrives env w (\<lambda>pc. pc = BFailed e)"
proof -
  let ?w1 = "w\<lparr>bw_book := Some Booter, bw_pc := BRollbackRead e\<rparr>"
  let ?loaded = "bk_loaded_at (kn_book (bw_kernel ?w1))"
  let ?w2 = "?w1\<lparr>bw_book := None, bw_pc := BRollbackLock e ?loaded\<rparr>"
  let ?w3 = "?w2\<lparr>bw_subsystems := Some Booter,
      bw_pc := BRollbackCall e (filter (\<lambda>s. ?loaded (ss_name s) \<noteq> None) (rev (kernel_subsystems (bw_kernel ?w2))))\<rparr>"
  have steps: "boot_step env w ?w1" "boot_step env ?w1 ?w2" "boot_step env ?w2 ?w3"
    by (rule boot_step.rollback_locks_book boot_step.rollback_reads boot_step.rollback_locks;
        use assms in \<open>simp add: unlocked_def\<close>)+
  show ?thesis
    by (rule arrives_step [OF steps(1)], simp, rule arrives_step [OF steps(2)], simp, rule arrives_step [OF steps(3)], simp,
        rule rollback_calls_run) simp_all
qed

definition is_ended :: "boot_pc \<Rightarrow> bool" where
  "is_ended pc \<longleftrightarrow> (\<exists>r. pc = BEnded r)"

lemma failed_ends: "bw_pc w = BFailed e \<Longrightarrow> unlocked w \<Longrightarrow> arrives env w is_ended"
  by (rule arrives_step [OF boot_step.fails], assumption, simp, rule arrives_now) (simp_all add: unlocked_def is_ended_def)

lemma moves_ends:
  assumes "boot_step env w (moves env t pc w)" and "unlocked w"
    and "\<And>v. unlocked v \<Longrightarrow> bw_pc v = pc \<Longrightarrow> arrives env v is_ended"
  shows "arrives env w is_ended"
proof -
  have u: "unlocked (moves env t pc w)"
    using assms(2) by (simp add: unlocked_def)
  have "arrives env (moves env t pc w) is_ended"
  proof (cases "fst (kernel_transition env t (bw_kernel w))")
    case (Inl e)
    then show ?thesis
      using u by (intro arrives_now) (simp_all add: is_ended_def)
  next
    case (Inr r)
    then show ?thesis
      using u by (intro assms(3)) simp_all
  qed
  then show ?thesis
    by (rule arrives_step [OF assms(1) moves_fields(3)])
qed

lemma phase_ends:
  assumes "\<And>v. unlocked v \<Longrightarrow> bw_pc v = phase_next p \<Longrightarrow> arrives env v is_ended"
    and "bw_pc w = BLock p" and "unlocked w"
  shows "arrives env w is_ended"
proof -
  have "arrives env w (\<lambda>pc. pc = BAfter p \<or> (\<exists>e. pc = phase_failed p e))"
    by (rule arrives_step [OF boot_step.locks [OF assms(2)]], use assms(3) in \<open>simp_all add: unlocked_def\<close>, rule calls_run) simp_all
  then show ?thesis
  proof (rule arrives_then)
    fix v :: "'a boot_world"
    assume v: "unlocked v" "bw_pc v = BAfter p \<or> (\<exists>e. bw_pc v = phase_failed p e)"
    show "arrives env v is_ended"
    proof (cases "bw_pc v = BAfter p")
      case True
      show ?thesis
        using boot_step.goes_on [OF True] v(1) assms(1) by (rule moves_ends)
    next
      case False
      then obtain e where "bw_pc v = BFailed e \<or> bw_pc v = BRollback e"
        using v(2) by (cases p) auto
      then show ?thesis
        using failed_ends [of v e env] v(1) arrives_then [OF rollback_runs [of v e env]] failed_ends by blast
    qed
  qed
qed

lemma boot_ends:
  assumes "bw_pc w = BStart" and "unlocked w"
  shows "arrives env w is_ended"
proof (rule moves_ends [OF boot_step.starts [OF assms(1)] assms(2)])
  have ended: "arrives env v is_ended" if "unlocked v" "bw_pc v = phase_next LoadPhase" for v
    using that by (intro arrives_now) (simp_all add: is_ended_def)
  have "arrives env v is_ended" if "unlocked v" "bw_pc v = phase_next BootPhase" for v
    by (rule phase_ends [OF ended]) (use that in simp_all)
  from phase_ends [OF this] show "arrives env v is_ended" if "unlocked v" "bw_pc v = BLock BootPhase" for v
    using that by blast
qed

text \<open>
  C10: Beside any number of threads that take snapshots, \<open>boot\<close> computes what the phases compute one after the other, and every
  snapshot shows the bookkeeping as it is before the boot phase, between the phases or after them; when no boot call
  fails, it shows either no subsystem booted or all of them.
\<close>

theorem snapshots_see_whole_phases:
  assumes "context_only env" and "boot_start k w0" and "(boot_step env)\<^sup>*\<^sup>* w0 w"
  shows "(\<forall>r. bw_pc w = BEnded r \<longrightarrow> Kernel_boot env k = (r, bw_kernel w)) \<and>
    (\<forall>snap \<in> set (bw_taken w). \<exists>b \<in> stable_books env k. snap = subsystem_snapshots (k\<lparr>kn_book := b\<rparr>)) \<and>
    (fresh_kernel k \<longrightarrow> first_error boot_result (kernel_subsystems k) = None \<longrightarrow>
       (\<forall>snap \<in> set (bw_taken w). (\<forall>s \<in> set snap. ss_booted_at s = None) \<or> (\<forall>s \<in> set snap. ss_booted_at s \<noteq> None)))"
proof -
  have inv: "boot_inv env k w"
    using booting.inv_reachable [OF assms(2,3)] assms(1) by blast
  then have taken: "\<forall>snap \<in> set (bw_taken w). \<exists>b \<in> stable_books env k. snap = subsystem_snapshots (k\<lparr>kn_book := b\<rparr>)"
    by (auto simp: boot_inv_def)
  moreover have "(\<forall>s \<in> set snap. ss_booted_at s = None) \<or> (\<forall>s \<in> set snap. ss_booted_at s \<noteq> None)"
    if "fresh_kernel k" "first_error boot_result (kernel_subsystems k) = None" "snap \<in> set (bw_taken w)" for snap
    using taken that stable_books_whole [OF that(1) assms(1) that(2)] by (fastforce simp: subsystem_snapshots_def)
  moreover have "Kernel_boot env k = (r, bw_kernel w)" if "bw_pc w = BEnded r" for r
    using inv that by (simp add: boot_inv_def)
  ultimately show ?thesis
    by blast
qed

theorem snapshots_see_whole_phases_witness:
  "\<exists>(k :: nat Kernel) w0 w r. Kernel_build 0 (KernelBuilder_new ''svc'') = Some (Inr k) \<and> boot_start k w0 \<and>
     (boot_step demo_environment)\<^sup>*\<^sup>* w0 w \<and> bw_pc w = BEnded r \<and> Kernel_boot demo_environment k = (r, bw_kernel w) \<and>
     length (bw_taken w) = 1 \<and> (\<forall>snap \<in> set (bw_taken w).
       (\<forall>s \<in> set snap. ss_booted_at s = None) \<or> (\<forall>s \<in> set snap. ss_booted_at s \<noteq> None))"
proof -
  obtain k :: "nat Kernel" where k: "Kernel_build 0 (KernelBuilder_new ''svc'') = Some (Inr k)"
    "\<And>s. s \<in> set (kernel_subsystems k) \<Longrightarrow> boot_result s = Inr () \<and> load_result s = Inr () \<and> shutdown_result s = Inr ()"
    using default_kernel_builds by blast
  have ok: "first_error boot_result (kernel_subsystems k) = None"
    using k(2) by (simp add: no_first_error)
  let ?w0 = "\<lparr>bw_kernel = k, bw_pc = BStart, bw_subsystems = None, bw_book = None, bw_taken = []\<rparr>"
  let ?w1 = "?w0\<lparr>bw_book := Some (Snapper 0)\<rparr>"
  let ?w2 = "?w1\<lparr>bw_subsystems := Some (Snapper 0)\<rparr>"
  let ?w3 = "?w2\<lparr>bw_taken := bw_taken ?w2 @ [subsystem_snapshots (bw_kernel ?w2)], bw_book := None, bw_subsystems := None\<rparr>"
  have "boot_step demo_environment ?w0 ?w1"
    by (rule boot_step.snap_locks_book) simp
  moreover have "boot_step demo_environment ?w1 ?w2"
    by (rule boot_step.snap_locks) simp_all
  moreover have "boot_step demo_environment ?w2 ?w3"
    by (rule boot_step.snap_reads [where t = 0]) simp_all
  ultimately have steps: "(boot_step demo_environment)\<^sup>*\<^sup>* ?w0 ?w3"
    by (meson converse_rtranclp_into_rtranclp rtranclp.rtrancl_refl)
  obtain w r where w: "(boot_step demo_environment)\<^sup>*\<^sup>* ?w3 w" "bw_taken w = bw_taken ?w3" "bw_pc w = BEnded r"
    using boot_ends [of ?w3 demo_environment] by (auto simp: arrives_def is_ended_def unlocked_def)
  have start: "boot_start k ?w0"
    by (simp add: boot_start_def)
  note all = snapshots_see_whole_phases [OF demo_context_only start rtranclp_trans [OF steps w(1)]]
  show ?thesis
    using all w start rtranclp_trans [OF steps w(1)] k(1) built_fresh(1) [OF k(1)] ok
    by (intro exI [of _ k] exI [of _ ?w0] exI [of _ w] exI [of _ r]) simp
qed

end
