(* ===== verification/Daemon.thy ===== *)
theory Daemon
  imports Kernel_Run
begin

text \<open>
  src/worker/adapter/proc_daemon.rs: the adapter that hosts a kernel in a process with a PID file. The
  process's file system and working directory are the record \<open>process\<close>; what the operating system
  answers, and how it resolves a path, is the record \<open>os\<close>. \<open>None\<close> as an answer is success, otherwise the
  text of the error.
\<close>

record DaemonConfig =
  dc_name :: string
  dc_pid_file :: "string option"
  dc_working_dir :: "string option"
  dc_user :: "string option"
  dc_group :: "string option"
  dc_stdout :: "string option"
  dc_stderr :: "string option"

definition DaemonConfig_new :: "string \<Rightarrow> DaemonConfig" where
  "DaemonConfig_new name = \<lparr>dc_name = name, dc_pid_file = None, dc_working_dir = None, dc_user = None,
     dc_group = None, dc_stdout = None, dc_stderr = None\<rparr>"

definition DaemonConfig_default :: DaemonConfig where
  "DaemonConfig_default = DaemonConfig_new []"

definition config_pid_file :: "string \<Rightarrow> DaemonConfig \<Rightarrow> DaemonConfig" where
  "config_pid_file path c = c\<lparr>dc_pid_file := Some path\<rparr>"

definition config_working_dir :: "string \<Rightarrow> DaemonConfig \<Rightarrow> DaemonConfig" where
  "config_working_dir path c = c\<lparr>dc_working_dir := Some path\<rparr>"

definition config_user :: "string \<Rightarrow> DaemonConfig \<Rightarrow> DaemonConfig" where
  "config_user user c = c\<lparr>dc_user := Some user\<rparr>"

definition config_group :: "string \<Rightarrow> DaemonConfig \<Rightarrow> DaemonConfig" where
  "config_group grp c = c\<lparr>dc_group := Some grp\<rparr>"

definition config_stdout :: "string \<Rightarrow> DaemonConfig \<Rightarrow> DaemonConfig" where
  "config_stdout path c = c\<lparr>dc_stdout := Some path\<rparr>"

definition config_stderr :: "string \<Rightarrow> DaemonConfig \<Rightarrow> DaemonConfig" where
  "config_stderr path c = c\<lparr>dc_stderr := Some path\<rparr>"

record os =
  os_chdir :: "string \<Rightarrow> string option"
  os_write :: "string \<Rightarrow> string option"
  os_remove :: "string \<Rightarrow> string option"
  os_resolve :: "string \<Rightarrow> string \<Rightarrow> string"
  os_pid :: nat

record process =
  pr_cwd :: string
  pr_files :: "string \<Rightarrow> string option"

text \<open>The adapter's guard is the path of the PID file it wrote; dropping a guard removes the file.\<close>

record DaemonAdapter =
  da_config :: DaemonConfig
  da_pid_file :: "string option"

definition set_current_dir :: "os \<Rightarrow> string \<Rightarrow> process \<Rightarrow> string option \<times> process" where
  "set_current_dir os dir p =
     (case os_chdir os dir of
        Some e \<Rightarrow> (Some e, p)
      | None \<Rightarrow> (None, p\<lparr>pr_cwd := os_resolve os (pr_cwd p) dir\<rparr>))"

definition fs_write :: "os \<Rightarrow> string \<Rightarrow> string \<Rightarrow> process \<Rightarrow> string option \<times> process" where
  "fs_write os path text p =
     (let file = os_resolve os (pr_cwd p) path
      in case os_write os file of
           Some e \<Rightarrow> (Some e, p)
         | None \<Rightarrow> (None, p\<lparr>pr_files := (pr_files p)(file \<mapsto> text)\<rparr>))"

definition fs_remove :: "os \<Rightarrow> string \<Rightarrow> process \<Rightarrow> process" where
  "fs_remove os path p =
     (let file = os_resolve os (pr_cwd p) path
      in if os_remove os file = None then p\<lparr>pr_files := (pr_files p)(file := None)\<rparr> else p)"

definition drop_guard :: "os \<Rightarrow> string option \<Rightarrow> process \<Rightarrow> process" where
  "drop_guard os guard p = (case guard of Some path \<Rightarrow> fs_remove os path p | None \<Rightarrow> p)"

definition DaemonAdapter_new :: "DaemonConfig \<Rightarrow> KernelError + DaemonAdapter" where
  "DaemonAdapter_new c =
     (if dc_name c = []
      then Inl (KE_Subsystem ConfigInvalid ''daemon'' ''daemon name must not be empty'')
      else Inr \<lparr>da_config = c, da_pid_file = None\<rparr>)"

text \<open>
  \<open>daemonize\<close> consumes the adapter: on an error it is dropped, and with it the guard it holds. Storing
  the new guard drops the one stored before.
\<close>

definition write_pid_file :: "os \<Rightarrow> DaemonAdapter \<Rightarrow> process \<Rightarrow> (KernelError + DaemonAdapter) \<times> process" where
  "write_pid_file os a p =
     (case dc_pid_file (da_config a) of
        None \<Rightarrow> (Inr a, p)
      | Some path \<Rightarrow>
          (case fs_write os path (decimal (os_pid os) @ [char_of (10 :: nat)]) p of
             (Some e, p) \<Rightarrow>
               (Inl (KE_Subsystem ConfigInvalid ''daemon'' (''pid file '' @ path @ '': '' @ e)),
                drop_guard os (da_pid_file a) p)
           | (None, p) \<Rightarrow> (Inr (a\<lparr>da_pid_file := Some path\<rparr>), drop_guard os (da_pid_file a) p)))"

definition daemonize :: "os \<Rightarrow> DaemonAdapter \<Rightarrow> process \<Rightarrow> (KernelError + DaemonAdapter) \<times> process" where
  "daemonize os a p =
     (case dc_working_dir (da_config a) of
        None \<Rightarrow> write_pid_file os a p
      | Some dir \<Rightarrow>
          (case set_current_dir os dir p of
             (Some e, p) \<Rightarrow>
               (Inl (KE_Subsystem ConfigInvalid ''daemon'' (''working dir '' @ dir @ '': '' @ e)),
                drop_guard os (da_pid_file a) p)
           | (None, p) \<Rightarrow> write_pid_file os a p))"

text \<open>\<open>run\<close>: the guard goes when the kernel has returned, or with the adapter when the kernel unwinds.\<close>

inductive daemon_run ::
    "'e environment \<Rightarrow> os \<Rightarrow> DaemonAdapter \<Rightarrow> 'e Kernel \<times> process \<Rightarrow>
     (KernelError + unit) unwind \<Rightarrow> 'e Kernel \<times> process \<Rightarrow> bool" for env os a where
  hosted: "kernel_run env (Kernel_install_signal_handler k) r k' \<Longrightarrow>
    daemon_run env os a (k, p) r (k', drop_guard os (da_pid_file a) p)"

inductive_cases daemon_runE: "daemon_run env os a kp r kp'"

section \<open>The PID file\<close>

lemmas fs_defs = set_current_dir_def fs_write_def fs_remove_def drop_guard_def write_pid_file_def daemonize_def


text \<open>
  Setting up the same adapter twice loses the PID file: the second call writes the file, then drops the guard
  of the first, which removes what was just written. The adapter goes on as if the file were there.
\<close>

theorem daemonize_twice_loses_pid_file:
  assumes "dc_pid_file (da_config a) = Some path" and "dc_working_dir (da_config a) = None"
    and "os_remove os (os_resolve os (pr_cwd p) path) = None" and "os_write os (os_resolve os (pr_cwd p) path) = None"
  shows "\<exists>a1 p1 p2. daemonize os a p = (Inr a1, p1) \<and> daemonize os a1 p1 = (Inr a1, p2) \<and>
    da_pid_file a1 = Some path \<and> pr_files p2 (os_resolve os (pr_cwd p2) path) = None"
  using assms by (cases "da_pid_file a") (auto simp: fs_defs Let_def)

definition demo_os :: os where
  "demo_os = \<lparr>os_chdir = (\<lambda>d. None), os_write = (\<lambda>f. None), os_remove = (\<lambda>f. None),
     os_resolve = (\<lambda>cwd path. cwd @ ''/'' @ path), os_pid = 42\<rparr>"

theorem daemonize_twice_loses_pid_file_witness:
  "\<exists>a1 p1 p2. daemonize demo_os \<lparr>da_config = config_pid_file ''svc.pid'' (DaemonConfig_new ''svc''), da_pid_file = None\<rparr>
       \<lparr>pr_cwd = ''/run'', pr_files = (\<lambda>f. None)\<rparr> = (Inr a1, p1) \<and>
     daemonize demo_os a1 p1 = (Inr a1, p2) \<and> pr_files p2 (os_resolve demo_os (pr_cwd p2) ''svc.pid'') = None"
  using daemonize_twice_loses_pid_file [of "\<lparr>da_config = config_pid_file ''svc.pid'' (DaemonConfig_new ''svc''), da_pid_file = None\<rparr>"
      "''svc.pid''" demo_os "\<lparr>pr_cwd = ''/run'', pr_files = (\<lambda>f. None)\<rparr>"]
  by (auto simp: demo_os_def config_pid_file_def DaemonConfig_new_def)

lemma some_run: "\<exists>r k'. kernel_run env k r k'"
proof (cases "Kernel_boot env k")
  case (Pair rb k1)
  show ?thesis
  proof (cases rb)
    case (Inl e)
    then show ?thesis
      using Pair kernel_run.boot_failed by blast
  next
    case (Inr u)
    then have b: "Kernel_boot env k = (Inr (), k1)"
      using Pair by simp
    show ?thesis
    proof (cases "supervised k1")
      case True
      then show ?thesis
        using kernel_run.exec_failed [OF b] exec_phase.no_runtime by blast
    next
      case False
      then obtain i where i: "beside (kn_inner k1) i" "ShutdownHandle_is_signalled (ki_shutdown i)"
        using raised_beside [of "kn_inner k1"] by (auto simp: supervised_def)
      obtain r k2 where "stop_kernel env (k1\<lparr>kn_inner := i\<rparr>) = (r, k2)"
        by (cases "stop_kernel env (k1\<lparr>kn_inner := i\<rparr>)")
      with kernel_run.finished [OF b exec_phase.hooks_skipped [OF False i]] show ?thesis
        by blast
    qed
  qed
qed


end
