(* ===== verification/Demos.thy ===== *)
theory Demos
  imports Kernel_Liveness Event_Delivery
begin

text \<open>
  The programs of examples/: \<open>minimal.rs\<close>, \<open>workers.rs\<close> and \<open>full.rs\<close>, as uses of the kernel. Each builds a kernel, subscribes printing
  handlers, lets a thread call \<open>shutdown\<close> later, and runs the kernel; what they print is a function of the event. The
  thread and the handlers are part of what goes on beside the kernel.
\<close>

section \<open>A main function\<close>

text \<open>\<open>build().map_err(..)?\<close>, what is set up on the kernel, and \<open>run\<close>; there is no kernel when the build is refused.\<close>

definition build_failed :: "(string \<Rightarrow> string \<Rightarrow> string) \<Rightarrow> BuildError \<Rightarrow> KernelError" where
  "build_failed tr e = KE_Internal Internal (''build failed: '' @ BuildError_fmt tr e)"

definition demo_main ::
    "'e KernelBuilder \<Rightarrow> ('e Kernel \<Rightarrow> 'e Kernel) \<Rightarrow> 'e environment \<Rightarrow> instant \<Rightarrow> (KernelError + unit) unwind \<Rightarrow>
     'e Kernel option \<Rightarrow> bool" where
  "demo_main kb prepare env now r k' \<longleftrightarrow>
     (case Kernel_build now kb of
        None \<Rightarrow> False
      | Some (Inl e) \<Rightarrow> r = Returned (Inl (build_failed (en_translate env) e)) \<and> k' = None
      | Some (Inr k) \<Rightarrow> (\<exists>k2. kernel_run env (prepare k) r k2 \<and> k' = Some k2))"

section \<open>minimal.rs\<close>

definition minimal_builder :: "'e KernelBuilder" where
  "minimal_builder = KernelBuilder_new ''minimal''"

definition minimal_topics :: "string list" where
  "minimal_topics =
     [''kernel.lifecycle.booting'', ''kernel.lifecycle.loading'', ''kernel.lifecycle.running'', ''kernel.lifecycle.stopping'',
      ''kernel.lifecycle.stopped'', ''kernel.lifecycle.shutdown_started'', ''kernel.lifecycle.shutdown_completed'']"

fun minimal_line :: "(duration \<Rightarrow> string) \<Rightarrow> KernelEvent \<Rightarrow> string option" where
  "minimal_line dbg (Lifecycle (Transition f t _)) = Some (''transition '' @ KernelState_fmt f @ '' -> '' @ KernelState_fmt t)"
| "minimal_line dbg (Lifecycle (ShutdownStarted _)) = Some ''shutdown: started''"
| "minimal_line dbg (Lifecycle (ShutdownCompleted d _ _ _)) = Some (''shutdown: completed in '' @ dbg d)"
| "minimal_line dbg _ = None"

text \<open>The world of the printing handlers is what has been printed.\<close>

definition prints :: "('h \<Rightarrow> KernelEvent \<Rightarrow> string option) \<Rightarrow> 'h \<Rightarrow> KernelEvent \<Rightarrow> string list \<Rightarrow> string list handler_result" where
  "prints line h e out = Finished (out @ (case line h e of Some l \<Rightarrow> [l] | None \<Rightarrow> []))"

definition minimal_dispatcher :: "unit dispatcher" where
  "minimal_dispatcher = fold (\<lambda>topic d. snd (EventHandle_subscribe topic () d)) minimal_topics EventDispatcher_new"

section \<open>workers.rs\<close>

definition heartbeat_spec :: WorkerSpec where
  "heartbeat_spec = spec_heartbeat (from_secs 2) (spec_restart_on_failure (spec_critical (WorkerSpec_new ''heartbeat'')))"

definition flakey_spec :: WorkerSpec where
  "flakey_spec = spec_backoff_exponential (from_millis 100) (from_secs 2)
     (spec_restart_max_retries 5 (from_secs 10) (spec_optional (WorkerSpec_new ''flakey'')))"

definition workers_builder :: "'e KernelBuilder" where
  "workers_builder = with_worker flakey_spec (with_async_worker heartbeat_spec (KernelBuilder_new ''workers-demo''))"

text \<open>The result of run number \<open>n\<close>; after the third it only returns when it is cancelled.\<close>

definition flakey_run :: "nat \<Rightarrow> WorkerError + unit" where
  "flakey_run n = (if n < 3 then Inl (WorkerError_new (''flakey failure #'' @ decimal (n + 1))) else Inr ())"

definition workers_topics :: "string list" where
  "workers_topics =
     [''kernel.worker.started'', ''kernel.worker.failed'', ''kernel.worker.restarted'', ''kernel.worker.stopped'']"

fun workers_line :: "KernelEvent \<Rightarrow> string option" where
  "workers_line (Worker event) = Some (''[supervisor] '' @ WorkerLifecycleEvent_kind (wev_event event))"
| "workers_line _ = None"

definition workers_dispatcher :: "unit dispatcher" where
  "workers_dispatcher = fold (\<lambda>topic d. snd (EventHandle_subscribe topic () d)) workers_topics EventDispatcher_new"

section \<open>full.rs\<close>

datatype AppError = Storage string | Auth string

fun AppError_fmt :: "AppError \<Rightarrow> string" where
  "AppError_fmt (Storage msg) = ''storage failure: '' @ msg"
| "AppError_fmt (Auth msg) = ''auth failure: '' @ msg"

text \<open>An error that is no \<open>AppError\<close> is on the right: there the downcast yields nothing.\<close>

fun AppClassifier :: "(AppError + 'o) ErrorClassifier" where
  "AppClassifier (Inl (Storage _)) =
     \<lparr>cl_severity = Critical, cl_action = EnterReadOnlyMode, cl_event_topic = Some ''app.storage.failure''\<rparr>"
| "AppClassifier (Inl (Auth _)) = \<lparr>cl_severity = Warning, cl_action = LogOnly, cl_event_topic = None\<rparr>"
| "AppClassifier (Inr _) = Classification_default"

definition ConfigSubsystem :: Subsystem where
  "ConfigSubsystem = subsystem_defaults ''config'' [''events''] (Returned (Inr ()))"

text \<open>What the subsystem does through its context: it reports itself healthy when it boots.\<close>

definition config_effect :: "(SubsystemCall \<Rightarrow> instant) \<Rightarrow> SubsystemCall \<Rightarrow> 'e KernelInner \<Rightarrow> 'e KernelInner" where
  "config_effect call_at c i =
     (if c = BootCall ''config''
      then let (h, fx) = HealthHandle_report ''config'' H_Healthy (call_at c) (ki_health i)
           in i\<lparr>ki_health := h, ki_log := ki_log i @ fx\<rparr>
      else i)"

definition work_unit_spec :: WorkerSpec where
  "work_unit_spec = spec_circuit CircuitPolicy_default (spec_heartbeat (from_secs 2)
     (spec_restart_on_failure (spec_essential (WorkerSpec_new ''work-unit''))))"

text \<open>The hook sleeps for 100 ms under the time-out it is given.\<close>

definition FlushHook :: hook where
  "FlushHook = \<lparr>hk_name = ''flush'',
     hk_run = (\<lambda>deadline d. if d < from_millis 100 then HookTimedOut else HookReturned (Inr ()))\<rparr>"

definition full_builder :: "(AppError + 'o) KernelBuilder" where
  "full_builder = with_shutdown_grace (from_secs 5) (with_async_worker work_unit_spec (with_metrics_backend
     (with_error_classifier AppClassifier (with_subsystem ConfigSubsystem (KernelBuilder_new ''full-demo'')))))"

definition full_prepare :: "'e Kernel \<Rightarrow> 'e Kernel" where
  "full_prepare k = Kernel_install_signal_handler (Kernel_register_shutdown_hook FlushHook k)"

text \<open>Each subscription has a handler of its own; the handler is what it prints for an event.\<close>

definition full_subscriptions :: "(string \<times> (KernelEvent \<Rightarrow> string option)) list" where
  "full_subscriptions =
     [(''kernel.worker.started'', \<lambda>e. case e of Worker _ \<Rightarrow> Some ''[worker] started'' | _ \<Rightarrow> None),
      (''kernel.lifecycle.shutdown_started'', \<lambda>_. Some ''[lifecycle] shutdown started''),
      (''kernel.lifecycle.shutdown_completed'', \<lambda>_. Some ''[lifecycle] shutdown completed'')]"

definition full_dispatcher :: "(KernelEvent \<Rightarrow> string option) dispatcher" where
  "full_dispatcher = fold (\<lambda>(topic, h) d. snd (EventHandle_subscribe topic h d)) full_subscriptions EventDispatcher_new"

section \<open>What they show\<close>

text \<open>
  \<open>minimal.rs\<close> prints one line for each step of an undisturbed life. In \<open>workers.rs\<close> the flakey worker fails three times
  within its budget of five, waits twice as long before each run, and then stays. In \<open>full.rs\<close> an application error reaches
  the application's own classification, and an error of another type the default.
\<close>

lemma subscribed_each:
  "distinct (keys ts) \<Longrightarrow> emit_handlers e (fold (\<lambda>(t, h) d. snd (subscribe t h d)) ts dispatcher_new) =
     (case map_of ts (KernelEvent_topic e) of Some h \<Rightarrow> [h] | None \<Rightarrow> [])"
proof (induction ts rule: rev_induct)
  case Nil
  then show ?case
    by (simp add: emit_handlers_def dispatcher_new_def)
next
  case (snoc x ts)
  obtain t h where x: "x = (t, h)"
    by (cases x)
  have "map_of ts t = None"
    using snoc.prems by (simp add: x map_of_eq_None_iff)
  then show ?case
    using snoc by (auto simp: x map_add_def emit_handlers_def subscribe_def Let_def split: option.splits if_splits)
qed

lemma subscribed_once:
  assumes "distinct ts"
  shows "emit_handlers e (fold (\<lambda>t d. snd (subscribe t h d)) ts dispatcher_new) =
     (if KernelEvent_topic e \<in> set ts then [h] else [])"
  using subscribed_each [of "map (\<lambda>t. (t, h)) ts" e] assms
  by (auto simp: fold_map comp_def map_of_map_restrict restrict_map_def)

lemma minimal_prints:
  "deliver (prints (\<lambda>_. minimal_line dbg)) minimal_dispatcher
     (map (Emit \<circ> Lifecycle) [Transition Created Booting t1, Transition Booting Loading t2, Transition Loading Running t3,
        ShutdownStarted t4, ShutdownCompleted d 0 0 t5, Transition Running Stopping t6, Transition Stopping Stopped t7]) [] =
   [''transition CREATED -> BOOTING'', ''transition BOOTING -> LOADING'', ''transition LOADING -> RUNNING'',
    ''shutdown: started'', ''shutdown: completed in '' @ dbg d, ''transition RUNNING -> STOPPING'',
    ''transition STOPPING -> STOPPED'']"
proof -
  have handlers: "emit_handlers e minimal_dispatcher = (if KernelEvent_topic e \<in> set minimal_topics then [()] else [])" for e
    unfolding minimal_dispatcher_def EventHandle_subscribe_def EventDispatcher_new_def
    by (rule subscribed_once) (simp add: minimal_topics_def)
  have "emit (prints (\<lambda>_. minimal_line dbg)) e minimal_dispatcher out =
      out @ (if KernelEvent_topic e \<in> set minimal_topics then (case minimal_line dbg e of Some l \<Rightarrow> [l] | None \<Rightarrow> []) else [])"
    for e out
    by (simp add: emit_def handlers prints_def)
  then show ?thesis
    by (simp add: deliver_def minimal_topics_def lifecycle_topic_def)
qed

lemma workers_print:
  "deliver (prints (\<lambda>_. workers_line)) workers_dispatcher (map (Emit \<circ> Worker \<circ> WorkerEvent_new) es) out =
   out @ [''[supervisor] '' @ WorkerLifecycleEvent_kind e.
            e \<leftarrow> es, WorkerLifecycleEvent_kind e \<in> {''started'', ''failed'', ''restarted'', ''stopped''}]"
proof -
  have handlers: "emit_handlers e workers_dispatcher = (if KernelEvent_topic e \<in> set workers_topics then [()] else [])" for e
    unfolding workers_dispatcher_def EventHandle_subscribe_def EventDispatcher_new_def
    by (rule subscribed_once) (simp add: workers_topics_def)
  have topic: "worker_topic (WorkerLifecycleEvent_kind e) \<in> set workers_topics \<longleftrightarrow>
      WorkerLifecycleEvent_kind e \<in> {''started'', ''failed'', ''restarted'', ''stopped''}" for e
    by (cases e) (simp_all add: workers_topics_def worker_topic_def)
  show ?thesis
    by (induction es arbitrary: out) (auto simp: deliver_def emit_def handlers topic prints_def WorkerEvent_new_def)
qed

lemma flakey_backoff:
  "map (\<lambda>n. backoff_delay n (ws_backoff flakey_spec)) [1, 2, 3] = map from_millis [200, 400, 800]"
  by (simp add: flakey_spec_def spec_backoff_exponential_def backoff_exponential from_millis_def from_secs_def duration_max_value
      nanos_per_sec_def del: backoff_delay.simps)

lemma flakey_settles:
  assumes s: "crashing w 5 0 None s" and ok: "valid_unix (unix_of r1)" "valid_unix (unix_of r2)" "valid_unix (unix_of r3)"
      "\<not> rd_cancelled_in_backoff r1" "\<not> rd_cancelled_in_backoff r2" "\<not> rd_cancelled_in_backoff r3"
    and near: "unix_of r2 - unix_of r1 \<le> one_minute" "unix_of r3 - unix_of r2 \<le> one_minute"
    and runs: "map flakey_run [0, 1, 2] = map Inl [e1, e2, e3]"
  shows "in_flight w (crash w e3 r3 (crash w e2 r2 (crash w e1 r1 s))) \<and> flakey_run 3 = Inr ()"
proof -
  have "crashing w 5 (Suc 0) (Some (unix_of r1)) (crash w e1 r1 s)"
    using crash_step [OF s ok(1,4), of e1] by simp
  from crash_step [OF this ok(2,5), of e2]
  have "crashing w 5 (Suc (Suc 0)) (Some (unix_of r2)) (crash w e2 r2 (crash w e1 r1 s))"
    using ok(1) near(1) by (simp add: one_minute_def)
  from crash_step [OF this ok(3,6), of e3] show ?thesis
    using ok(2) near(2) by (simp add: one_minute_def crashing_def flakey_run_def)
qed

lemma full_prints:
  "emit (prints (\<lambda>h. h)) e full_dispatcher out = out @
     (case e of
        Worker w \<Rightarrow> if WorkerLifecycleEvent_kind (wev_event w) = ''started'' then [''[worker] started''] else []
      | Lifecycle (ShutdownStarted _) \<Rightarrow> [''[lifecycle] shutdown started'']
      | Lifecycle (ShutdownCompleted _ _ _ _) \<Rightarrow> [''[lifecycle] shutdown completed'']
      | _ \<Rightarrow> [])" if "case e of Worker _ \<Rightarrow> True | Lifecycle _ \<Rightarrow> True | _ \<Rightarrow> False"
proof -
  have handlers: "emit_handlers ev full_dispatcher =
      (case map_of full_subscriptions (KernelEvent_topic ev) of Some h \<Rightarrow> [h] | None \<Rightarrow> [])" for ev
    unfolding full_dispatcher_def EventHandle_subscribe_def EventDispatcher_new_def
    by (rule subscribed_each) (simp add: full_subscriptions_def)
  show ?thesis
  proof (cases e)
    case (Lifecycle l)
    then show ?thesis
      by (cases l; cases "case l of Transition f t n \<Rightarrow> t | _ \<Rightarrow> Created")
        (simp_all add: emit_def handlers prints_def full_subscriptions_def lifecycle_topic_def)
  next
    case (Worker w)
    then show ?thesis
      by (cases "wev_event w") (simp_all add: emit_def handlers prints_def full_subscriptions_def worker_topic_def)
  qed (use that in auto)
qed

lemma full_classifies:
  assumes "Kernel_build now full_builder = Some (Inr k)"
  shows "ErrorHandle_classify (ki_errors (kn_inner (full_prepare k))) err = AppClassifier err"
proof -
  obtain i where i: "k = Kernel_from_inner i" "build now full_builder = Some (Inr i)"
    using assms by (rule built_inner)
  obtain subs where "i = assemble now full_builder subs"
    using built_by [OF i(2)] by metis
  then have "ki_errors (kn_inner k) = ErrorRegistry_with_classifier AppClassifier"
    by (simp add: i(1) Kernel_from_inner_def assemble_def full_builder_def with_error_classifier_def with_subsystem_def
        with_metrics_backend_def with_async_worker_def with_shutdown_grace_def)
  then show ?thesis
    by (simp add: full_prepare_def Kernel_install_signal_handler_def Kernel_register_shutdown_hook_def on_inner_def
        ErrorHandle_classify_def ErrorRegistry_classify_def ErrorRegistry_with_classifier_def)
qed

section \<open>Their boot orders\<close>

lemma kahn_Nil: "kahn g ind [] order = Some (ind, order)"
  by (subst kahn.simps) simp

lemma kahn_Cons:
  "kahn g ind (n # q) order =
     (let (ind, q) = fold visit_child (children g n) (ind, q) in kahn g ind q (order @ [n]))"
  by (subst kahn.simps) simp

lemmas builtin_defs = boxed_builtins_def subsystem_defaults_def LifecycleSubsystem_def EventSubsystem_def ErrorSubsystem_def
  HealthSubsystem_def MetricsSubsystem_def WorkerSubsystem_def ShutdownSubsystem_def

lemmas demo_builders = minimal_builder_def workers_builder_def full_builder_def KernelBuilder_new_def with_worker_def
  with_async_worker_def with_subsystem_def with_error_classifier_def with_metrics_backend_def with_shutdown_grace_def

lemma builtin_order:
  "topo_sort boxed_builtins = Some (Inr [''lifecycle'', ''events'', ''metrics'', ''errors'', ''health'', ''shutdown'', ''workers''])"
  by (simp add: topo_sort_def build_graph_def builtin_defs add_node_def add_edge_def kahn_Nil kahn_Cons visit_child_def Let_def
      degree_def children_def)

lemma full_order:
  "topo_sort (boxed_builtins @ [ConfigSubsystem]) =
     Some (Inr [''lifecycle'', ''events'', ''metrics'', ''errors'', ''health'', ''shutdown'', ''config'', ''workers''])"
  by (simp add: topo_sort_def build_graph_def builtin_defs ConfigSubsystem_def add_node_def add_edge_def kahn_Nil kahn_Cons
      visit_child_def Let_def degree_def children_def)

section \<open>Their runs\<close>

definition demo_program :: "(AppError + 'o) KernelBuilder \<Rightarrow> ((AppError + 'o) Kernel \<Rightarrow> (AppError + 'o) Kernel) \<Rightarrow> string list \<Rightarrow> bool" where
  "demo_program kb prepare order \<longleftrightarrow>
     prepare = id \<and> (kb = minimal_builder \<or> kb = workers_builder) \<and>
       order = [''lifecycle'', ''events'', ''metrics'', ''errors'', ''health'', ''shutdown'', ''workers''] \<or>
     prepare = full_prepare \<and> kb = full_builder \<and>
       order = [''lifecycle'', ''events'', ''metrics'', ''errors'', ''health'', ''shutdown'', ''config'', ''workers'']"

lemma sorted_builds:
  assumes name: "kb_name kb \<noteq> []" and wd: "well_declared (combined_subsystems kb)"
    and sort: "topo_sort (combined_subsystems kb) = Some (Inr order)"
  obtains k where "Kernel_build now kb = Some (Inr k)" "map ss_name (kernel_subsystems k) = order"
    "set (kernel_subsystems k) = set (combined_subsystems kb)"
proof (cases rule: build_cases [of now kb])
  case (early e)
  then show ?thesis
    using name wd by blast
next
  case sorts
  have dist: "distinct (map ss_name (combined_subsystems kb))"
    using wd by (simp only: well_declared_def)
  have "distinct order" "set order = set (map ss_name (combined_subsystems kb))"
    using sort_outcome [OF wd] sort by auto
  note perm = reorder_permutes [OF dist this]
  let ?i = "assemble now kb (reorder (combined_subsystems kb) order)"
  have "build now kb = Some (Inr ?i)"
    using sorts(3) sort by simp
  then show ?thesis
    using perm mset_eq_setD [OF perm(2)]
    by (intro that [of "Kernel_from_inner ?i"]) (simp_all add: Kernel_build_def Kernel_from_inner_def assemble_def)
qed

lemma demo_subsystems:
  assumes "demo_program kb prepare order"
  shows "kb_name kb \<noteq> []" "topo_sort (combined_subsystems kb) = Some (Inr order)" "well_declared (combined_subsystems kb)"
    "length (kb_workers kb) < 2 ^ 64"
    "\<And>s. s \<in> set (combined_subsystems kb) \<Longrightarrow> boot_result s = Inr () \<and> load_result s = Inr () \<and> shutdown_result s = Inr ()"
proof -
  have subs: "combined_subsystems kb = boxed_builtins \<or> combined_subsystems kb = boxed_builtins @ [ConfigSubsystem]"
    using assms by (auto simp: demo_program_def demo_builders)
  show "kb_name kb \<noteq> []" "length (kb_workers kb) < 2 ^ 64"
    using assms by (auto simp: demo_program_def demo_builders)
  show "topo_sort (combined_subsystems kb) = Some (Inr order)"
    using assms builtin_order full_order by (auto simp: demo_program_def demo_builders)
  have "well_declared boxed_builtins" "well_declared (boxed_builtins @ [ConfigSubsystem])"
    by (simp_all add: well_declared_def builtin_defs ConfigSubsystem_def)
  then show "well_declared (combined_subsystems kb)"
    using subs by auto
  show "boot_result s = Inr () \<and> load_result s = Inr () \<and> shutdown_result s = Inr ()" if "s \<in> set (combined_subsystems kb)" for s
    using subs that by (auto simp: builtin_defs ConfigSubsystem_def boot_result_def load_result_def shutdown_result_def caught_def)
qed

lemma demo_builds:
  assumes "demo_program kb prepare order"
  obtains k where "Kernel_build now kb = Some (Inr k)" "fresh_kernel (prepare k)"
    "map ss_name (kernel_subsystems (prepare k)) = order" "length (ki_workers (kn_inner (prepare k))) < 2 ^ 64"
    "\<And>s. s \<in> set (kernel_subsystems (prepare k)) \<Longrightarrow> boot_result s = Inr () \<and> load_result s = Inr () \<and> shutdown_result s = Inr ()"
proof -
  note d = demo_subsystems [OF assms]
  obtain k where k: "Kernel_build now kb = Some (Inr k)" "map ss_name (kernel_subsystems k) = order"
    "set (kernel_subsystems k) = set (combined_subsystems kb)"
    using sorted_builds [OF d(1,3,2)] .
  have "prepare = id \<or> prepare = full_prepare"
    using assms by (auto simp: demo_program_def)
  then have p: "kernel_subsystems (prepare k) = kernel_subsystems k" "ki_workers (kn_inner (prepare k)) = ki_workers (kn_inner k)"
    "fresh_kernel (prepare k) = fresh_kernel k"
    by (auto simp: full_prepare_def Kernel_install_signal_handler_def Kernel_register_shutdown_hook_def on_inner_def
        fresh_kernel_def kernel_state_def)
  show ?thesis
    using k d(4,5) built_fresh(1,2) [OF k(1)] by (intro that [of k]) (simp_all add: p)
qed


section \<open>A run that stops\<close>

lemma config_context_only: "context_only (env\<lparr>en_effect := config_effect call_at\<rparr>)"
  by (simp add: context_only_def through_context_def config_effect_def beside_def case_prod_beta Let_def)

text \<open>Flushing either fits the rest of the grace period or is timed out; it never panics.\<close>

lemma flush_report: "fst (coordinator_shutdown tr dbg clock (co\<lparr>co_hooks := hs\<rparr>)) = None \<longleftrightarrow>
    \<not> co_completed co \<and> instant_plus (sc_std_started clock) (co_grace co) = None" if "set hs \<subseteq> {FlushHook}"
proof -
  have "run_hooks tr dbg deadline now i hs ok bad \<noteq> None" for deadline now i ok bad
    using that by (induction hs arbitrary: i ok bad) (auto simp: FlushHook_def Let_def)
  then show ?thesis
    by (auto simp: coordinator_shutdown_def Let_def simp del: not_None_eq split: option.split)
qed


end
