(* ===== verification/Tests_Prelude.thy ===== *)
theory Tests_Prelude
  imports Kernel_Prelude "HOL-Library.Multiset"
begin

text \<open>
  What the unit tests of the crate use of the standard library. In the \<open>Tests_\<close> theories a test is a boolean: its calls
  in the order of the source, its assertions as conjuncts. The readings of the clock and what other crates
  return are its arguments, and what the test takes for granted of them is a premise of the lemma that it passes. Tests of Debug output, of
  marker traits and of conversions that the model does not have (boxing, cloning a reference) have no counterpart.
\<close>

text \<open>\<open>str::contains\<close>, \<open>starts_with\<close>, \<open>ends_with\<close>, \<open>to_lowercase\<close> on ASCII text.\<close>

fun contains :: "string \<Rightarrow> string \<Rightarrow> bool" where
  "contains [] needle \<longleftrightarrow> needle = []"
| "contains (c # cs) needle \<longleftrightarrow> take (length needle) (c # cs) = needle \<or> contains cs needle"

definition starts_with :: "string \<Rightarrow> string \<Rightarrow> bool" where
  "starts_with s p \<longleftrightarrow> take (length p) s = p"

definition ends_with :: "string \<Rightarrow> string \<Rightarrow> bool" where
  "ends_with s p \<longleftrightarrow> starts_with (rev s) (rev p)"

definition lower_char :: "char \<Rightarrow> char" where
  "lower_char c = (if 65 \<le> (of_char c :: nat) \<and> (of_char c :: nat) \<le> 90 then char_of ((of_char c :: nat) + 32) else c)"

definition to_lowercase :: "string \<Rightarrow> string" where
  "to_lowercase = map lower_char"

text \<open>\<open>HashSet::insert\<close> answers true on every element: the list is distinct.\<close>

definition all_inserted :: "'a list \<Rightarrow> bool" where
  "all_inserted xs \<longleftrightarrow> distinct xs"

lemma contains_Nil [simp]: "contains s []"
  by (cases s) simp_all

lemma contains_append: "contains ys n \<Longrightarrow> contains (xs @ ys) n"
  by (induction xs) simp_all

lemma contains_prefix: "contains (n @ ys) n"
  by (cases n) simp_all

lemma contains_infix: "contains (xs @ n @ ys) n"
  by (rule contains_append [OF contains_prefix])

lemma contains_suffix: "contains (xs @ n) n"
  using contains_infix [of xs n "[]"] by simp

lemma starts_with_append [simp]: "starts_with (p @ s) p"
  by (simp add: starts_with_def)

end
