(* ===== verification/Tests_Primitives.thy ===== *)
theory Tests_Primitives
  imports Primitives Tests_Prelude
begin

text \<open>
  The unit tests of src/primitives (time.rs, id.rs, global.rs), evaluated on the model.
\<close>

section \<open>time.rs\<close>

definition test_instant_now_increases_across_calls :: "instant \<Rightarrow> instant \<Rightarrow> bool" where
  "test_instant_now_increases_across_calls a b \<longleftrightarrow> b > a"

definition test_instant_duration_since_is_close_to_sleep :: "instant \<Rightarrow> instant \<Rightarrow> bool" where
  "test_instant_duration_since_is_close_to_sleep a b \<longleftrightarrow> Instant_duration_since b a \<ge> from_millis 8"

definition test_instant_checked_add_returns_some_for_normal_durations :: "instant \<Rightarrow> bool" where
  "test_instant_checked_add_returns_some_for_normal_durations a \<longleftrightarrow> Instant_checked_add a (from_secs 1) \<noteq> None"

definition test_instant_checked_add_returns_none_on_overflow :: "instant \<Rightarrow> bool" where
  "test_instant_checked_add_returns_none_on_overflow a \<longleftrightarrow> Instant_checked_add a duration_max = None"

definition test_instant_checked_sub_returns_some_for_normal_durations :: "instant \<Rightarrow> bool" where
  "test_instant_checked_sub_returns_some_for_normal_durations a \<longleftrightarrow> Instant_checked_sub a (from_millis 1) \<noteq> None"

definition test_instant_checked_sub_returns_none_when_before_epoch :: "instant \<Rightarrow> bool" where
  "test_instant_checked_sub_returns_none_when_before_epoch a \<longleftrightarrow> Instant_checked_sub a duration_max = None"

definition test_deadline_from_zero_is_immediately_expired :: "instant \<Rightarrow> instant \<Rightarrow> instant \<Rightarrow> bool" where
  "test_deadline_from_zero_is_immediately_expired now t1 t2 \<longleftrightarrow>
     (let d = Deadline_from_now now 0 in Deadline_is_expired t1 d \<and> Deadline_remaining t2 d = None)"

definition test_deadline_from_huge_is_not_expired :: "instant \<Rightarrow> instant \<Rightarrow> instant \<Rightarrow> bool" where
  "test_deadline_from_huge_is_not_expired now t1 t2 \<longleftrightarrow>
     (let d = Deadline_from_now now (from_secs 3600)
      in \<not> Deadline_is_expired t1 d \<and>
         (case Deadline_remaining t2 d of None \<Rightarrow> False
          | Some remaining \<Rightarrow> remaining > from_secs 3590 \<and> remaining \<le> from_secs 3600))"

definition test_deadline_is_expired_consistency :: "instant \<Rightarrow> instant \<Rightarrow> instant \<Rightarrow> bool" where
  "test_deadline_is_expired_consistency now t1 t2 \<longleftrightarrow>
     (let d = Deadline_from_now now (from_millis 1) in Deadline_is_expired t1 d \<and> Deadline_remaining t2 d = None)"

definition test_deadline_new_from_explicit_instant :: "instant \<Rightarrow> instant \<Rightarrow> bool" where
  "test_deadline_new_from_explicit_instant now t1 \<longleftrightarrow>
     (case Instant_checked_add now (from_secs 30) of None \<Rightarrow> False
      | Some at \<Rightarrow> (let d = Deadline_new at
          in \<not> Deadline_is_expired t1 d \<and> Some (dl_instant d) = Instant_checked_add now (from_secs 30)))"

definition test_interval_period_round_trips :: bool where
  "test_interval_period_round_trips \<longleftrightarrow> (let i = Interval_new (from_millis 250) in iv_period i = from_millis 250)"

lemmas time_test_simps = time_defs deadline_defs from_secs_def from_millis_def nanos_per_sec_def Interval_new_def
  instant_max_def instant_min_def duration_max_def Let_def

lemma now_increases_passes: "a + 2000000 \<le> b \<Longrightarrow> test_instant_now_increases_across_calls a b"
  by (simp add: test_instant_now_increases_across_calls_def)

lemma duration_since_passes: "a + 10000000 \<le> b \<Longrightarrow> test_instant_duration_since_is_close_to_sleep a b"
  by (simp add: test_instant_duration_since_is_close_to_sleep_def time_test_simps)

lemma checked_add_passes:
  "a + 1000000000 \<le> instant_max \<Longrightarrow> test_instant_checked_add_returns_some_for_normal_durations a"
  "instant_min < a \<Longrightarrow> test_instant_checked_add_returns_none_on_overflow a"
  by (simp_all add: test_instant_checked_add_returns_some_for_normal_durations_def
        test_instant_checked_add_returns_none_on_overflow_def time_test_simps)

lemma checked_sub_passes:
  "instant_min + 1000000 \<le> a \<Longrightarrow> test_instant_checked_sub_returns_some_for_normal_durations a"
  "a < instant_max \<Longrightarrow> test_instant_checked_sub_returns_none_when_before_epoch a"
  by (simp_all add: test_instant_checked_sub_returns_some_for_normal_durations_def
        test_instant_checked_sub_returns_none_when_before_epoch_def time_test_simps)

lemma deadline_tests_pass:
  assumes "now \<le> t1" and "t1 \<le> t2" and "now + 3600000000000 \<le> instant_max"
  shows "test_deadline_from_zero_is_immediately_expired now t1 t2"
    and "t2 < now + 10000000000 \<Longrightarrow> test_deadline_from_huge_is_not_expired now t1 t2"
    and "now + 5000000 \<le> t1 \<Longrightarrow> test_deadline_is_expired_consistency now t1 t2"
    and "t1 < now + 30000000000 \<Longrightarrow> test_deadline_new_from_explicit_instant now t1"
  using assms by (simp_all add: test_deadline_from_zero_is_immediately_expired_def test_deadline_from_huge_is_not_expired_def
      test_deadline_is_expired_consistency_def test_deadline_new_from_explicit_instant_def time_test_simps
      zless_nat_eq_int_zless nat_le_iff)

lemma interval_passes: test_interval_period_round_trips
  by (simp add: test_interval_period_round_trips_def time_test_simps)

section \<open>id.rs\<close>

definition test_kernel_ids_are_monotonic :: bool where
  "test_kernel_ids_are_monotonic \<longleftrightarrow>
     (let gen = IdGenerator_new; (a, gen) = next_kernel_id gen; (b, gen) = next_kernel_id gen; (c, gen) = next_kernel_id gen
      in KernelId_as_u64 a < KernelId_as_u64 b \<and> KernelId_as_u64 b < KernelId_as_u64 c)"

definition test_worker_ids_are_monotonic :: bool where
  "test_worker_ids_are_monotonic \<longleftrightarrow>
     (let gen = IdGenerator_new; (a, gen) = next_worker_id gen; (b, gen) = next_worker_id gen
      in WorkerId_as_u64 a < WorkerId_as_u64 b)"

definition test_subsystem_ids_are_monotonic :: bool where
  "test_subsystem_ids_are_monotonic \<longleftrightarrow>
     (let gen = IdGenerator_new; (a, gen) = next_subsystem_id gen; (b, gen) = next_subsystem_id gen
      in SubsystemId_as_u64 a < SubsystemId_as_u64 b)"

definition test_independent_generators_have_independent_sequences :: bool where
  "test_independent_generators_have_independent_sequences \<longleftrightarrow>
     (let g1 = IdGenerator_new; g2 = IdGenerator_new; (a, g1) = next_kernel_id g1; (b, g1) = next_kernel_id g1;
          (c, g2) = next_kernel_id g2
      in KernelId_as_u64 a = 0 \<and> KernelId_as_u64 b = 1 \<and> KernelId_as_u64 c = 0)"

text \<open>\<open>fetch_add\<close> is atomic: the 80000 calls of the eight threads are made in some order, and their ids are those of as many calls in a row.\<close>

definition test_concurrent_generation_is_unique :: bool where
  "test_concurrent_generation_is_unique \<longleftrightarrow>
     (let ids = map WorkerId (fst (take_ids (8 * 10000) IdGenerator_new))
      in distinct ids \<and> card (set ids) = 8 * 10000)"

definition test_default_generator_starts_at_zero :: bool where
  "test_default_generator_starts_at_zero \<longleftrightarrow> WorkerId_as_u64 (fst (next_worker_id IdGenerator_new)) = 0"

lemmas id_test_simps = IdGenerator_new_def id_fetch_add_def next_kernel_id_def next_worker_id_def next_subsystem_id_def
  word_less_nat_alt Let_def

lemma id_tests_pass: test_kernel_ids_are_monotonic test_worker_ids_are_monotonic test_subsystem_ids_are_monotonic
    test_independent_generators_have_independent_sequences test_default_generator_starts_at_zero
  by (simp_all add: test_kernel_ids_are_monotonic_def test_worker_ids_are_monotonic_def test_subsystem_ids_are_monotonic_def
      test_independent_generators_have_independent_sequences_def test_default_generator_starts_at_zero_def id_test_simps)

lemma concurrent_generation_passes: test_concurrent_generation_is_unique
proof -
  have "distinct (fst (take_ids 80000 IdGenerator_new))"
    by (rule take_ids_distinct) simp
  moreover have "length (fst (take_ids 80000 IdGenerator_new)) = 80000"
    by (simp add: take_ids_eq)
  ultimately show ?thesis
    by (simp add: test_concurrent_generation_is_unique_def Let_def distinct_map inj_on_def distinct_card del: set_map)
qed

definition test_display_format_for_each_id_type :: bool where
  "test_display_format_for_each_id_type \<longleftrightarrow>
     KernelId_fmt (KernelId 7) = ''KernelId(7)'' \<and> WorkerId_fmt (WorkerId 42) = ''WorkerId(42)'' \<and>
     SubsystemId_fmt (SubsystemId 3) = ''SubsystemId(3)''"

lemma id_display_test_passes: test_display_format_for_each_id_type
  by (simp add: test_display_format_for_each_id_type_def KernelId_fmt_def WorkerId_fmt_def SubsystemId_fmt_def decimal.simps char_of_def bit_0)

section \<open>global.rs\<close>

definition test_set_first_call_succeeds :: bool where
  "test_set_first_call_succeeds \<longleftrightarrow>
     (let g = Global_new :: u32 Global; (r, g) = Global_set 7 g in r = Inr () \<and> Global_get g = Some 7)"

definition test_set_second_call_returns_err :: bool where
  "test_set_second_call_returns_err \<longleftrightarrow>
     (let g = Global_new :: u32 Global; (r, g) = Global_set 7 g; (r', g) = Global_set 8 g
      in r = Inr () \<and> r' = Inl 8 \<and> Global_get g = Some 7)"

definition test_try_set_matches_set_semantics :: bool where
  "test_try_set_matches_set_semantics \<longleftrightarrow>
     (let g = Global_new; (r, g) = Global_try_set ''first'' g; (r', g) = Global_try_set ''second'' g
      in r = Inr () \<and> r' = Inl ''second'' \<and> Global_get g = Some ''first'')"

definition test_get_returns_none_before_set :: bool where
  "test_get_returns_none_before_set \<longleftrightarrow> (let g = Global_new :: u32 Global in Global_get g = None)"

definition test_is_initialized_flips_on_set :: bool where
  "test_is_initialized_flips_on_set \<longleftrightarrow>
     (let g0 = Global_new :: u32 Global; (r, g) = Global_set 0 g0 in \<not> Global_is_initialized g0 \<and> Global_is_initialized g)"

definition test_get_unchecked_returns_value_after_set :: "string \<Rightarrow> bool" where
  "test_get_unchecked_returns_value_after_set msg \<longleftrightarrow>
     (let g = Global_new :: u32 Global; (r, g) = Global_set 42 g in Global_get_unchecked msg g = Inr 42)"

definition test_get_unchecked_panics_when_uninitialized :: "string \<Rightarrow> bool" where
  "test_get_unchecked_panics_when_uninitialized msg \<longleftrightarrow> (let g = Global_new :: u32 Global in isl (Global_get_unchecked msg g))"

text \<open>The calls of the eight threads take effect one after the other, in some order \<open>ns\<close> of their arguments.\<close>

fun set_all :: "u32 list \<Rightarrow> u32 Global \<Rightarrow> (u32 + unit) list \<times> u32 Global" where
  "set_all [] g = ([], g)"
| "set_all (n # ns) g = (let (r, g) = Global_set n g; (rs, g) = set_all ns g in (r # rs, g))"

definition test_concurrent_set_exactly_one_winner :: "u32 list \<Rightarrow> bool" where
  "test_concurrent_set_exactly_one_winner ns \<longleftrightarrow>
     (let (rs, g) = set_all ns Global_new in length (filter (\<lambda>r. r = Inr ()) rs) = 1 \<and> Global_is_initialized g)"

definition test_default_constructs_uninitialized :: bool where
  "test_default_constructs_uninitialized \<longleftrightarrow> (let g = Global_new :: u32 Global in \<not> Global_is_initialized g)"

lemma global_tests_pass: test_set_first_call_succeeds test_set_second_call_returns_err test_try_set_matches_set_semantics
    test_get_returns_none_before_set test_is_initialized_flips_on_set "test_get_unchecked_returns_value_after_set msg"
    "test_get_unchecked_panics_when_uninitialized msg" test_default_constructs_uninitialized
  by (simp_all add: test_set_first_call_succeeds_def test_set_second_call_returns_err_def test_try_set_matches_set_semantics_def
      test_get_returns_none_before_set_def test_is_initialized_flips_on_set_def test_get_unchecked_returns_value_after_set_def
      test_get_unchecked_panics_when_uninitialized_def test_default_constructs_uninitialized_def global_defs)

lemma set_all_lost: "set_all ns (Some v) = (map Inl ns, Some v)"
  by (induction ns) (simp_all add: global_defs)

lemma concurrent_set_passes:
  assumes "mset ns = mset (map word_of_nat [0..<8])"
  shows "test_concurrent_set_exactly_one_winner ns"
proof (cases ns)
  case Nil
  then show ?thesis
    using mset_eq_length [OF assms] by simp
next
  case (Cons n ns')
  have "set_all ns Global_new = (Inr () # map Inl ns', Some n)"
    by (simp add: Cons set_all_lost global_defs)
  moreover have "filter (\<lambda>r. r = Inr ()) (map Inl ns' :: (u32 + unit) list) = []"
    by (simp add: filter_map)
  ultimately show ?thesis
    by (simp add: test_concurrent_set_exactly_one_winner_def global_defs)
qed

end
