(* ===== verification/Tests_Lifecycle.thy ===== *)
theory Tests_Lifecycle
  imports Event_Delivery Tests_Prelude
begin

text \<open>
  The unit tests of src/lifecycle (phase.rs, state.rs, transition.rs, controller.rs), evaluated on the model.
\<close>

section \<open>phase.rs\<close>

definition all_phases :: "Phase list" where
  "all_phases = [Idle, Boot, Load, Exec, Shutdown]"

definition test_as_str_values_are_unique_in_phase :: bool where
  "test_as_str_values_are_unique_in_phase \<longleftrightarrow>
     all_inserted (map Phase_as_str all_phases) \<and> card (set (map Phase_as_str all_phases)) = length all_phases"

definition test_ordinals_are_unique_and_match_declaration_order :: bool where
  "test_ordinals_are_unique_and_match_declaration_order \<longleftrightarrow>
     (\<forall>(index, phase) \<in> set (enumerate 0 all_phases). unat (Phase_ordinal phase) = index)"

definition test_display_is_uppercase_variant_name_in_phase :: bool where
  "test_display_is_uppercase_variant_name_in_phase \<longleftrightarrow>
     Phase_fmt Idle = ''IDLE'' \<and> Phase_fmt Boot = ''BOOT'' \<and> Phase_fmt Load = ''LOAD'' \<and> Phase_fmt Exec = ''EXEC'' \<and>
     Phase_fmt Shutdown = ''SHUTDOWN''"

definition test_default_is_idle :: bool where
  "test_default_is_idle \<longleftrightarrow> Phase_default = Idle"

definition test_as_str_matches_lowercase_display :: bool where
  "test_as_str_matches_lowercase_display \<longleftrightarrow> (\<forall>phase \<in> set all_phases. Phase_as_str phase = to_lowercase (Phase_fmt phase))"

lemma phase_tests_pass: test_as_str_values_are_unique_in_phase test_ordinals_are_unique_and_match_declaration_order
    test_display_is_uppercase_variant_name_in_phase test_default_is_idle
  by (simp_all add: test_as_str_values_are_unique_in_phase_def test_ordinals_are_unique_and_match_declaration_order_def
      test_display_is_uppercase_variant_name_in_phase_def test_default_is_idle_def all_phases_def all_inserted_def Phase_default_def)

lemma lowercase_display_passes: test_as_str_matches_lowercase_display
  by code_simp

section \<open>state.rs\<close>

definition test_as_str_values_are_unique_in_state :: bool where
  "test_as_str_values_are_unique_in_state \<longleftrightarrow>
     all_inserted (map KernelState_as_str all_states) \<and> card (set (map KernelState_as_str all_states)) = length all_states"

definition test_phase_mapping_per_variant :: bool where
  "test_phase_mapping_per_variant \<longleftrightarrow>
     KernelState_phase Created = Idle \<and> KernelState_phase Booting = Boot \<and> KernelState_phase Loading = Load \<and>
     KernelState_phase Running = Exec \<and> KernelState_phase Degraded = Exec \<and> KernelState_phase Stopping = Shutdown \<and>
     KernelState_phase Stopped = Shutdown \<and> KernelState_phase Failed = Shutdown"

definition test_is_terminal_only_for_stopped_and_failed :: bool where
  "test_is_terminal_only_for_stopped_and_failed \<longleftrightarrow>
     (\<forall>state \<in> set all_states. KernelState_is_terminal state = (state \<in> {Stopped, Failed}))"

definition test_is_running_only_for_running_and_degraded :: bool where
  "test_is_running_only_for_running_and_degraded \<longleftrightarrow>
     (\<forall>state \<in> set all_states. KernelState_is_running state = (state \<in> {Running, Degraded}))"

definition test_default_is_created :: bool where
  "test_default_is_created \<longleftrightarrow> KernelState_default = Created"

definition test_display_is_uppercase_variant_name_in_state :: bool where
  "test_display_is_uppercase_variant_name_in_state \<longleftrightarrow>
     KernelState_fmt Created = ''CREATED'' \<and> KernelState_fmt Booting = ''BOOTING'' \<and> KernelState_fmt Loading = ''LOADING'' \<and>
     KernelState_fmt Running = ''RUNNING'' \<and> KernelState_fmt Degraded = ''DEGRADED'' \<and>
     KernelState_fmt Stopping = ''STOPPING'' \<and> KernelState_fmt Stopped = ''STOPPED'' \<and> KernelState_fmt Failed = ''FAILED''"

lemma state_tests_pass: test_as_str_values_are_unique_in_state test_phase_mapping_per_variant
    test_is_terminal_only_for_stopped_and_failed test_is_running_only_for_running_and_degraded test_default_is_created
    test_display_is_uppercase_variant_name_in_state
  by (simp_all add: test_as_str_values_are_unique_in_state_def test_phase_mapping_per_variant_def
      test_is_terminal_only_for_stopped_and_failed_def test_is_running_only_for_running_and_degraded_def test_default_is_created_def
      test_display_is_uppercase_variant_name_in_state_def all_states_def all_inserted_def KernelState_default_def)

section \<open>transition.rs\<close>

definition expected_legal :: "KernelState \<Rightarrow> KernelState \<Rightarrow> bool" where
  "expected_legal from to \<longleftrightarrow> (from, to) \<in>
     {(Created, Booting), (Booting, Loading), (Booting, Failed), (Loading, Running), (Loading, Failed),
      (Running, Degraded), (Running, Stopping), (Running, Failed), (Degraded, Running), (Degraded, Stopping),
      (Degraded, Failed), (Stopping, Stopped), (Stopping, Failed)}"

definition test_is_legal_matches_expected_for_every_cell :: bool where
  "test_is_legal_matches_expected_for_every_cell \<longleftrightarrow>
     (\<forall>from \<in> set all_states. \<forall>to \<in> set all_states. is_legal from to = expected_legal from to)"

definition test_assert_legal_returns_ok_for_every_legal_pair :: bool where
  "test_assert_legal_returns_ok_for_every_legal_pair \<longleftrightarrow>
     (\<forall>from \<in> set all_states. \<forall>to \<in> set all_states. expected_legal from to \<longrightarrow> assert_legal from to = Inr ())"

definition test_assert_legal_returns_err_for_every_illegal_pair :: bool where
  "test_assert_legal_returns_err_for_every_illegal_pair \<longleftrightarrow>
     (\<forall>from \<in> set all_states. \<forall>to \<in> set all_states. \<not> expected_legal from to \<longrightarrow>
        (case assert_legal from to of Inl err \<Rightarrow> te_from err = from \<and> te_to err = to | Inr _ \<Rightarrow> False))"

definition test_transition_error_display_is_non_empty :: "string \<Rightarrow> bool" where
  "test_transition_error_display_is_non_empty pre \<longleftrightarrow>
     (let rendered = TransitionError_fmt pre \<lparr>te_from = Created, te_to = Running\<rparr>
      in rendered \<noteq> [] \<and> contains rendered ''CREATED'' \<and> contains rendered ''RUNNING'')"

definition test_self_transitions_are_illegal :: bool where
  "test_self_transitions_are_illegal \<longleftrightarrow> (\<forall>state \<in> set all_states. \<not> is_legal state state)"

definition test_terminal_states_have_no_outgoing_transitions :: bool where
  "test_terminal_states_have_no_outgoing_transitions \<longleftrightarrow>
     (\<forall>terminal \<in> {Stopped, Failed}. \<forall>target \<in> set all_states. \<not> is_legal terminal target)"

lemma transition_tests_pass: test_is_legal_matches_expected_for_every_cell test_assert_legal_returns_ok_for_every_legal_pair
    test_assert_legal_returns_err_for_every_illegal_pair test_self_transitions_are_illegal
    test_terminal_states_have_no_outgoing_transitions
  by (simp_all add: test_is_legal_matches_expected_for_every_cell_def test_assert_legal_returns_ok_for_every_legal_pair_def
      test_assert_legal_returns_err_for_every_illegal_pair_def test_self_transitions_are_illegal_def
      test_terminal_states_have_no_outgoing_transitions_def all_states_def expected_legal_def assert_legal_def is_legal_iff_edge
      legal_edge_to)

lemma transition_display_passes: "test_transition_error_display_is_non_empty pre"
  by (simp add: test_transition_error_display_is_non_empty_def TransitionError_fmt_def contains_append)

section \<open>controller.rs\<close>

text \<open>
  \<open>now\<close> is the reading of the constructor, \<open>ts\<close> are those of the transitions. A run of transitions that are all
  unwrapped, and the states it goes through.
\<close>

fun transitions_ok :: "(KernelState \<times> instant) list \<Rightarrow> LifecycleController \<Rightarrow> LifecycleController option" where
  "transitions_ok [] c = Some c"
| "transitions_ok ((t, now) # qs) c =
     (case lc_transition t now c of
        (Inl _, _) \<Rightarrow> None
      | (Inr _, c, _) \<Rightarrow> (if lc_state c = t then transitions_ok qs c else None))"

definition test_new_starts_in_created_idle :: "instant \<Rightarrow> bool" where
  "test_new_starts_in_created_idle now \<longleftrightarrow>
     (let c = LifecycleController_new now in lc_state c = Created \<and> LifecycleController_phase c = Idle)"

definition test_legal_transition_updates_state_phase_and_timestamp :: "instant \<Rightarrow> instant \<Rightarrow> bool" where
  "test_legal_transition_updates_state_phase_and_timestamp now t \<longleftrightarrow>
     (let c = LifecycleController_new now; before = ls_last_transition (LifecycleController_snapshot c);
          (r, c, _) = lc_transition Booting t c; after = LifecycleController_snapshot c
      in r = Inr () \<and> ls_state after = Booting \<and> ls_phase after = Boot \<and> ls_last_transition after > before)"

definition test_illegal_transition_returns_error_and_preserves_state :: "instant \<Rightarrow> instant \<Rightarrow> bool" where
  "test_illegal_transition_returns_error_and_preserves_state now t \<longleftrightarrow>
     (case lc_transition Running t (LifecycleController_new now) of
        (Inl err, c, _) \<Rightarrow> te_from err = Created \<and> te_to err = Running \<and> lc_state c = Created
      | _ \<Rightarrow> False)"

definition test_full_happy_path :: "instant \<Rightarrow> (nat \<Rightarrow> instant) \<Rightarrow> bool" where
  "test_full_happy_path now ts \<longleftrightarrow>
     transitions_ok (zip [Booting, Loading, Running, Stopping, Stopped] (map ts [0..<5])) (LifecycleController_new now) \<noteq> None"

definition test_failure_path :: "instant \<Rightarrow> (nat \<Rightarrow> instant) \<Rightarrow> bool" where
  "test_failure_path now ts \<longleftrightarrow>
     (case transitions_ok (zip [Booting, Failed] (map ts [0..<2])) (LifecycleController_new now) of
        Some c \<Rightarrow> KernelState_is_terminal (lc_state c) | None \<Rightarrow> False)"

definition test_degraded_path :: "instant \<Rightarrow> (nat \<Rightarrow> instant) \<Rightarrow> bool" where
  "test_degraded_path now ts \<longleftrightarrow>
     (case transitions_ok (zip [Booting, Loading, Running, Degraded, Running, Stopping, Stopped] (map ts [0..<7]))
             (LifecycleController_new now) of
        Some c \<Rightarrow> lc_state c = Stopped | None \<Rightarrow> False)"

definition test_terminal_state_rejects_all_outgoing_transitions :: "instant \<Rightarrow> (nat \<Rightarrow> instant) \<Rightarrow> bool" where
  "test_terminal_state_rejects_all_outgoing_transitions now ts \<longleftrightarrow>
     (case transitions_ok (zip [Booting, Failed] (map ts [0..<2])) (LifecycleController_new now) of
        Some c \<Rightarrow> list_all isl (fst (lc_requests (zip all_states (map ts [2..<10])) c))
      | None \<Rightarrow> False)"

definition test_snapshot_consistency :: "instant \<Rightarrow> instant \<Rightarrow> bool" where
  "test_snapshot_consistency now t \<longleftrightarrow>
     (let (r, c, _) = lc_transition Booting t (LifecycleController_new now); snap = LifecycleController_snapshot c
      in r = Inr () \<and> ls_state snap = lc_state c \<and> ls_phase snap = LifecycleController_phase c)"

definition test_default_starts_in_created :: "instant \<Rightarrow> bool" where
  "test_default_starts_in_created now \<longleftrightarrow> (let c = LifecycleController_new now in lc_state c = Created)"

lemmas controller_test_simps = LifecycleController_new_def LifecycleController_with_events_def LifecycleController_with_metrics_def
  LifecycleController_fresh_def LifecycleController_set_events_def LifecycleController_phase_def LifecycleController_snapshot_def
  lc_transition_def assert_legal_def is_legal_iff_edge legal_edge_to transition_effects_def upt_rec all_states_def Let_def

lemma controller_tests_pass: "test_new_starts_in_created_idle now"
    "now < t \<Longrightarrow> test_legal_transition_updates_state_phase_and_timestamp now t"
    "test_illegal_transition_returns_error_and_preserves_state now t" "test_full_happy_path now ts" "test_failure_path now ts"
    "test_degraded_path now ts" "test_terminal_state_rejects_all_outgoing_transitions now ts" "test_snapshot_consistency now t"
    "test_default_starts_in_created now"
  by (simp_all add: test_new_starts_in_created_idle_def test_legal_transition_updates_state_phase_and_timestamp_def
      test_illegal_transition_returns_error_and_preserves_state_def test_full_happy_path_def test_failure_path_def
      test_degraded_path_def test_terminal_state_rejects_all_outgoing_transitions_def test_snapshot_consistency_def
      test_default_starts_in_created_def controller_test_simps)

text \<open>The subscribers of the event tests count their calls; the first also asserts what the event carries (\<open>None\<close> when it does not).\<close>

definition count_booting :: "unit \<Rightarrow> KernelEvent \<Rightarrow> nat option \<Rightarrow> nat option handler_result" where
  "count_booting _ event n =
     (case event of
        Lifecycle (Transition from to _) \<Rightarrow> if from = Created \<and> to = Booting then Finished (map_option Suc n) else Panicked None
      | _ \<Rightarrow> Finished n)"

definition count_event :: "unit \<Rightarrow> KernelEvent \<Rightarrow> nat \<Rightarrow> nat handler_result" where
  "count_event _ _ n = Finished (n + 1)"

definition test_with_events_emits_transition_event :: "instant \<Rightarrow> instant \<Rightarrow> bool" where
  "test_with_events_emits_transition_event now t \<longleftrightarrow>
     (let dispatcher = snd (EventDispatcher_subscribe ''kernel.lifecycle.booting'' () EventDispatcher_new);
          (r, _, fx) = lc_transition Booting t (LifecycleController_with_events now)
      in r = Inr () \<and> deliver count_booting dispatcher fx (Some 0) = Some 1)"

definition test_failed_transition_does_not_emit :: "instant \<Rightarrow> instant \<Rightarrow> bool" where
  "test_failed_transition_does_not_emit now t \<longleftrightarrow>
     (let dispatcher = snd (EventDispatcher_subscribe ''kernel.lifecycle.running'' () EventDispatcher_new);
          (r, _, fx) = lc_transition Running t (LifecycleController_with_events now)
      in isl r \<and> deliver count_event dispatcher fx 0 = 0)"

definition test_set_events_attaches_handle_after_construction :: "instant \<Rightarrow> instant \<Rightarrow> bool" where
  "test_set_events_attaches_handle_after_construction now t \<longleftrightarrow>
     (let dispatcher = snd (EventDispatcher_subscribe ''kernel.lifecycle.booting'' () EventDispatcher_new);
          c = LifecycleController_set_events (LifecycleController_new now);
          (r, _, fx) = lc_transition Booting t c
      in r = Inr () \<and> deliver count_event dispatcher fx 0 = 1)"

lemma controller_event_tests_pass: "test_with_events_emits_transition_event now t" "test_failed_transition_does_not_emit now t"
    "test_set_events_attaches_handle_after_construction now t"
  by (simp_all add: test_with_events_emits_transition_event_def test_failed_transition_does_not_emit_def
      test_set_events_attaches_handle_after_construction_def deliver_def emit_def emit_handlers_def subscribe_def dispatcher_new_def
      count_booting_def count_event_def lifecycle_topic_def controller_test_simps)

text \<open>A backend that keeps the sum of the counters, the last gauge (cast with \<open>as u64\<close>) and the last \<open>to\<close> label, and one that counts its calls.\<close>

record Capture =
  cap_gauge :: u64
  cap_counter :: u64
  cap_last_label :: "string option"

definition as_u64 :: "real \<Rightarrow> u64" where
  "as_u64 v = (if v < 0 then 0 else if 2 ^ 64 \<le> v then - 1 else word_of_int \<lfloor>v\<rfloor>)"

fun capture_call :: "effect \<Rightarrow> Capture \<Rightarrow> Capture" where
  "capture_call (Counter _ value labels) b =
     b\<lparr>cap_counter := cap_counter b + value,
       cap_last_label := (case map_of labels ''to'' of Some v \<Rightarrow> Some v | None \<Rightarrow> cap_last_label b)\<rparr>"
| "capture_call (Gauge _ value _) b = b\<lparr>cap_gauge := as_u64 value\<rparr>"
| "capture_call _ b = b"

fun count_call :: "effect \<Rightarrow> u64 \<Rightarrow> u64" where
  "count_call (Counter _ _ _) n = n + 1"
| "count_call (Gauge _ _ _) n = n + 1"
| "count_call _ n = n"

definition test_with_metrics_emits_gauge_and_counter :: "instant \<Rightarrow> instant \<Rightarrow> instant \<Rightarrow> bool" where
  "test_with_metrics_emits_gauge_and_counter now t1 t2 \<longleftrightarrow>
     (let (r1, c, fx1) = lc_transition Booting t1 (LifecycleController_with_metrics now);
          (r2, c, fx2) = lc_transition Loading t2 c;
          backend = fold capture_call (fx1 @ fx2) \<lparr>cap_gauge = 0, cap_counter = 0, cap_last_label = None\<rparr>
      in r1 = Inr () \<and> r2 = Inr () \<and> cap_counter backend = 2 \<and> cap_gauge backend = ucast (Phase_ordinal Load) \<and>
         cap_last_label backend = Some ''loading'')"

definition test_failed_transition_does_not_touch_metrics :: "instant \<Rightarrow> instant \<Rightarrow> bool" where
  "test_failed_transition_does_not_touch_metrics now t \<longleftrightarrow>
     (let (r, _, fx) = lc_transition Running t (LifecycleController_with_metrics now)
      in isl r \<and> fold count_call fx 0 = 0)"

lemma controller_metric_tests_pass: "test_with_metrics_emits_gauge_and_counter now t1 t2"
    "test_failed_transition_does_not_touch_metrics now t"
  by (simp_all add: test_with_metrics_emits_gauge_and_counter_def test_failed_transition_does_not_touch_metrics_def as_u64_def
      controller_test_simps)

end
