(* ===== verification/Tests_Events.thy ===== *)
theory Tests_Events
  imports Dispatcher Tests_Prelude
begin

text \<open>
  The unit tests of src/errors and src/events, evaluated on the model.
\<close>

section \<open>severity.rs\<close>

definition all_severities :: "Severity list" where
  "all_severities = [Debug, Info, Warning, Error, Critical, Fatal]"

definition test_as_str_values_are_unique_in_severity :: bool where
  "test_as_str_values_are_unique_in_severity \<longleftrightarrow> all_inserted (map Severity_as_str all_severities)"

definition test_ordering_is_strictly_increasing_in_severity :: bool where
  "test_ordering_is_strictly_increasing_in_severity \<longleftrightarrow>
     (\<forall>(a, b) \<in> set (zip all_severities (tl all_severities)). a < b)"

definition test_default_is_error :: bool where
  "test_default_is_error \<longleftrightarrow> Severity_default = Error"

definition test_display_is_uppercase_variant_name_in_severity :: bool where
  "test_display_is_uppercase_variant_name_in_severity \<longleftrightarrow> Severity_fmt Debug = ''DEBUG'' \<and> Severity_fmt Fatal = ''FATAL''"

definition test_ordinals_match_declaration_order :: bool where
  "test_ordinals_match_declaration_order \<longleftrightarrow> (\<forall>(i, s) \<in> set (enumerate 0 all_severities). unat (Severity_ordinal s) = i)"

lemma severity_tests_pass: test_as_str_values_are_unique_in_severity test_ordering_is_strictly_increasing_in_severity
    test_default_is_error test_display_is_uppercase_variant_name_in_severity test_ordinals_match_declaration_order
  by (simp_all add: test_as_str_values_are_unique_in_severity_def test_ordering_is_strictly_increasing_in_severity_def
      test_default_is_error_def test_display_is_uppercase_variant_name_in_severity_def test_ordinals_match_declaration_order_def
      all_severities_def all_inserted_def Severity_default_def less_Severity_def)

section \<open>action.rs\<close>

definition all_actions :: "ErrorAction list" where
  "all_actions = [LogOnly, EmitEvent, MarkWorkerDegraded, MarkServiceDegraded, RestartWorker, OpenCircuit,
     EnterReadOnlyMode, BeginShutdown, AbortProcess]"

definition test_as_str_values_are_unique_in_action :: bool where
  "test_as_str_values_are_unique_in_action \<longleftrightarrow> all_inserted (map ErrorAction_as_str all_actions)"

definition test_is_terminal_only_for_shutdown_and_abort :: bool where
  "test_is_terminal_only_for_shutdown_and_abort \<longleftrightarrow>
     (\<forall>a \<in> set all_actions. ErrorAction_is_terminal a = (a \<in> {BeginShutdown, AbortProcess}))"

definition test_default_is_log_only :: bool where
  "test_default_is_log_only \<longleftrightarrow> ErrorAction_default = LogOnly"

definition test_display_is_screaming_snake_case :: bool where
  "test_display_is_screaming_snake_case \<longleftrightarrow> ErrorAction_fmt LogOnly = ''LOG_ONLY'' \<and> ErrorAction_fmt AbortProcess = ''ABORT_PROCESS''"

lemma action_tests_pass: test_as_str_values_are_unique_in_action test_is_terminal_only_for_shutdown_and_abort
    test_default_is_log_only test_display_is_screaming_snake_case
  by (simp_all add: test_as_str_values_are_unique_in_action_def test_is_terminal_only_for_shutdown_and_abort_def
      test_default_is_log_only_def test_display_is_screaming_snake_case_def all_actions_def all_inserted_def ErrorAction_default_def)

section \<open>classifier.rs and registry.rs\<close>

text \<open>The error types of the tests, and the classifier that looks for one of them. (A classifier of the model does not count its calls.)\<close>

datatype test_error = DummyError | CustomError string

definition CustomClassifier :: "test_error ErrorClassifier" where
  "CustomClassifier err =
     (case err of
        CustomError c \<Rightarrow>
          (if c = ''high'' then \<lparr>cl_severity = Critical, cl_action = BeginShutdown, cl_event_topic = Some ''custom.high''\<rparr>
           else Classification_default)
      | _ \<Rightarrow> Classification_default)"

definition test_classification_default :: bool where
  "test_classification_default \<longleftrightarrow>
     (let c = Classification_default in cl_severity c = Error \<and> cl_action c = LogOnly \<and> cl_event_topic c = None)"

definition test_noop_classifier_returns_default :: bool where
  "test_noop_classifier_returns_default \<longleftrightarrow> NoopClassifier DummyError = Classification_default"

definition test_custom_classifier_downcasts :: bool where
  "test_custom_classifier_downcasts \<longleftrightarrow>
     (let high = CustomClassifier (CustomError ''high''); low = CustomClassifier (CustomError ''low'');
          other = CustomClassifier DummyError
      in cl_severity high = Critical \<and> cl_action high = BeginShutdown \<and> cl_event_topic high = Some ''custom.high'' \<and>
         low = Classification_default \<and> other = Classification_default)"

definition test_new_registry_uses_noop_classifier :: bool where
  "test_new_registry_uses_noop_classifier \<longleftrightarrow>
     (let r = ErrorRegistry_new in ErrorRegistry_classify r DummyError = Classification_default)"

definition test_default_registry_uses_noop :: bool where
  "test_default_registry_uses_noop \<longleftrightarrow>
     (let r = ErrorRegistry_new in ErrorRegistry_classify r DummyError = Classification_default)"

lemma classifier_tests_pass: test_classification_default test_noop_classifier_returns_default test_custom_classifier_downcasts
    test_new_registry_uses_noop_classifier test_default_registry_uses_noop
  by (simp_all add: test_classification_default_def test_noop_classifier_returns_default_def test_custom_classifier_downcasts_def
      test_new_registry_uses_noop_classifier_def test_default_registry_uses_noop_def CustomClassifier_def registry_defs
      Classification_default_def)

section \<open>kernel_error.rs\<close>

definition test_error_codes_are_unique :: bool where
  "test_error_codes_are_unique \<longleftrightarrow>
     (let codes = [LifecycleIllegalTransition, SubsystemBootFailed, SubsystemDependencyMissing, WorkerSpawnFailed, ConfigInvalid,
            ShutdownTimeout, Internal]
      in all_inserted (map KernelErrorCode_as_u32 codes) \<and> (\<forall>c \<in> set codes. KernelErrorCode_as_u32 c > 0))"

definition test_lifecycle_variant_carries_source :: bool where
  "test_lifecycle_variant_carries_source \<longleftrightarrow>
     (let err = KE_Lifecycle LifecycleIllegalTransition \<lparr>te_from = Created, te_to = Running\<rparr>
      in KernelError_code err = LifecycleIllegalTransition \<and> KernelError_category err = ''lifecycle'' \<and>
         KernelError_source err \<noteq> None)"

definition test_internal_variant_has_no_source :: bool where
  "test_internal_variant_has_no_source \<longleftrightarrow> KernelError_source (KE_Internal Internal ''boom'') = None"

text \<open>The test runs without translations loaded, so that a lookup answers its fallback.\<close>

definition test_display_contains_code_in_fallback :: "(string \<Rightarrow> string \<Rightarrow> string) \<Rightarrow> bool" where
  "test_display_contains_code_in_fallback translate \<longleftrightarrow>
     (let rendered = KernelError_fmt translate (KE_Internal Internal '''')
      in contains rendered ''internal'' \<and> contains rendered ''KER-90001'')"

definition test_display_appends_internal_message :: "(string \<Rightarrow> string \<Rightarrow> string) \<Rightarrow> bool" where
  "test_display_appends_internal_message translate \<longleftrightarrow>
     contains (KernelError_fmt translate (KE_Internal Internal ''boom'')) ''boom''"

definition test_subsystem_variant_carries_source :: bool where
  "test_subsystem_variant_carries_source \<longleftrightarrow>
     (let err = KE_Subsystem SubsystemDependencyMissing ''storage'' ''missing dep''
      in KernelError_category err = ''subsystem'' \<and> KernelError_source err \<noteq> None)"

definition test_category_matches_lowercase_variant :: bool where
  "test_category_matches_lowercase_variant \<longleftrightarrow> KernelError_category (KE_Internal Internal '''') = ''internal''"

lemma kernel_error_tests_pass: test_error_codes_are_unique test_lifecycle_variant_carries_source
    test_internal_variant_has_no_source test_subsystem_variant_carries_source test_category_matches_lowercase_variant
  by (simp_all add: test_error_codes_are_unique_def test_lifecycle_variant_carries_source_def
      test_internal_variant_has_no_source_def test_subsystem_variant_carries_source_def test_category_matches_lowercase_variant_def
      all_inserted_def)

lemma fallback_display_passes:
  assumes "\<And>key fallback. translate key fallback = fallback"
  shows "test_display_contains_code_in_fallback translate"
proof -
  have "decimal 90001 = ''90001''"
    by (simp add: decimal.simps char_of_def bit_0)
  then have "KernelError_fallback (KE_Internal Internal '''') = ''internal: KER-90001''"
    by (simp add: KernelError_fallback_def pad5_def)
  then show ?thesis
    by (simp add: test_display_contains_code_in_fallback_def KernelError_fmt_def assms)
qed

lemma message_display_passes: "test_display_appends_internal_message translate"
  by (simp add: test_display_appends_internal_message_def KernelError_fmt_def contains_append)

section \<open>topic.rs\<close>

definition test_every_kernel_state_has_a_lifecycle_topic :: bool where
  "test_every_kernel_state_has_a_lifecycle_topic \<longleftrightarrow>
     (\<forall>state \<in> set all_states. let topic = lifecycle_topic (KernelState_as_str state)
        in starts_with topic ''kernel.lifecycle.'' \<and> \<not> ends_with topic ''unknown'')"

definition test_every_severity_has_an_error_topic :: bool where
  "test_every_severity_has_an_error_topic \<longleftrightarrow>
     (\<forall>sev \<in> set all_severities. let topic = error_topic (Severity_as_str sev)
        in starts_with topic ''kernel.error.'' \<and> \<not> ends_with topic ''unknown'')"

definition test_unknown_suffix_returns_unknown_topic :: bool where
  "test_unknown_suffix_returns_unknown_topic \<longleftrightarrow>
     lifecycle_topic ''nope'' = ''kernel.lifecycle.unknown'' \<and> worker_topic ''nope'' = ''kernel.worker.unknown'' \<and>
     error_topic ''nope'' = ''kernel.error.unknown'' \<and> health_topic ''nope'' = ''kernel.health.unknown'' \<and>
     metric_topic ''nope'' = ''kernel.metric.unknown''"

definition test_topics_are_namespaced :: bool where
  "test_topics_are_namespaced \<longleftrightarrow>
     starts_with (lifecycle_topic ''running'') ''kernel.'' \<and> starts_with (worker_topic ''placeholder'') ''kernel.'' \<and>
     starts_with (error_topic ''info'') ''kernel.'' \<and> starts_with (health_topic ''kernel'') ''kernel.'' \<and>
     starts_with (metric_topic ''placeholder'') ''kernel.''"

definition test_custom_event_root_topic_is_namespaced :: bool where
  "test_custom_event_root_topic_is_namespaced \<longleftrightarrow> CUSTOM_EVENT_ROOT_TOPIC = ''kernel.custom''"

lemma topic_tests_pass: test_every_kernel_state_has_a_lifecycle_topic test_every_severity_has_an_error_topic
    test_unknown_suffix_returns_unknown_topic test_topics_are_namespaced test_custom_event_root_topic_is_namespaced
  by (simp_all add: test_every_kernel_state_has_a_lifecycle_topic_def test_every_severity_has_an_error_topic_def
      test_unknown_suffix_returns_unknown_topic_def test_topics_are_namespaced_def test_custom_event_root_topic_is_namespaced_def
      topic_tables starts_with_def ends_with_def all_states_def all_severities_def CUSTOM_EVENT_ROOT_TOPIC_def)

section \<open>kernel_event.rs\<close>

definition test_health_event_carries_status_fields :: "instant \<Rightarrow> bool" where
  "test_health_event_carries_status_fields now \<longleftrightarrow>
     (case SubsystemChanged ''storage'' H_Healthy H_Degraded now of
        SubsystemChanged subsystem from to ts \<Rightarrow> subsystem = ''storage'' \<and> from = H_Healthy \<and> to = H_Degraded \<and> ts = now
      | AggregateChanged _ _ _ \<Rightarrow> False)"

definition test_metric_event_carries_name_value :: bool where
  "test_metric_event_carries_name_value \<longleftrightarrow>
     (case (MetricCounter ''kernel.lifecycle.transitions'' 5, MetricGauge ''kernel.lifecycle.phase'' 2) of
        (MetricCounter c_name c_value, MetricGauge g_name g_value) \<Rightarrow>
          c_name = ''kernel.lifecycle.transitions'' \<and> c_value = 5 \<and> g_name = ''kernel.lifecycle.phase'' \<and>
          \<bar>g_value - 2\<bar> < 1 / 2 ^ 52
      | _ \<Rightarrow> False)"

definition test_lifecycle_topic_routing :: "instant \<Rightarrow> bool" where
  "test_lifecycle_topic_routing now \<longleftrightarrow>
     KernelEvent_topic (Lifecycle (Transition Booting Running now)) = ''kernel.lifecycle.running''"

definition test_error_topic_routing :: bool where
  "test_error_topic_routing \<longleftrightarrow>
     KernelEvent_topic (ErrorEv \<lparr>ee_severity = Critical, ee_action = BeginShutdown, ee_message = ''boom''\<rparr>) =
       ''kernel.error.critical''"

definition test_worker_topic_routing :: "instant \<Rightarrow> bool" where
  "test_worker_topic_routing now \<longleftrightarrow>
     KernelEvent_topic (Worker (WorkerEvent_new (Ev_Started (WorkerId 1) ''test'' now))) = ''kernel.worker.started''"

definition test_health_aggregate_topic_routing :: "instant \<Rightarrow> bool" where
  "test_health_aggregate_topic_routing now \<longleftrightarrow>
     KernelEvent_topic (Health (AggregateChanged H_Healthy H_Degraded now)) = ''kernel.health.aggregate''"

definition test_health_subsystem_topic_routing :: "instant \<Rightarrow> bool" where
  "test_health_subsystem_topic_routing now \<longleftrightarrow>
     KernelEvent_topic (Health (SubsystemChanged ''storage'' H_Healthy H_Critical now)) = ''kernel.health.storage''"

definition test_metric_counter_topic_routing :: bool where
  "test_metric_counter_topic_routing \<longleftrightarrow>
     KernelEvent_topic (Metric (MetricCounter ''kernel.lifecycle.transitions'' 1)) = ''kernel.metric.lifecycle.transitions''"

definition test_metric_gauge_topic_routing :: bool where
  "test_metric_gauge_topic_routing \<longleftrightarrow>
     KernelEvent_topic (Metric (MetricGauge ''kernel.lifecycle.phase'' 3)) = ''kernel.metric.lifecycle.phase''"

text \<open>The type identifiers of \<open>u32\<close> and of the payload type of the test differ.\<close>

definition test_custom_event_routing_uses_root_topic :: "nat \<Rightarrow> bool" where
  "test_custom_event_routing_uses_root_topic u32_id \<longleftrightarrow>
     KernelEvent_topic (Custom (CustomEvent_new ''myapp.foo'' \<lparr>any_type_id = u32_id, any_content = 42\<rparr>)) = ''kernel.custom''"

definition test_custom_event_payload_round_trips :: "nat \<Rightarrow> nat \<Rightarrow> bool" where
  "test_custom_event_payload_round_trips payload_id u32_id \<longleftrightarrow>
     (let event = CustomEvent_new ''myapp.payload'' \<lparr>any_type_id = payload_id, any_content = 7\<rparr>
      in CustomEvent_downcast_ref payload_id event = Some 7 \<and> ce_topic event = ''myapp.payload'' \<and>
         CustomEvent_downcast_ref u32_id event = None)"

definition test_lifecycle_event_round_trip_via_match :: "instant \<Rightarrow> bool" where
  "test_lifecycle_event_round_trip_via_match now \<longleftrightarrow>
     (case Lifecycle (Transition Created Booting now) of
        Lifecycle (Transition from to ts) \<Rightarrow> from = Created \<and> to = Booting \<and> ts = now
      | _ \<Rightarrow> False)"

lemma event_tests_pass: "test_health_event_carries_status_fields now" test_metric_event_carries_name_value
    "test_lifecycle_event_round_trip_via_match now" "test_custom_event_routing_uses_root_topic u32_id"
    "payload_id \<noteq> u32_id \<Longrightarrow> test_custom_event_payload_round_trips payload_id u32_id"
  by (simp_all add: test_health_event_carries_status_fields_def test_metric_event_carries_name_value_def
      test_lifecycle_event_round_trip_via_match_def test_custom_event_routing_uses_root_topic_def
      test_custom_event_payload_round_trips_def CustomEvent_new_def CustomEvent_downcast_ref_def CUSTOM_EVENT_ROOT_TOPIC_def)

lemma routing_tests_pass: "test_lifecycle_topic_routing now" test_error_topic_routing "test_worker_topic_routing now"
    "test_health_aggregate_topic_routing now" "test_health_subsystem_topic_routing now" test_metric_counter_topic_routing
    test_metric_gauge_topic_routing
  by (simp_all add: test_lifecycle_topic_routing_def test_error_topic_routing_def test_worker_topic_routing_def
      test_health_aggregate_topic_routing_def test_health_subsystem_topic_routing_def test_metric_counter_topic_routing_def
      test_metric_gauge_topic_routing_def topic_tables WorkerEvent_new_def)

section \<open>dispatcher.rs\<close>

text \<open>The handlers of the tests count their calls, do nothing, or panic.\<close>

datatype test_handler = Counts | Ignores | Panics

fun run_test_handler :: "test_handler \<Rightarrow> KernelEvent \<Rightarrow> nat \<Rightarrow> nat handler_result" where
  "run_test_handler Counts _ n = Finished (n + 1)"
| "run_test_handler Ignores _ n = Finished n"
| "run_test_handler Panics _ n = Panicked n"

definition lifecycle_event :: "KernelState \<Rightarrow> instant \<Rightarrow> KernelEvent" where
  "lifecycle_event to now = Lifecycle (Transition Booting to now)"

definition test_emit_to_single_subscriber :: "instant \<Rightarrow> bool" where
  "test_emit_to_single_subscriber now \<longleftrightarrow>
     (let d = EventDispatcher_new; (_, d) = EventDispatcher_subscribe ''kernel.lifecycle.running'' Counts d
      in EventDispatcher_emit run_test_handler (lifecycle_event Running now) d 0 = 1)"

definition test_multiple_subscribers_same_topic_all_receive :: "instant \<Rightarrow> bool" where
  "test_multiple_subscribers_same_topic_all_receive now \<longleftrightarrow>
     (let d = ((\<lambda>d. snd (EventDispatcher_subscribe ''kernel.lifecycle.running'' Counts d)) ^^ 5) EventDispatcher_new
      in EventDispatcher_emit run_test_handler (lifecycle_event Running now) d 0 = 5)"

definition test_subscriber_on_different_topic_is_not_called :: "instant \<Rightarrow> bool" where
  "test_subscriber_on_different_topic_is_not_called now \<longleftrightarrow>
     (let d = EventDispatcher_new; (_, d) = EventDispatcher_subscribe ''kernel.lifecycle.failed'' Counts d
      in EventDispatcher_emit run_test_handler (lifecycle_event Running now) d 0 = 0)"

definition test_unsubscribe_removes_handler :: "instant \<Rightarrow> bool" where
  "test_unsubscribe_removes_handler now \<longleftrightarrow>
     (let d = EventDispatcher_new; (i, d) = EventDispatcher_subscribe ''kernel.lifecycle.running'' Counts d;
          (first, d) = EventDispatcher_unsubscribe i d; (second, d) = EventDispatcher_unsubscribe i d
      in first \<and> \<not> second \<and> EventDispatcher_emit run_test_handler (lifecycle_event Running now) d 0 = 0)"

definition test_subscriber_count_round_trips :: bool where
  "test_subscriber_count_round_trips \<longleftrightarrow>
     (let d0 = EventDispatcher_new; (i, d1) = EventDispatcher_subscribe ''kernel.lifecycle.running'' Ignores d0;
          (removed, d2) = EventDispatcher_unsubscribe i d1
      in EventDispatcher_subscriber_count ''kernel.lifecycle.running'' d0 = 0 \<and>
         EventDispatcher_subscriber_count ''kernel.lifecycle.running'' d1 = 1 \<and> removed \<and>
         EventDispatcher_subscriber_count ''kernel.lifecycle.running'' d2 = 0)"

definition test_panicking_handler_does_not_crash_dispatcher :: "instant \<Rightarrow> bool" where
  "test_panicking_handler_does_not_crash_dispatcher now \<longleftrightarrow>
     (let d = EventDispatcher_new; (_, d) = EventDispatcher_subscribe ''kernel.lifecycle.running'' Panics d;
          (_, d) = EventDispatcher_subscribe ''kernel.lifecycle.running'' Counts d
      in EventDispatcher_emit run_test_handler (lifecycle_event Running now) d 0 = 1)"

definition test_handle_clone_shares_routing :: "instant \<Rightarrow> instant \<Rightarrow> bool" where
  "test_handle_clone_shares_routing t1 t2 \<longleftrightarrow>
     (let d = EventDispatcher_new; (_, d) = EventHandle_subscribe ''kernel.lifecycle.running'' Counts d;
          count = EventHandle_emit run_test_handler (lifecycle_event Running t1) d 0;
          count = EventDispatcher_emit run_test_handler (lifecycle_event Running t2) d count
      in count = 2)"

definition test_emit_with_no_subscribers_is_noop :: bool where
  "test_emit_with_no_subscribers_is_noop \<longleftrightarrow>
     EventDispatcher_emit run_test_handler
       (ErrorEv \<lparr>ee_severity = Info, ee_action = LogOnly, ee_message = ''nothing here''\<rparr>) EventDispatcher_new 0 = 0"

definition test_default_dispatcher_works :: bool where
  "test_default_dispatcher_works \<longleftrightarrow>
     EventDispatcher_subscriber_count ''kernel.lifecycle.running'' (EventDispatcher_new :: test_handler dispatcher) = 0"

definition test_subscribe_then_immediately_unsubscribe :: "instant \<Rightarrow> bool" where
  "test_subscribe_then_immediately_unsubscribe now \<longleftrightarrow>
     (let d = EventDispatcher_new; (i, d) = EventDispatcher_subscribe ''kernel.lifecycle.running'' Counts d;
          (removed, d) = EventDispatcher_unsubscribe i d
      in removed \<and> EventDispatcher_emit run_test_handler (lifecycle_event Running now) d 0 = 0)"

lemma running_event [simp]: "KernelEvent_topic (lifecycle_event Running now) = ''kernel.lifecycle.running''"
  by (simp add: lifecycle_event_def lifecycle_topic_def)

lemmas dispatcher_test_simps = dispatcher_new_def subscribe_def unsubscribe_def subscriber_count_def emit_def emit_handlers_def
  remove_at_def Let_def

lemma emit_tests_pass: "test_emit_to_single_subscriber now" "test_subscriber_on_different_topic_is_not_called now"
    "test_panicking_handler_does_not_crash_dispatcher now" "test_handle_clone_shares_routing t1 t2"
    test_emit_with_no_subscribers_is_noop test_default_dispatcher_works
  by (simp_all add: test_emit_to_single_subscriber_def test_subscriber_on_different_topic_is_not_called_def
      test_panicking_handler_does_not_crash_dispatcher_def test_handle_clone_shares_routing_def
      test_emit_with_no_subscribers_is_noop_def test_default_dispatcher_works_def dispatcher_test_simps)

lemma unsubscribe_tests_pass: "test_unsubscribe_removes_handler now" test_subscriber_count_round_trips
    "test_subscribe_then_immediately_unsubscribe now"
  by (simp_all add: test_unsubscribe_removes_handler_def test_subscriber_count_round_trips_def
      test_subscribe_then_immediately_unsubscribe_def dispatcher_test_simps)

text \<open>What \<open>n\<close> subscriptions to one topic leave in its route.\<close>

lemma subscribe_again:
  "\<exists>is. dp_routes (((\<lambda>d. snd (subscribe topic h d)) ^^ n) dispatcher_new) topic = (if n = 0 then None else Some (map (\<lambda>i. (i, h)) is)) \<and>
     length is = n"
proof (induction n)
  case 0
  then show ?case
    by (simp add: dispatcher_new_def)
next
  case (Suc n)
  then obtain ids where ids: "length ids = n" "dp_routes (((\<lambda>d. snd (subscribe topic h d)) ^^ n) dispatcher_new) topic =
      (if n = 0 then None else Some (map (\<lambda>i. (i, h)) ids))"
    by blast
  show ?case
    by (rule exI [of _ "ids @ [dp_next_id (((\<lambda>d. snd (subscribe topic h d)) ^^ n) dispatcher_new)]"])
      (use ids in \<open>auto simp: subscribe_def Let_def\<close>)
qed

lemma multiple_subscribers_pass: "test_multiple_subscribers_same_topic_all_receive now"
proof -
  have "fold (\<lambda>h w. contained (run_test_handler h e w)) (map snd (map (\<lambda>i. (i, Counts)) is)) w = w + length is" for e w and "is" :: "u64 list"
    by (induction "is" arbitrary: w) simp_all
  then show ?thesis
    using subscribe_again [where topic = "''kernel.lifecycle.running''" and h = Counts and n = 5]
    by (auto simp: test_multiple_subscribers_same_topic_all_receive_def emit_def emit_handlers_def Let_def simp del: map_map)
qed

end
