(* ===== verification/Tests_Health.thy ===== *)
theory Tests_Health
  imports Health_Registry Event_Delivery Tests_Prelude
begin

text \<open>
  The unit tests of src/health and src/metrics, evaluated on the model, with the trait of src/health/check.rs as a record of its methods.
\<close>

section \<open>status.rs\<close>

definition all_statuses :: "HealthStatus list" where
  "all_statuses = [H_Healthy, H_Degraded, H_Unhealthy, H_Critical, H_Unknown]"

definition test_as_str_values_are_unique_in_status :: bool where
  "test_as_str_values_are_unique_in_status \<longleftrightarrow> all_inserted (map HealthStatus_as_str all_statuses)"

definition test_ordering_is_strictly_increasing_in_status :: bool where
  "test_ordering_is_strictly_increasing_in_status \<longleftrightarrow> (\<forall>(a, b) \<in> set (zip all_statuses (tl all_statuses)). a < b)"

definition test_unknown_ranks_worst :: bool where
  "test_unknown_ranks_worst \<longleftrightarrow> (\<forall>s \<in> {H_Healthy, H_Degraded, H_Unhealthy, H_Critical}. s < H_Unknown)"

definition test_is_healthy_only_for_healthy :: bool where
  "test_is_healthy_only_for_healthy \<longleftrightarrow> (\<forall>s \<in> set all_statuses. HealthStatus_is_healthy s = (s = H_Healthy))"

definition test_is_actionable_for_unhealthy_critical_unknown :: bool where
  "test_is_actionable_for_unhealthy_critical_unknown \<longleftrightarrow>
     (\<forall>s \<in> set all_statuses. HealthStatus_is_actionable s = (s \<in> {H_Unhealthy, H_Critical, H_Unknown}))"

definition test_default_is_unknown :: bool where
  "test_default_is_unknown \<longleftrightarrow> HealthStatus_default = H_Unknown"

definition test_display_is_uppercase_variant_name_in_status :: bool where
  "test_display_is_uppercase_variant_name_in_status \<longleftrightarrow>
     HealthStatus_fmt H_Healthy = ''HEALTHY'' \<and> HealthStatus_fmt H_Unknown = ''UNKNOWN''"

definition test_from_u8_round_trips_known_values :: bool where
  "test_from_u8_round_trips_known_values \<longleftrightarrow> (\<forall>s \<in> set all_statuses. HealthStatus_from_u8 (HealthStatus_as_u8 s) = s)"

definition test_from_u8_unknown_byte_falls_back_to_unknown :: bool where
  "test_from_u8_unknown_byte_falls_back_to_unknown \<longleftrightarrow> HealthStatus_from_u8 255 = H_Unknown"

lemma status_tests_pass: test_as_str_values_are_unique_in_status test_ordering_is_strictly_increasing_in_status
    test_unknown_ranks_worst test_is_healthy_only_for_healthy test_is_actionable_for_unhealthy_critical_unknown
    test_default_is_unknown test_display_is_uppercase_variant_name_in_status test_from_u8_round_trips_known_values
    test_from_u8_unknown_byte_falls_back_to_unknown
  by (simp_all add: test_as_str_values_are_unique_in_status_def test_ordering_is_strictly_increasing_in_status_def
      test_unknown_ranks_worst_def test_is_healthy_only_for_healthy_def test_is_actionable_for_unhealthy_critical_unknown_def
      test_default_is_unknown_def test_display_is_uppercase_variant_name_in_status_def test_from_u8_round_trips_known_values_def
      test_from_u8_unknown_byte_falls_back_to_unknown_def all_statuses_def all_inserted_def HealthStatus_order
      HealthStatus_is_healthy_def HealthStatus_default_def HealthStatus_from_u8_def)

section \<open>check.rs\<close>

text \<open>A trait object: a value and the two methods of its type.\<close>

record 's HealthCheck =
  hc_self :: 's
  hc_name :: "'s \<Rightarrow> string"
  hc_check :: "'s \<Rightarrow> HealthStatus"

record ConstantCheck =
  cc_name :: string
  cc_status :: HealthStatus

definition ConstantCheck_object :: "ConstantCheck \<Rightarrow> ConstantCheck HealthCheck" where
  "ConstantCheck_object c = \<lparr>hc_self = c, hc_name = cc_name, hc_check = cc_status\<rparr>"

definition test_trait_is_object_safe_via_box :: bool where
  "test_trait_is_object_safe_via_box \<longleftrightarrow>
     (let probe = ConstantCheck_object \<lparr>cc_name = ''test'', cc_status = H_Degraded\<rparr>
      in hc_name probe (hc_self probe) = ''test'' \<and> hc_check probe (hc_self probe) = H_Degraded)"

definition test_trait_is_object_safe_via_arc :: bool where
  "test_trait_is_object_safe_via_arc \<longleftrightarrow>
     (let probe = ConstantCheck_object \<lparr>cc_name = ''shared'', cc_status = H_Critical\<rparr>; p2 = probe
      in hc_check probe (hc_self probe) = H_Critical \<and> hc_name p2 (hc_self p2) = ''shared'')"

lemma check_tests_pass: test_trait_is_object_safe_via_box test_trait_is_object_safe_via_arc
  by (simp_all add: test_trait_is_object_safe_via_box_def test_trait_is_object_safe_via_arc_def ConstantCheck_object_def)

section \<open>snapshot.rs\<close>

definition empty_health_snapshot :: "instant \<Rightarrow> HealthSnapshot" where
  "empty_health_snapshot now = \<lparr>hs_aggregate = H_Healthy, hs_subsystems = [], hs_timestamp = now\<rparr>"

definition health_snapshot_with :: "(string \<times> HealthStatus) list \<Rightarrow> instant \<Rightarrow> HealthSnapshot" where
  "health_snapshot_with entries now =
     (let subsystems = fold (\<lambda>(name, status). AList.update name status) entries []
      in \<lparr>hs_aggregate = worst (vals subsystems), hs_subsystems = subsystems, hs_timestamp = now\<rparr>)"

definition test_empty_snapshot_has_no_unhealthy_subsystems :: "instant \<Rightarrow> bool" where
  "test_empty_snapshot_has_no_unhealthy_subsystems now \<longleftrightarrow>
     (let snap = empty_health_snapshot now
      in hs_aggregate snap = H_Healthy \<and> unhealthy_subsystems snap = [] \<and> count_by_status H_Healthy snap = 0)"

definition test_count_by_status_returns_correct_counts :: "instant \<Rightarrow> bool" where
  "test_count_by_status_returns_correct_counts now \<longleftrightarrow>
     (let snap = health_snapshot_with
            [(''a'', H_Healthy), (''b'', H_Healthy), (''c'', H_Degraded), (''d'', H_Critical)] now
      in count_by_status H_Healthy snap = 2 \<and> count_by_status H_Degraded snap = 1 \<and>
         count_by_status H_Critical snap = 1 \<and> count_by_status H_Unknown snap = 0)"

definition test_unhealthy_subsystems_returns_sorted_actionable_names :: "instant \<Rightarrow> bool" where
  "test_unhealthy_subsystems_returns_sorted_actionable_names now \<longleftrightarrow>
     (let snap = health_snapshot_with
            [(''zebra'', H_Unhealthy), (''apple'', H_Healthy), (''mango'', H_Critical), (''banana'', H_Unknown)] now
      in unhealthy_subsystems snap = [''banana'', ''mango'', ''zebra''])"

lemma health_snapshot_tests_pass: "test_empty_snapshot_has_no_unhealthy_subsystems now"
    "test_count_by_status_returns_correct_counts now" "test_unhealthy_subsystems_returns_sorted_actionable_names now"
  by (simp_all add: test_empty_snapshot_has_no_unhealthy_subsystems_def test_count_by_status_returns_correct_counts_def
      test_unhealthy_subsystems_returns_sorted_actionable_names_def empty_health_snapshot_def health_snapshot_with_def
      unhealthy_subsystems_def count_by_status_def Let_def less_char_def)

section \<open>registry.rs\<close>

text \<open>A sequence of reports: a name, a status and the reading of the clock of each.\<close>

fun report_all :: "(string \<times> HealthStatus \<times> instant) list \<Rightarrow> HealthRegistry \<Rightarrow> HealthRegistry \<times> effect list" where
  "report_all [] r = (r, [])"
| "report_all ((name, status, now) # ps) r =
     (let (r, fx) = HealthRegistry_report name status now r; (r, fx') = report_all ps r in (r, fx @ fx'))"

definition test_empty_registry_aggregate_is_healthy :: "instant \<Rightarrow> bool" where
  "test_empty_registry_aggregate_is_healthy now \<longleftrightarrow>
     (let r = HealthRegistry_new
      in HealthRegistry_aggregate r = H_Healthy \<and> length (hs_subsystems (HealthRegistry_snapshot now r)) = 0)"

definition test_single_report_drives_aggregate :: "instant \<Rightarrow> bool" where
  "test_single_report_drives_aggregate now \<longleftrightarrow>
     (let r = fst (report_all [(''a'', H_Degraded, now)] HealthRegistry_new)
      in HealthRegistry_aggregate r = H_Degraded \<and> HealthRegistry_subsystem ''a'' r = Some H_Degraded)"

definition test_aggregate_is_max_across_subsystems :: "(nat \<Rightarrow> instant) \<Rightarrow> bool" where
  "test_aggregate_is_max_across_subsystems ts \<longleftrightarrow>
     (let r = fst (report_all [(''a'', H_Degraded, ts 0), (''b'', H_Critical, ts 1), (''c'', H_Healthy, ts 2)] HealthRegistry_new)
      in HealthRegistry_aggregate r = H_Critical)"

definition test_repeated_report_replaces_state :: "(nat \<Rightarrow> instant) \<Rightarrow> bool" where
  "test_repeated_report_replaces_state ts \<longleftrightarrow>
     (let r = fst (report_all [(''a'', H_Degraded, ts 0), (''a'', H_Critical, ts 1)] HealthRegistry_new)
      in HealthRegistry_subsystem ''a'' r = Some H_Critical \<and> HealthRegistry_aggregate r = H_Critical)"

definition test_aggregate_drops_when_only_subsystem_recovers :: "(nat \<Rightarrow> instant) \<Rightarrow> bool" where
  "test_aggregate_drops_when_only_subsystem_recovers ts \<longleftrightarrow>
     (let (r1, _) = report_all [(''a'', H_Critical, ts 0)] HealthRegistry_new; (r2, _) = report_all [(''a'', H_Healthy, ts 1)] r1
      in HealthRegistry_aggregate r1 = H_Critical \<and> HealthRegistry_aggregate r2 = H_Healthy)"

definition test_aggregate_holds_when_other_subsystem_is_worst :: "(nat \<Rightarrow> instant) \<Rightarrow> bool" where
  "test_aggregate_holds_when_other_subsystem_is_worst ts \<longleftrightarrow>
     (let r = fst (report_all [(''a'', H_Critical, ts 0), (''b'', H_Critical, ts 1), (''a'', H_Healthy, ts 2)] HealthRegistry_new)
      in HealthRegistry_aggregate r = H_Critical)"

definition test_unknown_drives_aggregate_above_critical :: "(nat \<Rightarrow> instant) \<Rightarrow> bool" where
  "test_unknown_drives_aggregate_above_critical ts \<longleftrightarrow>
     (let r = fst (report_all [(''a'', H_Critical, ts 0), (''b'', H_Unknown, ts 1)] HealthRegistry_new)
      in HealthRegistry_aggregate r = H_Unknown)"

definition test_handle_clone_shares_state :: "instant \<Rightarrow> bool" where
  "test_handle_clone_shares_state now \<longleftrightarrow>
     (let r = fst (HealthHandle_report ''a'' H_Critical now HealthRegistry_new) in HealthHandle_aggregate r = H_Critical)"

text \<open>One report on a registry whose aggregate is known.\<close>

definition registry :: "(string \<times> HealthStatus) list \<Rightarrow> HealthStatus \<Rightarrow> bool \<Rightarrow> HealthRegistry" where
  "registry table aggregate events = \<lparr>hr_subsystems = table, hr_aggregate = HealthStatus_as_u8 aggregate, hr_events = events\<rparr>"

lemma registry_simps: "hr_load (registry table aggregate events) = aggregate" "hr_subsystems (registry table aggregate events) = table"
    "HealthRegistry_new = registry [] H_Healthy False" "HealthRegistry_with_events = registry [] H_Healthy True"
  by (simp_all add: registry_def hr_load_def HealthRegistry_new_def HealthRegistry_with_events_def HealthInner_new_def)

lemma report_registry:
  "report name status now (registry table aggregate events) =
     (let table' = AList.update name status table; next = next_aggregate aggregate (map_of table name) status table'
      in (registry table' next events,
          if map_of table name = Some status \<or> \<not> events then []
          else report_effects name (map_of table name) status aggregate next now))"
  by (simp add: report_def report_commit_def registry_simps Let_def) (simp add: registry_def hr_store_def)

lemmas health_test_simps = registry_simps report_registry hr_snapshot_def hr_subsystem_def next_aggregate_def report_effects_def
  HealthStatus_order max_def Let_def

lemma health_registry_tests_pass: "test_empty_registry_aggregate_is_healthy now" "test_single_report_drives_aggregate now"
    "test_aggregate_is_max_across_subsystems ts" "test_repeated_report_replaces_state ts"
    "test_aggregate_drops_when_only_subsystem_recovers ts" "test_aggregate_holds_when_other_subsystem_is_worst ts"
    "test_unknown_drives_aggregate_above_critical ts" "test_handle_clone_shares_state now"
  by (simp_all add: test_empty_registry_aggregate_is_healthy_def test_single_report_drives_aggregate_def
      test_aggregate_is_max_across_subsystems_def test_repeated_report_replaces_state_def
      test_aggregate_drops_when_only_subsystem_recovers_def test_aggregate_holds_when_other_subsystem_is_worst_def
      test_unknown_drives_aggregate_above_critical_def test_handle_clone_shares_state_def health_test_simps)

text \<open>The subscribers of the event tests count the events that match a pattern, or collect the changes of the aggregate.\<close>

definition count_matching :: "unit \<Rightarrow> (KernelEvent \<Rightarrow> bool) \<Rightarrow> KernelEvent \<Rightarrow> nat \<Rightarrow> nat handler_result" where
  "count_matching _ P event n = Finished (if P event then n + 1 else n)"

fun is_storage_change :: "KernelEvent \<Rightarrow> bool" where
  "is_storage_change (Health (SubsystemChanged subsystem _ _ _)) \<longleftrightarrow> subsystem = ''storage''"
| "is_storage_change _ \<longleftrightarrow> False"

fun is_health :: "KernelEvent \<Rightarrow> bool" where
  "is_health (Health _) = True"
| "is_health _ = False"

fun is_transition :: "KernelEvent \<Rightarrow> bool" where
  "is_transition (Lifecycle (Transition _ _ _)) = True"
| "is_transition _ = False"

fun collect_aggregate :: "unit \<Rightarrow> KernelEvent \<Rightarrow> (HealthStatus \<times> HealthStatus) list \<Rightarrow>
    (HealthStatus \<times> HealthStatus) list handler_result" where
  "collect_aggregate _ (Health (AggregateChanged from to _)) l = Finished (l @ [(from, to)])"
| "collect_aggregate _ _ l = Finished l"

definition one_subscriber :: "string \<Rightarrow> unit dispatcher" where
  "one_subscriber topic = snd (EventDispatcher_subscribe topic () EventDispatcher_new)"

lemma one_subscriber_handlers [simp]:
  "emit_handlers e (one_subscriber topic) = (if KernelEvent_topic e = topic then [()] else [])"
  by (simp add: one_subscriber_def emit_handlers_def subscribe_def dispatcher_new_def Let_def)

definition test_subsystem_changed_event_fires_per_unique_state :: "(nat \<Rightarrow> instant) \<Rightarrow> bool" where
  "test_subsystem_changed_event_fires_per_unique_state ts \<longleftrightarrow>
     (let dispatcher = one_subscriber ''kernel.health.storage'';
          (_, fx) = report_all [(''storage'', H_Degraded, ts 0), (''storage'', H_Degraded, ts 1), (''storage'', H_Critical, ts 2)]
             HealthRegistry_with_events
      in deliver (\<lambda>h. count_matching h is_storage_change) dispatcher fx 0 = 2)"

definition test_aggregate_changed_event_fires_only_on_max_change :: "(nat \<Rightarrow> instant) \<Rightarrow> bool" where
  "test_aggregate_changed_event_fires_only_on_max_change ts \<longleftrightarrow>
     (let dispatcher = one_subscriber ''kernel.health.aggregate'';
          (_, fx) = report_all [(''a'', H_Degraded, ts 0), (''b'', H_Degraded, ts 1), (''a'', H_Critical, ts 2),
             (''b'', H_Healthy, ts 3), (''a'', H_Healthy, ts 4)] HealthRegistry_with_events
      in deliver collect_aggregate dispatcher fx [] =
           [(H_Healthy, H_Degraded), (H_Degraded, H_Critical), (H_Critical, H_Healthy)])"

definition test_no_event_when_status_unchanged :: "(nat \<Rightarrow> instant) \<Rightarrow> bool" where
  "test_no_event_when_status_unchanged ts \<longleftrightarrow>
     (let dispatcher = one_subscriber ''kernel.health.storage'';
          (r, fx1) = report_all [(''storage'', H_Healthy, ts 0)] HealthRegistry_with_events;
          after_first = deliver (\<lambda>h. count_matching h is_health) dispatcher fx1 0;
          (r, fx2) = report_all [(''storage'', H_Healthy, ts 1)] r
      in deliver (\<lambda>h. count_matching h is_health) dispatcher fx2 after_first = after_first)"

definition test_unrelated_subscriber_unaffected :: "instant \<Rightarrow> bool" where
  "test_unrelated_subscriber_unaffected now \<longleftrightarrow>
     (let dispatcher = one_subscriber ''kernel.lifecycle.running'';
          (_, fx) = report_all [(''storage'', H_Critical, now)] HealthRegistry_with_events
      in deliver (\<lambda>h. count_matching h is_transition) dispatcher fx 0 = 0)"

lemma health_topics [simp]: "health_topic ''aggregate'' = ''kernel.health.aggregate''"
    "health_topic ''storage'' = ''kernel.health.storage''" "health_topic ''a'' = ''kernel.health.unknown''"
    "health_topic ''b'' = ''kernel.health.unknown''"
  by (simp_all add: health_topic_def)

lemma health_event_tests_pass: "test_subsystem_changed_event_fires_per_unique_state ts"
    "test_aggregate_changed_event_fires_only_on_max_change ts" "test_no_event_when_status_unchanged ts"
    "test_unrelated_subscriber_unaffected now"
  by (simp_all add: test_subsystem_changed_event_fires_per_unique_state_def
      test_aggregate_changed_event_fires_only_on_max_change_def test_no_event_when_status_unchanged_def
      test_unrelated_subscriber_unaffected_def deliver_def emit_def count_matching_def health_test_simps)

section \<open>Metrics\<close>

definition all_metrics :: "KernelMetric list" where
  "all_metrics = [LifecyclePhase, LifecycleTransitions, ErrorsBySeverity, HealthAggregate, WorkersRunning, WorkersFailed,
     WorkersRestarted, ShutdownDuration]"

definition test_every_variant_has_unique_name :: bool where
  "test_every_variant_has_unique_name \<longleftrightarrow>
     all_inserted (map KernelMetric_name all_metrics) \<and> card (set (map KernelMetric_name all_metrics)) = length all_metrics"

definition test_kinds_match_specification :: bool where
  "test_kinds_match_specification \<longleftrightarrow>
     KernelMetric_kind LifecyclePhase = GaugeKind \<and> KernelMetric_kind LifecycleTransitions = CounterKind \<and>
     KernelMetric_kind ErrorsBySeverity = CounterKind \<and> KernelMetric_kind HealthAggregate = GaugeKind \<and>
     KernelMetric_kind WorkersRunning = GaugeKind \<and> KernelMetric_kind WorkersFailed = CounterKind \<and>
     KernelMetric_kind WorkersRestarted = CounterKind \<and> KernelMetric_kind ShutdownDuration = HistogramKind"

definition test_kernel_metric_names_lists_all :: bool where
  "test_kernel_metric_names_lists_all \<longleftrightarrow>
     (let names = kernel_metric_names
      in length names = length all_metrics \<and> (\<forall>m \<in> set all_metrics. KernelMetric_name m \<in> set names))"

definition test_constants_match_enum_names :: bool where
  "test_constants_match_enum_names \<longleftrightarrow>
     KernelMetric_name LifecyclePhase = LIFECYCLE_PHASE \<and> KernelMetric_name ShutdownDuration = SHUTDOWN_DURATION"

record CountingBackend =
  cb_counters :: u64
  cb_gauges :: u64
  cb_histograms :: u64

definition CountingBackend_default :: CountingBackend where
  "CountingBackend_default = \<lparr>cb_counters = 0, cb_gauges = 0, cb_histograms = 0\<rparr>"

fun counting_call :: "effect \<Rightarrow> CountingBackend \<Rightarrow> CountingBackend" where
  "counting_call (Counter _ _ _) b = b\<lparr>cb_counters := cb_counters b + 1\<rparr>"
| "counting_call (Gauge _ _ _) b = b\<lparr>cb_gauges := cb_gauges b + 1\<rparr>"
| "counting_call (Histogram _ _ _) b = b\<lparr>cb_histograms := cb_histograms b + 1\<rparr>"
| "counting_call (Emit _) b = b"

definition test_empty_labels_are_supported :: bool where
  "test_empty_labels_are_supported \<longleftrightarrow>
     (let backend = CountingBackend_default; backend = counting_call (Counter ''x'' 1 []) backend in cb_counters backend = 1)"

definition test_noop_backend_does_nothing_observable :: "'b \<Rightarrow> bool" where
  "test_noop_backend_does_nothing_observable b \<longleftrightarrow>
     fold NoopMetricsBackend [Counter ''a'' 1 [], Gauge ''b'' 1 [], Histogram ''c'' 1 []] b = b"

definition test_noop_backend_works_behind_arc_dyn_metricsbackend :: "'b \<Rightarrow> bool" where
  "test_noop_backend_works_behind_arc_dyn_metricsbackend handle \<longleftrightarrow>
     fold NoopMetricsBackend
       [Counter ''x'' 1 [(''k'', ''v'')], Gauge ''y'' (1 / 2) [(''k'', ''v'')], Histogram ''z'' (1 / 2) [(''k'', ''v'')]] handle =
     handle"

definition test_empty_snapshot_is_empty :: "instant \<Rightarrow> bool" where
  "test_empty_snapshot_is_empty now \<longleftrightarrow> (let snap = MetricsSnapshot_empty now in ms_kernel_metrics snap = Map.empty)"

definition test_kernel_metrics_round_trip :: "instant \<Rightarrow> bool" where
  "test_kernel_metrics_round_trip now \<longleftrightarrow>
     (let snap = MetricsSnapshot_empty now;
          snap = snap\<lparr>ms_kernel_metrics := (ms_kernel_metrics snap)(LIFECYCLE_PHASE \<mapsto> MV_Gauge 2)\<rparr>
      in LIFECYCLE_PHASE \<in> dom (ms_kernel_metrics snap))"

lemma metric_tests_pass: test_every_variant_has_unique_name test_kinds_match_specification test_kernel_metric_names_lists_all
    test_constants_match_enum_names test_empty_labels_are_supported "test_noop_backend_does_nothing_observable b"
    "test_noop_backend_works_behind_arc_dyn_metricsbackend b" "test_empty_snapshot_is_empty now" "test_kernel_metrics_round_trip now"
  by (simp_all add: test_every_variant_has_unique_name_def test_kinds_match_specification_def
      test_kernel_metric_names_lists_all_def test_constants_match_enum_names_def test_empty_labels_are_supported_def
      test_noop_backend_does_nothing_observable_def test_noop_backend_works_behind_arc_dyn_metricsbackend_def
      test_empty_snapshot_is_empty_def test_kernel_metrics_round_trip_def all_metrics_def all_inserted_def metric_name_defs
      kernel_metric_names_def CountingBackend_default_def NoopMetricsBackend_def MetricsSnapshot_empty_def)

end
