(* ===== verification/Tests_Policies.thy ===== *)
theory Tests_Policies
  imports Worker_Policies Worker_Types Tests_Prelude
begin

text \<open>
  The unit tests of the worker value types (src/worker/criticality.rs, state.rs, panic.rs, event.rs) and of src/worker/policy, evaluated
  on the model.
\<close>

section \<open>criticality.rs and state.rs\<close>

definition all_criticalities :: "Criticality list" where
  "all_criticalities = [Background, Optional, Essential, CriticalWorker]"

definition test_as_str_unique_in_criticality :: bool where
  "test_as_str_unique_in_criticality \<longleftrightarrow> all_inserted (map Criticality_as_str all_criticalities)"

definition test_ordering_is_strictly_increasing_in_criticality :: bool where
  "test_ordering_is_strictly_increasing_in_criticality \<longleftrightarrow>
     (\<forall>(a, b) \<in> set (zip all_criticalities (tl all_criticalities)). a < b)"

definition test_default_is_optional :: bool where
  "test_default_is_optional \<longleftrightarrow> Criticality_default = Optional"

definition test_display_is_uppercase :: bool where
  "test_display_is_uppercase \<longleftrightarrow> Criticality_fmt CriticalWorker = ''CRITICAL''"

definition all_worker_states :: "WorkerState list" where
  "all_worker_states = [WCreated, WStarting, WRunning, WIdle, WBusy, WFailed, WRestarting, WStopping, WStopped]"

definition test_as_str_unique_in_state :: bool where
  "test_as_str_unique_in_state \<longleftrightarrow> all_inserted (map WorkerState_as_str all_worker_states)"

definition test_is_terminal_only_stopped :: bool where
  "test_is_terminal_only_stopped \<longleftrightarrow> (\<forall>s \<in> set all_worker_states. WorkerState_is_terminal s = (s = WStopped))"

definition test_is_active_for_running_idle_busy :: bool where
  "test_is_active_for_running_idle_busy \<longleftrightarrow> (\<forall>s \<in> set all_worker_states. WorkerState_is_active s = (s \<in> {WRunning, WIdle, WBusy}))"

definition test_from_u8_round_trips :: bool where
  "test_from_u8_round_trips \<longleftrightarrow> (\<forall>s \<in> set all_worker_states. WorkerState_from_u8 (WorkerState_as_u8 s) = s)"

definition test_from_u8_out_of_range_falls_back_to_stopped :: bool where
  "test_from_u8_out_of_range_falls_back_to_stopped \<longleftrightarrow> WorkerState_from_u8 255 = WStopped"

lemma worker_state_tests_pass: test_as_str_unique_in_criticality test_ordering_is_strictly_increasing_in_criticality
    test_default_is_optional test_display_is_uppercase test_as_str_unique_in_state test_is_terminal_only_stopped
    test_is_active_for_running_idle_busy test_from_u8_round_trips test_from_u8_out_of_range_falls_back_to_stopped
  by (simp_all add: test_as_str_unique_in_criticality_def test_ordering_is_strictly_increasing_in_criticality_def
      test_default_is_optional_def test_display_is_uppercase_def test_as_str_unique_in_state_def test_is_terminal_only_stopped_def
      test_is_active_for_running_idle_busy_def test_from_u8_round_trips_def test_from_u8_out_of_range_falls_back_to_stopped_def
      all_criticalities_def all_worker_states_def all_inserted_def Criticality_default_def less_Criticality_def WorkerState_from_u8_def)

section \<open>panic.rs\<close>

definition test_catch_panic_passes_through_normal_value :: bool where
  "test_catch_panic_passes_through_normal_value \<longleftrightarrow> catch_panic (Returned (42 :: int)) = Inr 42"

definition test_catch_panic_classifies_static_str :: bool where
  "test_catch_panic_classifies_static_str \<longleftrightarrow>
     (case catch_panic (Unwound (PayloadStaticStr ''boom'') :: unit unwind) of
        Inl (PR_StaticStr msg) \<Rightarrow> msg = ''boom'' | _ \<Rightarrow> False)"

definition test_catch_panic_classifies_string_payload :: bool where
  "test_catch_panic_classifies_string_payload \<longleftrightarrow>
     (case catch_panic (Unwound (PayloadString ''dynamic'') :: unit unwind) of
        Inl (PR_String s) \<Rightarrow> s = ''dynamic'' | _ \<Rightarrow> False)"

definition test_catch_panic_classifies_unknown_payload :: bool where
  "test_catch_panic_classifies_unknown_payload \<longleftrightarrow> catch_panic (Unwound PayloadOther :: unit unwind) = Inl PR_Unknown"

definition test_message_returns_useful_string :: "(string \<Rightarrow> string \<Rightarrow> string) \<Rightarrow> bool" where
  "test_message_returns_useful_string translate \<longleftrightarrow>
     PanicReason_message translate (PR_StaticStr ''hi'') = ''hi'' \<and> PanicReason_message translate (PR_String ''dyn'') = ''dyn'' \<and>
     PanicReason_message translate PR_Unknown \<noteq> []"

definition test_display_includes_prefix_and_message :: "(string \<Rightarrow> string \<Rightarrow> string) \<Rightarrow> bool" where
  "test_display_includes_prefix_and_message translate \<longleftrightarrow>
     (let rendered = PanicReason_fmt translate (PR_StaticStr ''boom'') in contains rendered ''boom'')"

lemma panic_tests_pass: test_catch_panic_passes_through_normal_value test_catch_panic_classifies_static_str
    test_catch_panic_classifies_string_payload test_catch_panic_classifies_unknown_payload
    "test_display_includes_prefix_and_message translate"
  by (simp_all add: test_catch_panic_passes_through_normal_value_def test_catch_panic_classifies_static_str_def
      test_catch_panic_classifies_string_payload_def test_catch_panic_classifies_unknown_payload_def
      test_display_includes_prefix_and_message_def PanicReason_fmt_def contains_append)

lemma message_passes: "(\<And>key fallback. translate key fallback = fallback) \<Longrightarrow> test_message_returns_useful_string translate"
  by (simp add: test_message_returns_useful_string_def)

section \<open>event.rs\<close>

definition test_kind_names_are_unique :: "instant \<Rightarrow> bool" where
  "test_kind_names_are_unique now \<longleftrightarrow>
     (let (i, _) = next_worker_id IdGenerator_new
      in all_inserted (map WorkerLifecycleEvent_kind
           [Ev_Started i ''n'' now, Ev_Heartbeat i now, Ev_BecameIdle i now, Ev_BecameBusy i now, Ev_Failed i ''n'' ''boom'' now,
            Ev_Panicked i ''n'' (PR_StaticStr ''boom'') now, Ev_Restarted i ''n'' 1 now, Ev_Stopping i now, Ev_Stopped i ''n'' now,
            Ev_CircuitOpened i ''n'' 3 now, Ev_CircuitHalfOpened i ''n'' now, Ev_CircuitClosed i ''n'' now,
            Ev_Timeout i ''n'' (from_secs 1) now]))"

definition test_worker_id_round_trips :: "instant \<Rightarrow> bool" where
  "test_worker_id_round_trips now \<longleftrightarrow>
     (let (i, _) = next_worker_id IdGenerator_new; event = Ev_Started i ''n'' now in WorkerLifecycleEvent_worker_id event = i)"

lemma worker_event_tests_pass: "test_kind_names_are_unique now" "test_worker_id_round_trips now"
  by (simp_all add: test_kind_names_are_unique_def test_worker_id_round_trips_def all_inserted_def split: prod.split)

section \<open>policy/restart.rs\<close>

definition test_never_returns_false :: bool where
  "test_never_returns_false \<longleftrightarrow> \<not> should_restart True 0 Never \<and> \<not> should_restart False 0 Never"

definition test_on_failure_returns_has_failed :: bool where
  "test_on_failure_returns_has_failed \<longleftrightarrow> (let p = OnFailure in should_restart True 0 p \<and> \<not> should_restart False 0 p)"

definition test_always_returns_true :: bool where
  "test_always_returns_true \<longleftrightarrow> (let p = Always in should_restart True 99 p \<and> should_restart False 0 p)"

definition test_max_retries_under_threshold :: bool where
  "test_max_retries_under_threshold \<longleftrightarrow>
     (let p = MaxRetries 3 (from_secs 60) in should_restart True 0 p \<and> should_restart True 2 p)"

definition test_max_retries_at_or_above_threshold_stops :: bool where
  "test_max_retries_at_or_above_threshold_stops \<longleftrightarrow>
     (let p = MaxRetries 3 (from_secs 60) in \<not> should_restart True 3 p \<and> \<not> should_restart True 4 p)"

definition test_max_retries_does_not_restart_clean_completion :: bool where
  "test_max_retries_does_not_restart_clean_completion \<longleftrightarrow> (let p = MaxRetries 5 (from_secs 60) in \<not> should_restart False 0 p)"

definition test_default_is_on_failure :: bool where
  "test_default_is_on_failure \<longleftrightarrow> RestartPolicy_default = OnFailure"

lemma restart_tests_pass: test_never_returns_false test_on_failure_returns_has_failed test_always_returns_true
    test_max_retries_under_threshold test_max_retries_at_or_above_threshold_stops
    test_max_retries_does_not_restart_clean_completion test_default_is_on_failure
  by (simp_all add: test_never_returns_false_def test_on_failure_returns_has_failed_def test_always_returns_true_def
      test_max_retries_under_threshold_def test_max_retries_at_or_above_threshold_stops_def
      test_max_retries_does_not_restart_clean_completion_def test_default_is_on_failure_def RestartPolicy_default_def)

section \<open>policy/backoff.rs\<close>

definition test_none_returns_zero_duration :: bool where
  "test_none_returns_zero_duration \<longleftrightarrow> backoff_delay 0 BackoffNone = 0 \<and> backoff_delay 99 BackoffNone = 0"

definition test_fixed_returns_constant_duration :: bool where
  "test_fixed_returns_constant_duration \<longleftrightarrow>
     (let p = Fixed (from_millis 250) in backoff_delay 0 p = from_millis 250 \<and> backoff_delay 99 p = from_millis 250)"

definition test_exponential_at_attempt_zero_is_base :: bool where
  "test_exponential_at_attempt_zero_is_base \<longleftrightarrow>
     (let p = Exponential (from_millis 100) (from_secs 30) in backoff_delay 0 p = from_millis 100)"

definition test_exponential_doubles_each_attempt :: bool where
  "test_exponential_doubles_each_attempt \<longleftrightarrow>
     (let p = Exponential (from_millis 100) (from_secs 60)
      in backoff_delay 1 p = from_millis 200 \<and> backoff_delay 2 p = from_millis 400 \<and> backoff_delay 5 p = from_millis 3200)"

definition test_exponential_saturates_at_max :: bool where
  "test_exponential_saturates_at_max \<longleftrightarrow>
     (let p = Exponential (from_millis 100) (from_secs 1)
      in backoff_delay 4 p = from_secs 1 \<and> backoff_delay 64 p = from_secs 1 \<and> backoff_delay (- 1) p = from_secs 1)"

definition test_default_is_exponential_100ms_30s :: bool where
  "test_default_is_exponential_100ms_30s \<longleftrightarrow> BackoffPolicy_default = Exponential (from_millis 100) (from_secs 30)"

lemma backoff_tests_pass: test_none_returns_zero_duration test_fixed_returns_constant_duration
    test_exponential_at_attempt_zero_is_base test_exponential_doubles_each_attempt test_exponential_saturates_at_max
    test_default_is_exponential_100ms_30s
  by (simp_all add: test_none_returns_zero_duration_def test_fixed_returns_constant_duration_def
      test_exponential_at_attempt_zero_is_base_def test_exponential_doubles_each_attempt_def test_exponential_saturates_at_max_def
      test_default_is_exponential_100ms_30s_def BackoffPolicy_default_def backoff_exponential from_millis_def from_secs_def
      nanos_per_sec_def duration_max_value unsigned_minus_1_eq_mask mask_eq_exp_minus_1 del: backoff_delay.simps(3))

section \<open>policy/circuit.rs\<close>

definition breaker_with :: "u32 \<Rightarrow> duration \<Rightarrow> duration \<Rightarrow> CircuitBreaker" where
  "breaker_with threshold window open_duration = CircuitBreaker_new (CircuitPolicy_new threshold window open_duration)"

text \<open>The readings of the clock are \<open>t1\<close>, \<open>t2\<close> and so on, in the order in which the calls make them.\<close>

definition test_default_policy_values :: bool where
  "test_default_policy_values \<longleftrightarrow>
     (let p = CircuitPolicy_default
      in cp_failure_threshold p = 3 \<and> cp_failure_window p = from_secs 60 \<and> cp_open_duration p = from_secs 30)"

definition test_new_breaker_is_closed :: bool where
  "test_new_breaker_is_closed \<longleftrightarrow>
     (let b = breaker_with 3 (from_secs 60) (from_secs 30) in circuit_state b = Closed \<and> circuit_allow b)"

definition test_failures_under_threshold_stay_closed :: "instant \<Rightarrow> instant \<Rightarrow> bool" where
  "test_failures_under_threshold_stay_closed t1 t2 \<longleftrightarrow>
     (let b = breaker_with 3 (from_secs 60) (from_secs 30); (s1, b) = record_failure t1 b; (s2, b) = record_failure t2 b
      in s1 = Closed \<and> s2 = Closed \<and> circuit_state b = Closed)"

definition test_failures_at_threshold_open_breaker :: "instant \<Rightarrow> instant \<Rightarrow> bool" where
  "test_failures_at_threshold_open_breaker t1 t2 \<longleftrightarrow>
     (let b = breaker_with 2 (from_secs 60) (from_secs 30); (s1, b) = record_failure t1 b; (s2, b) = record_failure t2 b
      in s1 = Closed \<and> s2 = Open \<and> \<not> circuit_allow b)"

definition test_threshold_zero_opens_on_first_failure :: "instant \<Rightarrow> bool" where
  "test_threshold_zero_opens_on_first_failure t1 \<longleftrightarrow>
     (let b = breaker_with 0 (from_secs 60) (from_secs 30) in fst (record_failure t1 b) = Open)"

definition test_record_success_resets_to_closed :: "instant \<Rightarrow> instant \<Rightarrow> bool" where
  "test_record_success_resets_to_closed t1 t2 \<longleftrightarrow>
     (let b = breaker_with 2 (from_secs 60) (from_secs 30); (_, b) = record_failure t1 b; (_, b) = record_failure t2 b;
          (s, b') = record_success b
      in circuit_state b = Open \<and> s = Closed \<and> circuit_allow b')"

definition test_tick_advances_open_to_halfopen_after_duration :: "instant \<Rightarrow> instant \<Rightarrow> bool" where
  "test_tick_advances_open_to_halfopen_after_duration t1 t2 \<longleftrightarrow>
     (let b = breaker_with 1 (from_secs 60) (from_millis 20); (s1, b) = record_failure t1 b; (s2, b) = circuit_tick t2 b
      in s1 = Open \<and> s2 = HalfOpen \<and> circuit_allow b)"

definition test_tick_holds_open_before_duration :: "instant \<Rightarrow> instant \<Rightarrow> bool" where
  "test_tick_holds_open_before_duration t1 t2 \<longleftrightarrow>
     (let b = breaker_with 1 (from_secs 60) (from_secs 30); (s1, b) = record_failure t1 b; (s2, b) = circuit_tick t2 b
      in s1 = Open \<and> s2 = Open)"

definition test_halfopen_failure_returns_to_open :: "instant \<Rightarrow> instant \<Rightarrow> instant \<Rightarrow> bool" where
  "test_halfopen_failure_returns_to_open t1 t2 t3 \<longleftrightarrow>
     (let b = breaker_with 1 (from_secs 60) (from_millis 10); (_, b) = record_failure t1 b; (s2, b) = circuit_tick t2 b;
          (s3, b) = record_failure t3 b
      in s2 = HalfOpen \<and> s3 = Open)"

definition test_halfopen_success_returns_to_closed :: "instant \<Rightarrow> instant \<Rightarrow> bool" where
  "test_halfopen_success_returns_to_closed t1 t2 \<longleftrightarrow>
     (let b = breaker_with 1 (from_secs 60) (from_millis 10); (_, b) = record_failure t1 b; (_, b) = circuit_tick t2 b;
          (s3, b) = record_success b
      in s3 = Closed)"

definition test_allow_per_state :: "instant \<Rightarrow> instant \<Rightarrow> bool" where
  "test_allow_per_state t1 t2 \<longleftrightarrow>
     (let b0 = breaker_with 1 (from_secs 60) (from_millis 10); (_, b1) = record_failure t1 b0; (_, b2) = circuit_tick t2 b1
      in circuit_allow b0 \<and> \<not> circuit_allow b1 \<and> circuit_allow b2)"

definition test_stale_failures_outside_window_reset_counter :: "instant \<Rightarrow> instant \<Rightarrow> instant \<Rightarrow> bool" where
  "test_stale_failures_outside_window_reset_counter t1 t2 t3 \<longleftrightarrow>
     (let b = breaker_with 3 (from_millis 10) (from_secs 30); (_, b) = record_failure t1 b; (_, b) = record_failure t2 b;
          (s3, b) = record_failure t3 b
      in s3 = Closed)"

definition test_circuit_state_default_is_closed :: bool where
  "test_circuit_state_default_is_closed \<longleftrightarrow> CircuitState_default = Closed"

lemma below_threshold: "\<not> (3 :: u32) \<le> 1" "\<not> (2 :: u32) \<le> 1"
  by (simp_all add: word_le_nat_alt)

lemmas circuit_test_simps = below_threshold breaker_with_def CircuitBreaker_new_def CircuitPolicy_new_def CircuitPolicy_default_def circuit_state_def
  record_failure_def record_success_def circuit_tick_def circuit_allow_def count_failure_def Instant_duration_since_def
  from_millis_def from_secs_def nanos_per_sec_def nat_le_iff circuit_cell.dec_enc Let_def

lemma circuit_tests_pass: test_default_policy_values test_new_breaker_is_closed
    "t1 \<le> t2 \<Longrightarrow> test_failures_under_threshold_stay_closed t1 t2"
    "t1 \<le> t2 \<Longrightarrow> t2 \<le> t1 + 60000000000 \<Longrightarrow> test_failures_at_threshold_open_breaker t1 t2"
    "test_threshold_zero_opens_on_first_failure t1"
    "t1 \<le> t2 \<Longrightarrow> t2 \<le> t1 + 60000000000 \<Longrightarrow> test_record_success_resets_to_closed t1 t2"
    test_circuit_state_default_is_closed
  by (simp_all add: test_default_policy_values_def test_new_breaker_is_closed_def test_failures_under_threshold_stay_closed_def
      test_failures_at_threshold_open_breaker_def test_threshold_zero_opens_on_first_failure_def
      test_record_success_resets_to_closed_def test_circuit_state_default_is_closed_def CircuitState_default_def circuit_test_simps
      split: if_splits)

lemma halfopen_tests_pass: "t1 + 30000000 \<le> t2 \<Longrightarrow> test_tick_advances_open_to_halfopen_after_duration t1 t2"
    "t1 \<le> t2 \<Longrightarrow> t2 < t1 + 30000000000 \<Longrightarrow> test_tick_holds_open_before_duration t1 t2"
    "t1 + 20000000 \<le> t2 \<Longrightarrow> t2 \<le> t3 \<Longrightarrow> test_halfopen_failure_returns_to_open t1 t2 t3"
    "t1 + 20000000 \<le> t2 \<Longrightarrow> test_halfopen_success_returns_to_closed t1 t2"
    "t1 + 20000000 \<le> t2 \<Longrightarrow> test_allow_per_state t1 t2"
  by (simp_all add: test_tick_advances_open_to_halfopen_after_duration_def test_tick_holds_open_before_duration_def
      test_halfopen_failure_returns_to_open_def test_halfopen_success_returns_to_closed_def test_allow_per_state_def
      circuit_test_simps split: if_splits)

lemma stale_failures_pass: "t1 \<le> t2 \<Longrightarrow> t2 + 20000000 \<le> t3 \<Longrightarrow> test_stale_failures_outside_window_reset_counter t1 t2 t3"
  by (simp add: test_stale_failures_outside_window_reset_counter_def circuit_test_simps split: if_splits)

end
