(* ===== verification/Tests_Worker.thy ===== *)
theory Tests_Worker
  imports Worker_Runtime Tests_Prelude
begin

text \<open>
  The unit tests of src/worker/spec.rs, handle.rs, context.rs, traits.rs and watchdog.rs, evaluated on the model.
\<close>

section \<open>spec.rs\<close>

definition test_new_uses_documented_defaults :: bool where
  "test_new_uses_documented_defaults \<longleftrightarrow>
     (let s = WorkerSpec_new ''alpha''
      in ws_name s = ''alpha'' \<and> ws_criticality s = Optional \<and> ws_restart s = OnFailure \<and> ws_backoff s = BackoffPolicy_default \<and>
         ws_timeout s = None \<and> ws_heartbeat_interval s = None)"

definition test_critical_builder_sets_criticality :: bool where
  "test_critical_builder_sets_criticality \<longleftrightarrow>
     ws_criticality (spec_critical (WorkerSpec_new ''a'')) = CriticalWorker \<and>
     ws_criticality (spec_essential (WorkerSpec_new ''a'')) = Essential \<and>
     ws_criticality (spec_optional (WorkerSpec_new ''a'')) = Optional \<and>
     ws_criticality (spec_background (WorkerSpec_new ''a'')) = Background"

definition test_restart_builders_set_restart_policy :: bool where
  "test_restart_builders_set_restart_policy \<longleftrightarrow>
     ws_restart (spec_restart_never (WorkerSpec_new ''a'')) = Never \<and>
     ws_restart (spec_restart_always (WorkerSpec_new ''a'')) = Always \<and>
     (let s = spec_restart_max_retries 5 (from_secs 60) (WorkerSpec_new ''a'') in ws_restart s = MaxRetries 5 (from_secs 60))"

definition test_backoff_builders_set_backoff_policy :: bool where
  "test_backoff_builders_set_backoff_policy \<longleftrightarrow>
     ws_backoff (spec_backoff_none (WorkerSpec_new ''a'')) = BackoffNone \<and>
     ws_backoff (spec_backoff_fixed (from_millis 50) (WorkerSpec_new ''a'')) = Fixed (from_millis 50) \<and>
     ws_backoff (spec_backoff_exponential (from_millis 10) (from_secs 1) (WorkerSpec_new ''a'')) =
       Exponential (from_millis 10) (from_secs 1)"

definition test_heartbeat_builder_records_interval :: bool where
  "test_heartbeat_builder_records_interval \<longleftrightarrow>
     (let s = spec_heartbeat (from_secs 5) (WorkerSpec_new ''a'') in ws_heartbeat_interval s = Some (from_secs 5))"

definition test_timeout_builder_records_duration :: bool where
  "test_timeout_builder_records_duration \<longleftrightarrow>
     (let s = spec_timeout (from_secs 2) (WorkerSpec_new ''a'') in ws_timeout s = Some (from_secs 2))"

lemma spec_tests_pass: test_new_uses_documented_defaults test_critical_builder_sets_criticality
    test_restart_builders_set_restart_policy test_backoff_builders_set_backoff_policy test_heartbeat_builder_records_interval
    test_timeout_builder_records_duration
  by (simp_all add: test_new_uses_documented_defaults_def test_critical_builder_sets_criticality_def
      test_restart_builders_set_restart_policy_def test_backoff_builders_set_backoff_policy_def
      test_heartbeat_builder_records_interval_def test_timeout_builder_records_duration_def WorkerSpec_new_def spec_critical_def
      spec_essential_def spec_optional_def spec_background_def spec_restart_never_def spec_restart_always_def
      spec_restart_max_retries_def spec_backoff_none_def spec_backoff_fixed_def spec_backoff_exponential_def spec_heartbeat_def
      spec_timeout_def)

section \<open>handle.rs\<close>

text \<open>The cancellation token is shared with the handle: its flag is the one of the handle.\<close>

definition fresh_handle :: WorkerHandle where
  "fresh_handle = WorkerHandle_new (fst (next_worker_id IdGenerator_new)) ''alpha'' False"

definition test_new_handle_in_created_state :: bool where
  "test_new_handle_in_created_state \<longleftrightarrow>
     (let h = fresh_handle in handle_state h = WCreated \<and> \<not> handle_is_active h \<and> wh_name h = ''alpha'')"

definition test_cancel_token_propagates :: bool where
  "test_cancel_token_propagates \<longleftrightarrow> (let h = handle_cancel fresh_handle in wh_cancelled h)"

definition test_set_state_round_trips :: bool where
  "test_set_state_round_trips \<longleftrightarrow>
     (let h = handle_set_state WRunning fresh_handle in handle_state h = WRunning \<and> handle_is_active h)"

text \<open>\<open>d1\<close>, \<open>d2\<close>, \<open>d3\<close> are the readings of the system clock, since the epoch.\<close>

definition test_record_failure_increments_within_window :: "duration \<Rightarrow> duration \<Rightarrow> duration \<Rightarrow> bool" where
  "test_record_failure_increments_within_window d1 d2 d3 \<longleftrightarrow>
     (let window_nanos = 2 ^ 62 - 1;
          (n1, h) = handle_record_failure window_nanos (unix_nanos (Some d1)) fresh_handle;
          (n2, h) = handle_record_failure window_nanos (unix_nanos (Some d2)) h;
          (n3, h) = handle_record_failure window_nanos (unix_nanos (Some d3)) h
      in n1 = 1 \<and> n2 = 2 \<and> n3 = 3)"

definition test_record_failure_resets_outside_window :: "duration \<Rightarrow> duration \<Rightarrow> bool" where
  "test_record_failure_resets_outside_window d1 d2 \<longleftrightarrow>
     (let (_, h) = handle_record_failure 0 (unix_nanos (Some d1)) fresh_handle;
          (n2, h) = handle_record_failure 0 (unix_nanos (Some d2)) h
      in n2 = 1)"

lemmas handle_test_simps = fresh_handle_def WorkerHandle_new_def handle_state_def handle_set_state_def handle_is_active_def
  handle_cancel_def Let_def

lemma worker_handle_tests_pass: test_new_handle_in_created_state test_cancel_token_propagates test_set_state_round_trips
  by (simp_all add: test_new_handle_in_created_state_def test_cancel_token_propagates_def test_set_state_round_trips_def
      WorkerState_from_u8_def handle_test_simps)

text \<open>A reading between 1970 and 2262.\<close>

lemma unix_nanos_reading: "d < 2 ^ 63 \<Longrightarrow> unix_nanos (Some d) = word_of_nat d"
  by (rule signed_word_eqI [where 'a = int]) (use sint_unix_nanos [of "Some d"] in \<open>simp add: duration_max_value sint_small\<close>)

lemma elapsed_nanos:
  assumes "d1 \<le> d2" and "d2 < 2 ^ 63"
  shows "sint (word_of_nat d2 - word_of_nat d1 :: i64) = int (d2 - d1)"
proof -
  have "(word_of_nat d2 - word_of_nat d1 :: i64) = word_of_nat (d2 - d1)"
    using assms(1) by (simp add: of_nat_diff)
  then show ?thesis
    using assms(2) by (simp add: sint_small)
qed

lemma record_failure_increments_passes:
  assumes "0 < d1" and "d1 \<le> d2" and "d2 \<le> d3" and "d3 < d1 + 2 ^ 61" and "d3 < 2 ^ 63"
  shows "test_record_failure_increments_within_window d1 d2 d3"
proof -
  have n: "unix_nanos (Some d1) = word_of_nat d1" "unix_nanos (Some d2) = word_of_nat d2" "unix_nanos (Some d3) = word_of_nat d3"
    using assms by (simp_all add: unix_nanos_reading)
  have "sint (word_of_nat d1 :: i64) = int d1" "sint (word_of_nat d2 :: i64) = int d2"
    using assms by (simp_all add: sint_small)
  then have nz: "(word_of_nat d1 :: i64) \<noteq> 0" "(word_of_nat d2 :: i64) \<noteq> 0"
    using assms by auto
  have "sint (word_of_nat d2 - word_of_nat d1 :: i64) < 2 ^ 62 - 1" "sint (word_of_nat d3 - word_of_nat d2 :: i64) < 2 ^ 62 - 1"
    using assms elapsed_nanos [of d1 d2] elapsed_nanos [of d2 d3] by simp_all
  then show ?thesis
    by (simp add: test_record_failure_increments_within_window_def n handle_record_failure_def nz handle_test_simps not_less)
qed

lemma record_failure_resets_passes:
  assumes "0 < d1" and "d1 + 2000000 \<le> d2" and "d2 < 2 ^ 63"
  shows "test_record_failure_resets_outside_window d1 d2"
proof -
  have n: "unix_nanos (Some d1) = word_of_nat d1" "unix_nanos (Some d2) = word_of_nat d2"
    using assms by (simp_all add: unix_nanos_reading)
  have "0 < sint (word_of_nat d2 - word_of_nat d1 :: i64)"
    using assms elapsed_nanos [of d1 d2] by simp
  then show ?thesis
    by (simp add: test_record_failure_resets_outside_window_def n handle_record_failure_def handle_test_simps)
qed

section \<open>context.rs\<close>

text \<open>The token of \<open>make_ctx\<close> is the flag of the context; cancelling it is what \<open>token.cancel()\<close> does.\<close>

definition make_ctx :: WorkerContext where
  "make_ctx = WorkerContext_new (fst (next_worker_id IdGenerator_new)) ''test-worker'' False 0"

definition cancel_token :: "WorkerContext \<Rightarrow> WorkerContext" where
  "cancel_token ctx = ctx\<lparr>ctx_cancelled := True\<rparr>"

definition test_initial_state :: bool where
  "test_initial_state \<longleftrightarrow>
     (let ctx = make_ctx in ctx_worker_name ctx = ''test-worker'' \<and> \<not> ctx_cancelled ctx \<and> ctx_last_heartbeat ctx = 0)"

definition test_cancel_flips_is_cancelled :: bool where
  "test_cancel_flips_is_cancelled \<longleftrightarrow> (let ctx = cancel_token make_ctx in ctx_cancelled ctx)"

definition test_heartbeat_updates_atomic :: "duration \<Rightarrow> bool" where
  "test_heartbeat_updates_atomic d \<longleftrightarrow> (let ctx = ctx_heartbeat (Some d) make_ctx in sint (ctx_last_heartbeat ctx) > 0)"

definition test_clone_shares_cancellation_state :: bool where
  "test_clone_shares_cancellation_state \<longleftrightarrow> (let ctx = cancel_token make_ctx; clone = ctx in ctx_cancelled clone)"

lemma context_tests_pass: test_initial_state test_cancel_flips_is_cancelled test_clone_shares_cancellation_state
    "0 < d \<Longrightarrow> d < 2 ^ 63 \<Longrightarrow> test_heartbeat_updates_atomic d"
  by (simp_all add: test_initial_state_def test_cancel_flips_is_cancelled_def test_clone_shares_cancellation_state_def
      test_heartbeat_updates_atomic_def make_ctx_def cancel_token_def WorkerContext_new_def ctx_heartbeat_def unix_nanos_reading sint_small)

section \<open>traits.rs\<close>

definition test_worker_error_chains_source :: bool where
  "test_worker_error_chains_source \<longleftrightarrow>
     (let err = WorkerError_with_source ''outer'' ''inner'' in we_message err = ''outer'' \<and> we_source err \<noteq> None)"

definition test_worker_error_display_contains_message :: "(string \<Rightarrow> string \<Rightarrow> string) \<Rightarrow> bool" where
  "test_worker_error_display_contains_message translate \<longleftrightarrow>
     (let err = WorkerError_new ''boom'' in contains (WorkerError_fmt translate err) ''boom'')"

lemma worker_error_tests_pass: test_worker_error_chains_source "test_worker_error_display_contains_message translate"
  by (simp_all add: test_worker_error_chains_source_def test_worker_error_display_contains_message_def WorkerError_with_source_def
      WorkerError_new_def WorkerError_fmt_def contains_append)

section \<open>watchdog.rs\<close>

definition watch_target :: "WorkerId \<Rightarrow> i64 \<Rightarrow> duration \<Rightarrow> WatchdogTarget" where
  "watch_target wid last_nanos interval =
     \<lparr>wt_id = wid, wt_name = ''w'', wt_last_heartbeat_nanos = last_nanos, wt_heartbeat_interval = interval\<rparr>"

definition test_check_with_no_targets_returns_empty :: bool where
  "test_check_with_no_targets_returns_empty \<longleftrightarrow> watchdog_check [] 1000000000 = []"

definition test_check_within_grace_returns_empty :: bool where
  "test_check_within_grace_returns_empty \<longleftrightarrow>
     (let (i, _) = next_worker_id IdGenerator_new; t = watch_target i 1 (from_millis 100); now = 150000000;
          timeouts = watchdog_check [t] now
      in timeouts = [])"

definition test_check_past_grace_returns_timeout :: bool where
  "test_check_past_grace_returns_timeout \<longleftrightarrow>
     (let (i, _) = next_worker_id IdGenerator_new; t = watch_target i 1 (from_millis 100); now = 250000000;
          timeouts = watchdog_check [t] now
      in length timeouts = 1 \<and> to_id (timeouts ! 0) = i)"

definition test_check_skips_never_heartbeated :: bool where
  "test_check_skips_never_heartbeated \<longleftrightarrow>
     (let (i, _) = next_worker_id IdGenerator_new; t = watch_target i 0 (from_millis 100); now = 1000000000
      in watchdog_check [t] now = [])"

definition test_check_handles_many_targets :: bool where
  "test_check_handles_many_targets \<longleftrightarrow>
     (let now = 1000000000;
          targets = map (\<lambda>(i, v). watch_target (WorkerId v) (if even i then 1 else now - 100) (from_millis 100))
            (zip [0..<1000] (fst (take_ids 1000 IdGenerator_new)));
          timeouts = watchdog_check targets now
      in length timeouts = 500)"

lemmas watchdog_test_simps = watch_target_def from_millis_def watchdog_check_def check_target_exact Let_def

lemma watchdog_tests_pass: test_check_with_no_targets_returns_empty test_check_within_grace_returns_empty
    test_check_past_grace_returns_timeout test_check_skips_never_heartbeated
  by (simp_all add: test_check_with_no_targets_returns_empty_def test_check_within_grace_returns_empty_def
      test_check_past_grace_returns_timeout_def test_check_skips_never_heartbeated_def watchdog_test_simps split: prod.split)

lemma half_are_even: "length (filter (\<lambda>i. even i) [0..<2 * n]) = n"
  by (induction n) simp_all

lemma many_targets_pass: test_check_handles_many_targets
proof -
  have ids: "length (fst (take_ids 1000 IdGenerator_new)) = 1000"
    by (simp add: take_ids_eq)
  have "length (filter (\<lambda>(i, v). even i) (zip [0..<1000] (fst (take_ids 1000 IdGenerator_new)))) =
      length (filter (\<lambda>i. even i) (map fst (zip [0..<1000] (fst (take_ids 1000 IdGenerator_new)))))"
    by (simp add: filter_map o_def case_prod_unfold del: map_fst_zip)
  also have "\<dots> = length (filter (\<lambda>i. even i) [0..<2 * 500])"
    using ids by (simp add: map_fst_zip)
  finally have evens: "length (filter (\<lambda>(i, v). even i) (zip [0..<1000] (fst (take_ids 1000 IdGenerator_new)))) = 500"
    unfolding half_are_even .
  show ?thesis
    unfolding test_check_handles_many_targets_def Let_def
    by (subst watchdog_reports_the_silent)
      (auto simp: watch_target_def from_millis_def filter_map o_def case_prod_unfold if_distrib evens [unfolded case_prod_unfold] cong: if_cong)
qed

end
