(* ===== verification/Tests_Shutdown.thy ===== *)
theory Tests_Shutdown
  imports Shutdown Shutdown_Latch Lifecycle_Controller Errors Event_Delivery Tests_Prelude
begin

text \<open>
  The unit tests of src/shutdown and of the handles in src/kernel/handles.rs, evaluated on the model. A hook of the model has no effect
  but its answer, so the counter that the hooks of some tests keep is left out; what tokio's timers and join sets do is the
  input of a test.
\<close>

section \<open>token.rs\<close>

definition test_new_token_not_signalled :: bool where
  "test_new_token_not_signalled \<longleftrightarrow> \<not> ShutdownToken_is_signalled ShutdownToken_new []"

definition test_signal_flips_is_signalled :: bool where
  "test_signal_flips_is_signalled \<longleftrightarrow>
     (let t = ShutdownToken_new; c = ShutdownToken_signal t [] in ShutdownToken_is_signalled t c)"

definition test_signal_is_idempotent :: bool where
  "test_signal_is_idempotent \<longleftrightarrow>
     (let t = ShutdownToken_new; c = ShutdownToken_signal t (ShutdownToken_signal t []) in ShutdownToken_is_signalled t c)"

definition test_child_cancels_when_parent_signalled :: bool where
  "test_child_cancels_when_parent_signalled \<longleftrightarrow>
     (let parent = ShutdownToken_new; child = ShutdownToken_child 0 parent; c = ShutdownToken_signal parent []
      in ShutdownToken_is_signalled child c)"

definition test_child_signal_does_not_propagate_to_parent :: bool where
  "test_child_signal_does_not_propagate_to_parent \<longleftrightarrow>
     (let parent = ShutdownToken_new; child = ShutdownToken_child 0 parent; c = ShutdownToken_signal child []
      in ShutdownToken_is_signalled child c \<and> \<not> ShutdownToken_is_signalled parent c)"

lemma token_tests_pass: test_new_token_not_signalled test_signal_flips_is_signalled test_signal_is_idempotent
    test_child_cancels_when_parent_signalled test_child_signal_does_not_propagate_to_parent
  by code_simp+

section \<open>hook.rs\<close>

text \<open>\<open>now\<close> is the reading that the deadline is made from.\<close>

definition test_context_remaining_decreases :: "instant \<Rightarrow> instant \<Rightarrow> instant \<Rightarrow> bool" where
  "test_context_remaining_decreases now t1 t2 \<longleftrightarrow>
     (case instant_plus now (from_millis 50) of
        None \<Rightarrow> False
      | Some deadline \<Rightarrow>
          (let r1 = ShutdownContext_remaining t1 deadline; r2 = ShutdownContext_remaining t2 deadline in r2 < r1))"

definition test_context_remaining_saturates_at_zero_after_deadline :: "instant \<Rightarrow> instant \<Rightarrow> bool" where
  "test_context_remaining_saturates_at_zero_after_deadline now t1 \<longleftrightarrow>
     (case Instant_checked_sub now (from_secs 1) of None \<Rightarrow> False | Some deadline \<Rightarrow> ShutdownContext_remaining t1 deadline = 0)"

definition test_hook_error_display_includes_name_and_source :: "(string \<Rightarrow> string \<Rightarrow> string) \<Rightarrow> bool" where
  "test_hook_error_display_includes_name_and_source tr \<longleftrightarrow>
     (let err = HookError_from_message ''flush'' ''disk full''; s = HookError_fmt tr err
      in contains s ''flush'' \<and> contains s ''disk full'')"

lemma hook_tests_pass:
    "now \<le> t1 \<Longrightarrow> t1 + 5000000 \<le> t2 \<Longrightarrow> t1 < now + 50000000 \<Longrightarrow> now + 50000000 \<le> instant_max \<Longrightarrow>
       test_context_remaining_decreases now t1 t2"
    "instant_min + 1000000000 \<le> now \<Longrightarrow> now \<le> t1 \<Longrightarrow> test_context_remaining_saturates_at_zero_after_deadline now t1"
    "test_hook_error_display_includes_name_and_source tr"
  by (simp_all add: test_context_remaining_decreases_def test_context_remaining_saturates_at_zero_after_deadline_def
      test_hook_error_display_includes_name_and_source_def HookError_from_message_def HookError_fmt_def
      ShutdownContext_remaining_def time_defs from_millis_def from_secs_def nanos_per_sec_def contains_append)

section \<open>report.rs\<close>

definition test_report :: "instant \<Rightarrow> ShutdownReport" where
  "test_report now =
     \<lparr>sr_started_at = now, sr_completed_at = now, sr_workers_drained = 0, sr_workers_aborted = 0, sr_hooks_succeeded = [],
      sr_hooks_failed = [], sr_subsystems_shutdown = [], sr_subsystems_failed = []\<rparr>"

definition test_empty_report_is_clean :: "instant \<Rightarrow> bool" where
  "test_empty_report_is_clean now \<longleftrightarrow> ShutdownReport_is_clean (test_report now)"

definition test_aborted_workers_make_report_unclean :: "instant \<Rightarrow> bool" where
  "test_aborted_workers_make_report_unclean now \<longleftrightarrow>
     (let r = (test_report now)\<lparr>sr_workers_aborted := 1\<rparr> in \<not> ShutdownReport_is_clean r)"

definition test_failed_hook_makes_report_unclean :: "instant \<Rightarrow> bool" where
  "test_failed_hook_makes_report_unclean now \<longleftrightarrow>
     (let r = test_report now; r = r\<lparr>sr_hooks_failed := sr_hooks_failed r @ [(''flush'', ''disk full'')]\<rparr>
      in \<not> ShutdownReport_is_clean r)"

definition test_failed_subsystem_makes_report_unclean :: "instant \<Rightarrow> bool" where
  "test_failed_subsystem_makes_report_unclean now \<longleftrightarrow>
     (let r = test_report now; r = r\<lparr>sr_subsystems_failed := sr_subsystems_failed r @ [(''storage'', ''io'')]\<rparr>
      in \<not> ShutdownReport_is_clean r)"

definition test_duration_uses_timestamps :: "instant \<Rightarrow> instant \<Rightarrow> bool" where
  "test_duration_uses_timestamps now t \<longleftrightarrow>
     (case Instant_checked_add now (from_secs 2) of
        None \<Rightarrow> False
      | Some later \<Rightarrow>
          (let r = (test_report t)\<lparr>sr_started_at := now, sr_completed_at := later\<rparr> in ShutdownReport_duration r = from_secs 2))"

lemma report_tests_pass: "test_empty_report_is_clean now" "test_aborted_workers_make_report_unclean now"
    "test_failed_hook_makes_report_unclean now" "test_failed_subsystem_makes_report_unclean now"
    "now + 2000000000 \<le> instant_max \<Longrightarrow> test_duration_uses_timestamps now t"
  by (simp_all add: test_empty_report_is_clean_def test_aborted_workers_make_report_unclean_def
      test_failed_hook_makes_report_unclean_def test_failed_subsystem_makes_report_unclean_def test_duration_uses_timestamps_def
      test_report_def ShutdownReport_is_clean_def ShutdownReport_duration_def time_defs from_secs_def nanos_per_sec_def)

section \<open>coordinator.rs\<close>

definition CountedHook :: "string \<Rightarrow> hook" where
  "CountedHook name = \<lparr>hk_name = name, hk_run = \<lambda>_ _. HookReturned (Inr ())\<rparr>"

definition FailingHook :: "string \<Rightarrow> hook" where
  "FailingHook name = \<lparr>hk_name = name, hk_run = \<lambda>_ _. HookReturned (Inl (HookError_from_message name ''boom''))\<rparr>"

text \<open>A hook that sleeps for a minute: under a shorter time-out it is timed out.\<close>

definition SlowHook :: hook where
  "SlowHook = \<lparr>hk_name = ''slow'', hk_run = \<lambda>_ timeout. if timeout < from_secs 60 then HookTimedOut else HookReturned (Inr ())\<rparr>"

text \<open>\<open>shut\<close> is \<open>coordinator_shutdown\<close> with the texts of the libraries and a clock.\<close>

type_synonym shut = "ShutdownCoordinator \<Rightarrow> ShutdownReport option \<times> ShutdownCoordinator \<times> effect list"

text \<open>
  A \<open>CountedHook\<close> counts its run and returns at once, so its counter is the number of counted hooks listed as succeeded.
\<close>

definition counted_runs :: "string list \<Rightarrow> ShutdownReport \<Rightarrow> nat" where
  "counted_runs counted report = length (filter (\<lambda>n. n \<in> set counted) (sr_hooks_succeeded report))"

definition test_no_hooks_returns_clean_report :: "shut \<Rightarrow> bool" where
  "test_no_hooks_returns_clean_report shut \<longleftrightarrow>
     (case shut (ShutdownCoordinator_new (from_secs 1)) of
        (Some report, coord, _) \<Rightarrow> ShutdownReport_is_clean report \<and> co_is_signalled coord
      | _ \<Rightarrow> False)"

definition test_successful_hooks_listed_in_order :: "shut \<Rightarrow> bool" where
  "test_successful_hooks_listed_in_order shut \<longleftrightarrow>
     (let coord = register_hook (CountedHook ''second'') (register_hook (CountedHook ''first'') (ShutdownCoordinator_new (from_secs 1)))
      in case shut coord of
           (Some report, _) \<Rightarrow> sr_hooks_succeeded report = [''first'', ''second''] \<and> counted_runs [''first'', ''second''] report = 2
         | _ \<Rightarrow> False)"

definition test_failing_hook_does_not_stop_sequence :: "shut \<Rightarrow> bool" where
  "test_failing_hook_does_not_stop_sequence shut \<longleftrightarrow>
     (let coord = register_hook (CountedHook ''after-fail'') (register_hook (FailingHook ''fail'') (ShutdownCoordinator_new (from_secs 1)))
      in case shut coord of
           (Some report, _) \<Rightarrow>
             length (sr_hooks_failed report) = 1 \<and> fst (sr_hooks_failed report ! 0) = ''fail'' \<and>
             counted_runs [''after-fail''] report = 1 \<and> \<not> ShutdownReport_is_clean report
         | _ \<Rightarrow> False)"

definition test_slow_hook_is_timed_out :: "shut \<Rightarrow> bool" where
  "test_slow_hook_is_timed_out shut \<longleftrightarrow>
     (let coord = register_hook SlowHook (ShutdownCoordinator_new (from_millis 20))
      in case shut coord of
           (Some report, _) \<Rightarrow>
             length (sr_hooks_failed report) = 1 \<and> fst (sr_hooks_failed report ! 0) = ''slow'' \<and>
             contains (snd (sr_hooks_failed report ! 0)) ''timed out''
         | _ \<Rightarrow> False)"

definition test_second_shutdown_is_noop :: "shut \<Rightarrow> shut \<Rightarrow> bool" where
  "test_second_shutdown_is_noop shut shut' \<longleftrightarrow>
     (let (_, coord, _) = shut (ShutdownCoordinator_new (from_secs 1))
      in case shut' coord of
           (Some report, _) \<Rightarrow> length (sr_hooks_succeeded report) = 0 \<and> length (sr_hooks_failed report) = 0
         | _ \<Rightarrow> False)"

definition count_topic :: "string \<Rightarrow> effect list \<Rightarrow> nat" where
  "count_topic topic fx =
     (let dispatcher = snd (EventDispatcher_subscribe topic () EventDispatcher_new)
      in deliver (\<lambda>_ _ n. Finished (n + 1)) dispatcher fx 0)"

definition test_emits_started_and_completed_events :: "shut \<Rightarrow> bool" where
  "test_emits_started_and_completed_events shut \<longleftrightarrow>
     (let (_, _, fx) = shut (ShutdownCoordinator_new (from_millis 50))
      in count_topic ''kernel.lifecycle.shutdown_started'' fx = 1 \<and> count_topic ''kernel.lifecycle.shutdown_completed'' fx = 1)"

definition test_signal_token_fires_on_shutdown :: "shut \<Rightarrow> bool" where
  "test_signal_token_fires_on_shutdown shut \<longleftrightarrow>
     (let (_, coord, _) = shut (ShutdownCoordinator_new (from_secs 1)) in co_is_signalled coord)"

lemma count_topic_events: "count_topic topic fx = length (filter (\<lambda>e. KernelEvent_topic e = topic) (events_of fx))"
proof -
  have "fold (\<lambda>e. emit (\<lambda>_ _ n. Finished (n + 1)) e (snd (subscribe topic () dispatcher_new))) es n =
      n + length (filter (\<lambda>e. KernelEvent_topic e = topic) es)" for es n
    by (induction es arbitrary: n) (simp_all add: emit_def emit_handlers_def subscribe_def dispatcher_new_def Let_def)
  then show ?thesis
    by (simp add: count_topic_def deliver_def)
qed

lemma coordinator_tests_pass:
  assumes "sc_std_started clock + 1000000000 \<le> instant_max" and "\<And>i. sc_hook clock i < sc_std_started clock + 20000000"
    and "\<And>i. sc_std_started clock \<le> sc_hook clock i"
  shows "test_no_hooks_returns_clean_report (coordinator_shutdown tr dbg clock)"
    and "test_successful_hooks_listed_in_order (coordinator_shutdown tr dbg clock)"
    and "test_failing_hook_does_not_stop_sequence (coordinator_shutdown tr dbg clock)"
    and "test_slow_hook_is_timed_out (coordinator_shutdown tr dbg clock)"
    and "test_second_shutdown_is_noop (coordinator_shutdown tr dbg clock) (coordinator_shutdown tr dbg clock')"
    and "test_emits_started_and_completed_events (coordinator_shutdown tr dbg clock)"
    and "test_signal_token_fires_on_shutdown (coordinator_shutdown tr dbg clock)"
proof -
  have later: "\<not> sc_std_started clock + 1000000000 \<le> sc_hook clock i" "\<not> sc_std_started clock + 20000000 \<le> sc_hook clock i" for i
    using assms(2) [of i] by linarith+
  have early: "sc_hook clock i \<le> sc_std_started clock + 1000000000" "sc_hook clock i \<le> sc_std_started clock + 20000000" for i
    using assms(2) [of i] by linarith+
  have short: "nat (sc_std_started clock + 20000000 - sc_hook clock i) < 60000000000" for i
    using assms(3) [of i] by simp
  note simps = ShutdownCoordinator_new_def register_hook_def coordinator_shutdown_def co_is_signalled_def CountedHook_def FailingHook_def
    SlowHook_def HookError_from_message_def empty_report_def ShutdownReport_is_clean_def instant_plus_def Instant_checked_add_def
    checked_duration_since_def from_secs_def from_millis_def nanos_per_sec_def later early short ShutdownToken_is_signalled_def
    ShutdownToken_signal_def ShutdownToken_new_def counted_runs_def Let_def
  show "test_no_hooks_returns_clean_report (coordinator_shutdown tr dbg clock)"
    using assms by (simp add: test_no_hooks_returns_clean_report_def simps)
  show "test_successful_hooks_listed_in_order (coordinator_shutdown tr dbg clock)"
    using assms by (simp add: test_successful_hooks_listed_in_order_def simps)
  show "test_failing_hook_does_not_stop_sequence (coordinator_shutdown tr dbg clock)"
    using assms by (simp add: test_failing_hook_does_not_stop_sequence_def simps)
  show "test_slow_hook_is_timed_out (coordinator_shutdown tr dbg clock)"
    using assms by (simp add: test_slow_hook_is_timed_out_def simps)
  show "test_second_shutdown_is_noop (coordinator_shutdown tr dbg clock) (coordinator_shutdown tr dbg clock')"
    using assms by (simp add: test_second_shutdown_is_noop_def simps)
  show "test_emits_started_and_completed_events (coordinator_shutdown tr dbg clock)"
    using assms by (simp add: test_emits_started_and_completed_events_def count_topic_events simps)
  show "test_signal_token_fires_on_shutdown (coordinator_shutdown tr dbg clock)"
    using assms by (simp add: test_signal_token_fires_on_shutdown_def simps)
qed

section \<open>drain.rs\<close>

text \<open>The tasks of the tests that sleep for a few milliseconds end normally in time, those that sleep for a minute are aborted.\<close>

definition test_empty_join_set_returns_zero :: "instant \<Rightarrow> instant \<Rightarrow> bool" where
  "test_empty_join_set_returns_zero started now \<longleftrightarrow>
     (case drain started (from_millis 50) 0 [] now of
        Some outcome \<Rightarrow> do_drained outcome = 0 \<and> do_aborted outcome = 0 \<and> DrainOutcome_is_clean outcome
      | None \<Rightarrow> False)"

definition test_quick_tasks_all_drained :: "instant \<Rightarrow> instant \<Rightarrow> bool" where
  "test_quick_tasks_all_drained started now \<longleftrightarrow>
     (case drain started (from_millis 200) 5 (replicate 5 JoinedOk) now of
        Some outcome \<Rightarrow> do_drained outcome = 5 \<and> do_aborted outcome = 0 \<and> DrainOutcome_is_clean outcome
      | None \<Rightarrow> False)"

definition test_slow_tasks_all_aborted :: "instant \<Rightarrow> instant \<Rightarrow> bool" where
  "test_slow_tasks_all_aborted started now \<longleftrightarrow>
     (case drain started (from_millis 20) 0 (replicate 3 JoinCancelled) now of
        Some outcome \<Rightarrow> do_drained outcome = 0 \<and> do_aborted outcome = 3 \<and> \<not> DrainOutcome_is_clean outcome
      | None \<Rightarrow> False)"

definition test_mixed_tasks_split_correctly :: "instant \<Rightarrow> instant \<Rightarrow> bool" where
  "test_mixed_tasks_split_correctly started now \<longleftrightarrow>
     (case drain started (from_millis 50) 3 (replicate 3 JoinedOk @ replicate 2 JoinCancelled) now of
        Some outcome \<Rightarrow> do_drained outcome = 3 \<and> do_aborted outcome = 2 \<and> DrainOutcome_total outcome = 5
      | None \<Rightarrow> False)"

definition test_zero_grace_aborts_immediately :: "instant \<Rightarrow> instant \<Rightarrow> bool" where
  "test_zero_grace_aborts_immediately started now \<longleftrightarrow>
     (case drain started 0 0 (replicate 3 JoinCancelled) now of
        Some outcome \<Rightarrow> do_drained outcome = 0 \<and> do_aborted outcome = 3
      | None \<Rightarrow> False)"

lemma drain_tests_pass:
  assumes "started + 200000000 \<le> instant_max"
  shows "test_empty_join_set_returns_zero started now" and "test_quick_tasks_all_drained started now"
    and "test_slow_tasks_all_aborted started now" and "test_mixed_tasks_split_correctly started now"
    and "test_zero_grace_aborts_immediately started now"
  using assms by (simp_all add: test_empty_join_set_returns_zero_def test_quick_tasks_all_drained_def test_slow_tasks_all_aborted_def
      test_mixed_tasks_split_correctly_def test_zero_grace_aborts_immediately_def drain_def instant_plus_def Instant_checked_add_def
      from_millis_def DrainOutcome_is_clean_def DrainOutcome_total_def fold_count_in_time fold_count_after_abort del: fold_replicate)

section \<open>handles.rs\<close>

definition test_lifecycle_handle_reflects_controller :: "instant \<Rightarrow> bool" where
  "test_lifecycle_handle_reflects_controller now \<longleftrightarrow>
     (let handle = LifecycleController_new now in LifecycleHandle_state handle = Created \<and> LifecycleHandle_phase handle = Idle)"

definition test_error_handle_classifies :: "'e \<Rightarrow> bool" where
  "test_error_handle_classifies err \<longleftrightarrow>
     (let handle = ErrorRegistry_with_classifier NoopClassifier; result = ErrorHandle_classify handle err
      in cl_severity result = Error \<and> cl_action result = LogOnly)"

definition test_shutdown_handle_signal_is_idempotent :: bool where
  "test_shutdown_handle_signal_is_idempotent \<longleftrightarrow>
     (let h0 = ShutdownInner_new; h1 = ShutdownHandle_signal h0; h2 = ShutdownHandle_signal h1
      in \<not> ShutdownHandle_is_signalled h0 \<and> ShutdownHandle_is_signalled h1 \<and> ShutdownHandle_is_signalled h2)"

lemma handle_tests_pass: "test_lifecycle_handle_reflects_controller now" "test_error_handle_classifies err"
    test_shutdown_handle_signal_is_idempotent
  by (simp_all add: test_lifecycle_handle_reflects_controller_def test_error_handle_classifies_def
      test_shutdown_handle_signal_is_idempotent_def LifecycleHandle_state_def LifecycleHandle_phase_def LifecycleController_phase_def
      LifecycleController_new_def LifecycleController_fresh_def ErrorHandle_classify_def registry_defs Classification_default_def
      ShutdownInner_new_def ShutdownHandle_signal_def ShutdownHandle_is_signalled_def)

end
