(* ===== verification/Tests_Supervisor.thy ===== *)
theory Tests_Supervisor
  imports Supervisor_Properties Tests_Shutdown
begin

text \<open>
  The unit tests of src/worker/supervisor.rs on the schedule they arrange: the worker is started, its tasks end one after
  the other, then the token is cancelled and the supervisor drains. The tests count the runs of the worker; every task of
  the model is one run, and its number is the number of runs before it. A clock is read in each step.
\<close>

definition build_supervisor :: Supervisor where
  "build_supervisor = Supervisor_new HealthRegistry_new ShutdownInner_new"

text \<open>What the \<open>run\<close> of the tests' workers yields, given how often it ran before.\<close>

definition OkSync :: "nat \<Rightarrow> (WorkerError + unit) unwind" where
  "OkSync n = Returned (Inr ())"

definition OkAsync :: "nat \<Rightarrow> (WorkerError + unit) unwind" where
  "OkAsync n = Returned (Inr ())"

definition FailingSync :: "nat \<Rightarrow> (WorkerError + unit) unwind" where
  "FailingSync n = (if n < 2 then Returned (Inl (WorkerError_new ''fail'')) else Returned (Inr ()))"

definition PanickingAsync :: "nat \<Rightarrow> (WorkerError + unit) unwind" where
  "PanickingAsync n = Unwound (PayloadStaticStr ''intentional'')"

definition CriticalFailing :: "nat \<Rightarrow> (WorkerError + unit) unwind" where
  "CriticalFailing n = Returned (Inl (WorkerError_new ''can't run''))"

text \<open>A synchronous runner catches the panic itself; that of an asynchronous one comes out of the join set.\<close>

fun async_outcome :: "(WorkerError + unit) unwind \<Rightarrow> SupervisorOutcome" where
  "async_outcome (Returned r) = run_async r"
| "async_outcome (Unwound p) = PanickedWith (PanicReason_from_payload p)"

fun join_tasks :: "(nat \<Rightarrow> SupervisorOutcome) \<Rightarrow> readings list \<Rightarrow> Supervisor \<Rightarrow> Supervisor" where
  "join_tasks outcome [] s = s"
| "join_tasks outcome (rd # rds) s =
     (case sv_tasks s of
        [] \<Rightarrow> s
      | (tid, w) # _ \<Rightarrow> join_tasks outcome rds (join_task rd tid w (Some (outcome tid)) s))"

definition run_and_cancel :: "(nat \<Rightarrow> SupervisorOutcome) \<Rightarrow> readings \<Rightarrow> readings list \<Rightarrow> readings \<Rightarrow> Supervisor \<Rightarrow> Supervisor" where
  "run_and_cancel outcome start rds stop s =
     (let s = join_tasks outcome rds (start_run start s);
          s = s\<lparr>sv_cancelled := True\<rparr>
      in snd (shutdown_all stop (map (\<lambda>(tid, w). (tid, JoinedOk)) (sv_tasks s)) s))"

definition test_sync_worker_runs_to_completion :: "readings \<Rightarrow> readings \<Rightarrow> readings \<Rightarrow> bool" where
  "test_sync_worker_runs_to_completion t t1 t2 \<longleftrightarrow>
     (let (_, sup) = Supervisor_register (spec_restart_never (WorkerSpec_new ''ok-sync'')) build_supervisor;
          sup = run_and_cancel (run_sync \<circ> OkSync) t [t1] t2 sup
      in sv_spawned sup = 1 \<and> count_topic ''kernel.worker.started'' (sv_log sup) \<ge> 1)"

definition test_async_worker_runs_to_completion :: "readings \<Rightarrow> readings \<Rightarrow> readings \<Rightarrow> bool" where
  "test_async_worker_runs_to_completion t t1 t2 \<longleftrightarrow>
     (let (_, sup) = Supervisor_register_async (spec_restart_never (WorkerSpec_new ''ok-async'')) build_supervisor;
          sup = run_and_cancel (async_outcome \<circ> OkAsync) t [t1] t2 sup
      in sv_spawned sup = 1)"

definition test_failing_sync_worker_restarts_then_succeeds :: "readings \<Rightarrow> readings list \<Rightarrow> readings \<Rightarrow> bool" where
  "test_failing_sync_worker_restarts_then_succeeds t ts t2 \<longleftrightarrow>
     (let (_, sup) = Supervisor_register (spec_backoff_fixed (from_millis 1)
            (spec_restart_max_retries 5 (from_secs 60) (WorkerSpec_new ''failing-sync''))) build_supervisor;
          sup = run_and_cancel (run_sync \<circ> FailingSync) t ts t2 sup
      in sv_spawned sup \<ge> 3)"

definition test_panicking_async_worker_emits_panicked_event :: "readings \<Rightarrow> readings \<Rightarrow> readings \<Rightarrow> bool" where
  "test_panicking_async_worker_emits_panicked_event t t1 t2 \<longleftrightarrow>
     (let (_, sup) = Supervisor_register_async (spec_restart_never (WorkerSpec_new ''panicking-async'')) build_supervisor;
          sup = run_and_cancel (async_outcome \<circ> PanickingAsync) t [t1] t2 sup
      in count_topic ''kernel.worker.panicked'' (sv_log sup) = 1)"

definition test_critical_worker_failure_signals_shutdown :: "readings \<Rightarrow> readings \<Rightarrow> readings \<Rightarrow> bool" where
  "test_critical_worker_failure_signals_shutdown t t1 t2 \<longleftrightarrow>
     (let (_, sup) = Supervisor_register (spec_restart_never (spec_critical (WorkerSpec_new ''critical''))) build_supervisor;
          sup = run_and_cancel (run_sync \<circ> CriticalFailing) t [t1] t2 sup
      in ShutdownHandle_is_signalled (sv_shutdown sup))"

text \<open>A supervisor with one worker in flight, and what is left when that worker has ended for good.\<close>

lemma one_worker:
  "start_run t (snd (register_inner spec runner build_supervisor)) =
     \<lparr>sv_registered = [(WorkerId 0,
        \<lparr>rw_handle = handle_set_state WRunning (WorkerHandle_new (WorkerId 0) (ws_name spec) False), rw_spec = spec,
         rw_runner = runner, rw_last_heartbeat = 0, rw_attempts = 0, rw_circuit = map_option CircuitBreaker_new (ws_circuit spec)\<rparr>)],
      sv_tasks = [(0, WorkerId 0)], sv_spawned = 1, sv_task_to_worker = [(0, WorkerId 0)], sv_cancelled = False,
      sv_health = HealthRegistry_new, sv_shutdown = ShutdownInner_new, sv_id_gen = snd (next_worker_id IdGenerator_new),
      sv_handles = [WorkerId 0], sv_stage = Looping,
      sv_log = [WEv (Ev_Started (WorkerId 0) (ws_name spec) (rd_started t (WorkerId 0)))]\<rparr>"
  by (simp add: build_supervisor_def register_inner_def Supervisor_new_def next_worker_id_def id_fetch_add_def IdGenerator_new_def
      put_worker_def get_worker_def start_run_def spawn_one_def on_handle_def log_fx_def Let_def handle_set_state_def)

lemmas schedule_simps = run_and_cancel_def one_worker Supervisor_register_def Supervisor_register_async_def case_prod_beta
  join_task_def handle_outcome_def maybe_restart_def advance_circuit_def restart_or_stop_def shutdown_all_def stop_worker_def
  finish_worker_def get_worker_def put_worker_def on_handle_def log_fx_def spawn_one_def

text \<open>The registry of the tests has no event handle.\<close>

lemma silent_report: "snd (report subsystem status now HealthRegistry_new) = []"
  by (simp add: report_def report_commit_def Let_def HealthRegistry_new_def HealthInner_new_def)

lemmas topic_simps = silent_report count_topic_events worker_topic_def WorkerEvent_new_def worker_name_for_def

lemma supervisor_completion_tests_pass: "test_sync_worker_runs_to_completion t t1 t2" "test_async_worker_runs_to_completion t t1 t2"
  by (simp_all add: test_sync_worker_runs_to_completion_def test_async_worker_runs_to_completion_def schedule_simps
      OkSync_def OkAsync_def run_sync_def run_async_def spec_restart_never_def WorkerSpec_new_def
      topic_simps)


lemma supervisor_failure_tests_pass: "test_panicking_async_worker_emits_panicked_event t t1 t2"
    "test_critical_worker_failure_signals_shutdown t t1 t2"
  by (simp_all add: test_panicking_async_worker_emits_panicked_event_def test_critical_worker_failure_signals_shutdown_def
      schedule_simps PanickingAsync_def CriticalFailing_def run_sync_def spec_restart_never_def spec_critical_def WorkerSpec_new_def
      ShutdownHandle_is_signalled_def ShutdownHandle_signal_def ShutdownInner_new_def topic_simps)

text \<open>The tasks a supervisor has spawned: one more for each restart, and none is forgotten.\<close>

lemma spawned_one: "sv_spawned (spawn_one rd w s) = (if get_worker w s = None then sv_spawned s else Suc (sv_spawned s))"
  by (simp add: spawn_one_def Let_def split: option.split)

lemma spawned_restart_or_stop: "sv_spawned s \<le> sv_spawned (restart_or_stop rd w f restart delay n name c s)"
  by (simp add: restart_or_stop_def Let_def spawned_one quiet_apply_criticality [unfolded quiet_def])

lemma spawned_outcome: "sv_spawned s \<le> sv_spawned (handle_outcome rd w out s)"
proof (cases "get_worker w s")
  case (Some r)
  then show ?thesis
  proof (rule handle_outcome_decides [of _ _ _ rd out])
    fix s1
    assume eq: "handle_outcome rd w out s = restart_or_stop rd w (out \<noteq> Completed) (restarts rd w (out \<noteq> Completed) r)
        (backoff_delay (failures_after rd (out \<noteq> Completed) r) (ws_backoff (rw_spec r)))
        (failures_after rd (out \<noteq> Completed) r) (ws_name (rw_spec r)) (ws_criticality (rw_spec r)) s1"
      and "quiet s s1"
    then have "sv_spawned s = sv_spawned s1"
      by (simp add: quiet_def)
    then show ?thesis
      unfolding eq using spawned_restart_or_stop by simp
  qed
qed (simp add: handle_outcome_def)

lemma spawned_join_tasks: "sv_spawned s \<le> sv_spawned (join_tasks outcome rds s)"
proof (induction rds arbitrary: s)
  case (Cons rd rds)
  have "sv_spawned s \<le> sv_spawned (join_task rd t w (Some out) s)" for t w out
    using spawned_outcome [of "without_task t s" rd w out] by (simp add: join_task_def)
  then have "sv_spawned s \<le> sv_spawned (join_tasks outcome rds (join_task rd t w (Some out) s))" for t w out
    using Cons order_trans by blast
  then show ?case
    by (auto split: list.split)
qed simp

lemma spawned_shutdown_all: "sv_spawned (snd (shutdown_all rd joined s)) = sv_spawned s"
proof -
  have "quiet s (fold (stop_worker rd) ws s)" "quiet s (fold (finish_worker rd) ws s)" for ws s
    by (intro quiet_fold quiet_stop_worker quiet_finish_worker)+
  then show ?thesis
    by (simp add: shutdown_all_def Let_def case_prod_beta fold_join_drained quiet_def)
qed


lemma outcome_restarted_task:
  assumes r: "get_worker w s = Some r" and re: "restarts rd w (out \<noteq> Completed) r" and nc: "\<not> rd_cancelled_in_backoff rd"
  shows "sv_tasks (handle_outcome rd w out s) = sv_tasks s @ [(sv_spawned s, w)] \<and>
     sv_spawned (handle_outcome rd w out s) = Suc (sv_spawned s)"
proof (rule handle_outcome_decides [OF r, of rd out])
  fix s1
  assume eq: "handle_outcome rd w out s = restart_or_stop rd w (out \<noteq> Completed) (restarts rd w (out \<noteq> Completed) r)
      (backoff_delay (failures_after rd (out \<noteq> Completed) r) (ws_backoff (rw_spec r)))
      (failures_after rd (out \<noteq> Completed) r) (ws_name (rw_spec r)) (ws_criticality (rw_spec r)) s1"
    and "quiet s s1" and "get_worker w s1 = Some (after_outcome rd w (out \<noteq> Completed) r)"
  then show ?thesis
    using re nc by (simp add: restart_or_stop_def spawn_one_def Let_def quiet_def)
qed

text \<open>A failure that is within its retries leads to the next task.\<close>

lemma retried:
  assumes s: "sv_tasks s = [(tid, w)]" "get_worker w s = Some r"
    and r: "ws_restart (rw_spec r) = MaxRetries n window" "rw_circuit r = None" "Suc (burst_so_far (rw_handle r)) < unat n"
    and t: "valid_unix (unix_of rd)" "\<not> rd_cancelled_in_backoff rd"
      "case latest_failure (rw_handle r) of None \<Rightarrow> True | Some t \<Rightarrow> valid_unix t \<and> unix_of rd - t \<le> 60000000000"
  obtains r' where "sv_tasks (join_task rd tid w (Some (FailedWith e)) s) = [(sv_spawned s, w)]"
    "sv_spawned (join_task rd tid w (Some (FailedWith e)) s) = Suc (sv_spawned s)"
    "get_worker w (join_task rd tid w (Some (FailedWith e)) s) = Some r'"
    "ws_restart (rw_spec r') = MaxRetries n window" "rw_circuit r' = None"
    "burst_so_far (rw_handle r') = Suc (burst_so_far (rw_handle r))" "latest_failure (rw_handle r') = Some (unix_of rd)"
proof -
  let ?s = "without_task tid s" and ?h = "handle_record_failure FAILURE_WINDOW_NANOS (word_of_int (unix_of rd)) (rw_handle r)"
  have small: "Suc (burst_so_far (rw_handle r)) < 2 ^ 32"
    using r(3) unsigned_less [of n, where 'a = nat] by simp
  note h = next_failure_count [OF t(1) small t(3)]
  have re: "restarts rd w (FailedWith e \<noteq> Completed) r"
    using h(1) r by (simp add: restarts_def failures_after_def circuit_after_def unix_nanos_valid [OF t(1)] word_less_nat_alt)
  have w: "get_worker w ?s = Some r"
    using s(2) by simp
  show ?thesis
    using that outcome_restarted_task [OF w re t(2)] outcome_restarted [OF w re t(2)] s(1) r h
    by (simp add: join_task_def after_outcome_def circuit_after_def unix_nanos_valid [OF t(1)])
qed


lemma supervisor_restart_test_passes:
  assumes t: "valid_unix (unix_of t1)" "valid_unix (unix_of t2)" "unix_of t2 - unix_of t1 \<le> 60000000000"
    and nc: "\<not> rd_cancelled_in_backoff t1" "\<not> rd_cancelled_in_backoff t2"
  shows "test_failing_sync_worker_restarts_then_succeeds t (t1 # t2 # ts) t3"
proof -
  let ?spec = "spec_backoff_fixed (from_millis 1) (spec_restart_max_retries 5 (from_secs 60) (WorkerSpec_new ''failing-sync''))"
  let ?s = "start_run t (snd (register_inner ?spec SyncRunner build_supervisor))"
  let ?e = "WorkerError_new ''fail''" and ?o = "run_sync \<circ> FailingSync"
  obtain r where s: "sv_tasks ?s = [(0, WorkerId 0)]" "sv_spawned ?s = 1" "get_worker (WorkerId 0) ?s = Some r"
    and r: "ws_restart (rw_spec r) = MaxRetries 5 (from_secs 60)" "rw_circuit r = None" "burst_so_far (rw_handle r) = 0"
      "latest_failure (rw_handle r) = None"
    by (simp add: one_worker get_worker_def spec_restart_max_retries_def spec_backoff_fixed_def WorkerSpec_new_def
        burst_so_far_def latest_failure_def WorkerHandle_new_def)
  let ?s1 = "join_task t1 0 (WorkerId 0) (Some (FailedWith ?e)) ?s"
  obtain r1 where s1: "sv_tasks ?s1 = [(1, WorkerId 0)]" "sv_spawned ?s1 = 2" "get_worker (WorkerId 0) ?s1 = Some r1"
    and r1: "ws_restart (rw_spec r1) = MaxRetries 5 (from_secs 60)" "rw_circuit r1 = None" "burst_so_far (rw_handle r1) = 1"
      "latest_failure (rw_handle r1) = Some (unix_of t1)"
    by (rule retried [OF s(1,3) r(1,2) _ t(1) nc(1), of ?e]) (simp_all add: r s(2))
  let ?s2 = "join_task t2 1 (WorkerId 0) (Some (FailedWith ?e)) ?s1"
  have s2: "sv_spawned ?s2 = 3"
    by (rule retried [OF s1(1,3) r1(1,2) _ t(2) nc(2), of ?e]) (simp_all add: r1 s1(2) t)
  have "?o 0 = FailedWith ?e" "?o 1 = FailedWith ?e"
    by (simp_all add: FailingSync_def run_sync_def)
  then have "join_tasks ?o (t1 # t2 # ts) ?s = join_tasks ?o ts ?s2"
    using s(1) s1(1) by simp
  then show ?thesis
    using spawned_join_tasks [of ?s2 ?o ts] s2
    by (simp add: test_failing_sync_worker_restarts_then_succeeds_def Supervisor_register_def case_prod_beta run_and_cancel_def
        spawned_shutdown_all Let_def)
qed


end
