(* ===== verification/Tests_Kernel.thy ===== *)
theory Tests_Kernel
  imports Demos Daemon Tests_Prelude
begin

text \<open>
  The unit tests of src/kernel/subsystem.rs, builtins.rs, builder.rs, core.rs and src/worker/adapter/proc_daemon.rs, evaluated on the
  model. Kernels of the tests have no error type of their own; \<open>t\<close> is the reading of the clock when a kernel is built, \<open>env\<close>
  what the world supplies to its run.
\<close>

section \<open>subsystem.rs\<close>

definition Plain :: Subsystem where
  "Plain = subsystem_defaults ''plain'' [] (Returned (Inr ()))"

definition WithDeps :: Subsystem where
  "WithDeps = subsystem_defaults ''with_deps'' [''events'', ''metrics''] (Returned (Inr ()))"

definition test_trait_is_object_safe_in_subsystem :: bool where
  "test_trait_is_object_safe_in_subsystem \<longleftrightarrow>
     (let s = Plain in ss_name s = ''plain'' \<and> ss_dependencies s = [] \<and> ss_health s = H_Healthy)"

definition test_dependencies_default_is_empty :: bool where
  "test_dependencies_default_is_empty \<longleftrightarrow> ss_dependencies Plain = []"

definition test_dependencies_can_declare_multiple :: bool where
  "test_dependencies_can_declare_multiple \<longleftrightarrow> ss_dependencies WithDeps = [''events'', ''metrics'']"

definition test_default_health_is_healthy :: bool where
  "test_default_health_is_healthy \<longleftrightarrow> ss_health Plain = H_Healthy"

lemma subsystem_tests_pass: test_trait_is_object_safe_in_subsystem test_dependencies_default_is_empty
    test_dependencies_can_declare_multiple test_default_health_is_healthy
  by (simp_all add: test_trait_is_object_safe_in_subsystem_def test_dependencies_default_is_empty_def
      test_dependencies_can_declare_multiple_def test_default_health_is_healthy_def Plain_def WithDeps_def subsystem_defaults_def)

section \<open>builtins.rs\<close>

definition test_builtin_names_match_subsystem_names :: bool where
  "test_builtin_names_match_subsystem_names \<longleftrightarrow> (let built = boxed_builtins; names = map ss_name built in names = BUILTIN_NAMES)"

definition test_builtin_names_are_unique :: bool where
  "test_builtin_names_are_unique \<longleftrightarrow> card (set BUILTIN_NAMES) = length BUILTIN_NAMES"

definition test_builtin_dependencies_reference_only_other_builtins :: bool where
  "test_builtin_dependencies_reference_only_other_builtins \<longleftrightarrow>
     (let names = set BUILTIN_NAMES in \<forall>s \<in> set boxed_builtins. \<forall>dep \<in> set (ss_dependencies s). dep \<in> names)"

lemma builtin_tests_pass: test_builtin_names_match_subsystem_names test_builtin_names_are_unique
    test_builtin_dependencies_reference_only_other_builtins
  by (simp_all add: test_builtin_names_match_subsystem_names_def test_builtin_names_are_unique_def
      test_builtin_dependencies_reference_only_other_builtins_def BUILTIN_NAMES_def builtin_defs)

section \<open>builder.rs\<close>

definition TestSubsystem :: "string \<Rightarrow> string list \<Rightarrow> Subsystem" where
  "TestSubsystem name deps = subsystem_defaults name deps (Returned (Inr ()))"

definition builder_of :: "string \<Rightarrow> Subsystem list \<Rightarrow> unit KernelBuilder" where
  "builder_of name subs = fold with_subsystem subs (KernelBuilder_new name)"

definition test_empty_builder_builds_with_only_builtins :: "instant \<Rightarrow> instant \<Rightarrow> instant \<Rightarrow> bool" where
  "test_empty_builder_builds_with_only_builtins t t1 t2 \<longleftrightarrow>
     (case Kernel_build t (builder_of ''test'' []) of
        Some (Inr k) \<Rightarrow> length (ks_subsystems (Kernel_snapshot t1 t2 k)) = length BUILTIN_NAMES
      | _ \<Rightarrow> False)"

definition test_empty_name_is_rejected :: "instant \<Rightarrow> bool" where
  "test_empty_name_is_rejected t \<longleftrightarrow> (case Kernel_build t (builder_of '''' []) of Some (Inl EmptyName) \<Rightarrow> True | _ \<Rightarrow> False)"

definition test_duplicate_consumer_subsystem_is_rejected :: "instant \<Rightarrow> bool" where
  "test_duplicate_consumer_subsystem_is_rejected t \<longleftrightarrow>
     (case Kernel_build t (builder_of ''test'' [TestSubsystem ''store'' [], TestSubsystem ''store'' []]) of
        Some (Inl (DuplicateSubsystem name)) \<Rightarrow> name = ''store'' | _ \<Rightarrow> False)"

definition test_consumer_using_reserved_name_is_rejected :: "instant \<Rightarrow> bool" where
  "test_consumer_using_reserved_name_is_rejected t \<longleftrightarrow>
     (case Kernel_build t (builder_of ''test'' [TestSubsystem ''events'' []]) of
        Some (Inl (ReservedName name)) \<Rightarrow> name = ''events'' | _ \<Rightarrow> False)"

definition test_missing_dependency_is_rejected :: "instant \<Rightarrow> bool" where
  "test_missing_dependency_is_rejected t \<longleftrightarrow>
     (case Kernel_build t (builder_of ''test'' [TestSubsystem ''store'' [''missing'']]) of
        Some (Inl (MissingDependency sub dep)) \<Rightarrow> sub = ''store'' \<and> dep = ''missing'' | _ \<Rightarrow> False)"

definition test_dependency_cycle_is_detected :: "instant \<Rightarrow> bool" where
  "test_dependency_cycle_is_detected t \<longleftrightarrow>
     (case Kernel_build t (builder_of ''test'' [TestSubsystem ''alpha'' [''beta''], TestSubsystem ''beta'' [''alpha'']]) of
        Some (Inl (DependencyCycle cycle)) \<Rightarrow> ''alpha'' \<in> set cycle \<and> ''beta'' \<in> set cycle | _ \<Rightarrow> False)"

definition snapshot_names :: "instant \<Rightarrow> instant \<Rightarrow> unit Kernel \<Rightarrow> string list" where
  "snapshot_names t1 t2 k = map ss_snap_name (ks_subsystems (Kernel_snapshot t1 t2 k))"

definition test_topo_sort_orders_dependencies_first :: "instant \<Rightarrow> instant \<Rightarrow> instant \<Rightarrow> bool" where
  "test_topo_sort_orders_dependencies_first t t1 t2 \<longleftrightarrow>
     (case Kernel_build t (builder_of ''test''
            [TestSubsystem ''third'' [''second''], TestSubsystem ''second'' [''first''], TestSubsystem ''first'' []]) of
        Some (Inr k) \<Rightarrow>
          (let names = snapshot_names t1 t2 k
           in case (position (\<lambda>n. n = ''first'') names, position (\<lambda>n. n = ''second'') names, position (\<lambda>n. n = ''third'') names) of
                (Some pos_first, Some pos_second, Some pos_third) \<Rightarrow> pos_first < pos_second \<and> pos_second < pos_third
              | _ \<Rightarrow> False)
      | _ \<Rightarrow> False)"

definition test_consumer_subsystem_with_builtin_dep_orders_after_builtin :: "instant \<Rightarrow> instant \<Rightarrow> instant \<Rightarrow> bool" where
  "test_consumer_subsystem_with_builtin_dep_orders_after_builtin t t1 t2 \<longleftrightarrow>
     (case Kernel_build t (builder_of ''test'' [TestSubsystem ''myapp'' [''events'']]) of
        Some (Inr k) \<Rightarrow>
          (let names = snapshot_names t1 t2 k
           in case (position (\<lambda>n. n = ''events'') names, position (\<lambda>n. n = ''myapp'') names) of
                (Some pos_events, Some pos_myapp) \<Rightarrow> pos_events < pos_myapp
              | _ \<Rightarrow> False)
      | _ \<Rightarrow> False)"

lemma builder_of_subsystems: "kb_subsystems (builder_of name subs) = subs" "kb_name (builder_of name subs) = name"
proof -
  have "kb_subsystems (fold with_subsystem subs kb) = kb_subsystems kb @ subs \<and> kb_name (fold with_subsystem subs kb) = kb_name kb"
    for kb :: "unit KernelBuilder"
    by (induction subs arbitrary: kb) (simp_all add: with_subsystem_def)
  then show "kb_subsystems (builder_of name subs) = subs" "kb_name (builder_of name subs) = name"
    by (simp_all add: builder_of_def KernelBuilder_new_def)
qed

text \<open>A kernel built from these subsystems, in the order of the sort.\<close>

lemma builder_builds:
  assumes "name \<noteq> []" and "well_declared (boxed_builtins @ subs)" and "topo_sort (boxed_builtins @ subs) = Some (Inr order)"
  shows "\<exists>k. Kernel_build t (builder_of name subs) = Some (Inr k) \<and> names_of k = order \<and>
    set (kernel_subsystems k) = set (boxed_builtins @ subs)"
proof -
  obtain k where "Kernel_build t (builder_of name subs) = Some (Inr k)" "map ss_name (kernel_subsystems k) = order"
      "set (kernel_subsystems k) = set (boxed_builtins @ kb_subsystems (builder_of name subs))"
    using sorted_builds [of "builder_of name subs" order t] assms unfolding builder_of_subsystems by blast
  then show ?thesis
    by (auto simp: builder_of_subsystems)
qed

lemma snapshot_names: "snapshot_names t1 t2 k = map ss_name (kernel_subsystems k)"
    "length (ks_subsystems (Kernel_snapshot t1 t2 k)) = length (kernel_subsystems k)"
  by (simp_all add: snapshot_names_def Kernel_snapshot_def subsystem_snapshots_def)

lemmas sort_simps = topo_sort_def build_graph_def builtin_defs TestSubsystem_def add_node_def add_edge_def kahn_Nil kahn_Cons
  visit_child_def degree_def children_def Let_def

lemma empty_builder_passes: "test_empty_builder_builds_with_only_builtins t t1 t2"
proof -
  have "well_declared (boxed_builtins @ [])"
    by (simp add: well_declared_def builtin_defs)
  then obtain k where k: "Kernel_build t (builder_of ''test'' []) = Some (Inr k)" "names_of k = [''lifecycle'', ''events'', ''metrics'',
      ''errors'', ''health'', ''shutdown'', ''workers'']"
    using builder_builds [of "''test''" "[]" _ t] builtin_order by fastforce
  have "length (kernel_subsystems k) = 7"
    using arg_cong [OF k(2), of length] by simp
  then show ?thesis
    by (simp add: test_empty_builder_builds_with_only_builtins_def k(1) snapshot_names BUILTIN_NAMES_def)
qed

lemma rejected_tests_pass: "test_empty_name_is_rejected t" "test_consumer_using_reserved_name_is_rejected t"
  by (simp_all add: test_empty_name_is_rejected_def test_consumer_using_reserved_name_is_rejected_def Kernel_build_def build_def
      builder_of_subsystems reserved_name_def BUILTIN_NAMES_def TestSubsystem_def subsystem_defaults_def)

lemma duplicate_passes: "test_duplicate_consumer_subsystem_is_rejected t"
proof -
  have "duplicate_name [] (boxed_builtins @ [TestSubsystem ''store'' [], TestSubsystem ''store'' []]) = Some ''store''"
    by (simp add: TestSubsystem_def builtin_defs)
  then show ?thesis
    by (simp add: test_duplicate_consumer_subsystem_is_rejected_def Kernel_build_def build_def builder_of_subsystems reserved_name_def
        BUILTIN_NAMES_def TestSubsystem_def subsystem_defaults_def)
qed

lemma missing_passes: "test_missing_dependency_is_rejected t"
proof -
  have "duplicate_name [] (boxed_builtins @ [TestSubsystem ''store'' [''missing'']]) = None"
    by (simp add: TestSubsystem_def builtin_defs)
  moreover have "missing_dependency (map ss_name (boxed_builtins @ [TestSubsystem ''store'' [''missing'']]))
      (boxed_builtins @ [TestSubsystem ''store'' [''missing'']]) = Some (''store'', ''missing'')"
    by (simp add: TestSubsystem_def builtin_defs)
  ultimately show ?thesis
    by (simp add: test_missing_dependency_is_rejected_def Kernel_build_def build_def builder_of_subsystems reserved_name_def
        BUILTIN_NAMES_def TestSubsystem_def subsystem_defaults_def del: map_append)
qed

lemma cycle_passes: "test_dependency_cycle_is_detected t"
proof -
  have "topo_sort (boxed_builtins @ [TestSubsystem ''alpha'' [''beta''], TestSubsystem ''beta'' [''alpha'']]) =
      Some (Inl (DependencyCycle [''alpha'', ''beta'']))"
    by (simp add: sort_simps)
  moreover have "well_declared (boxed_builtins @ [TestSubsystem ''alpha'' [''beta''], TestSubsystem ''beta'' [''alpha'']])"
    by (simp add: well_declared_def TestSubsystem_def builtin_defs)
  ultimately have "build t (builder_of ''test'' [TestSubsystem ''alpha'' [''beta''], TestSubsystem ''beta'' [''alpha'']]) =
      Some (Inl (DependencyCycle [''alpha'', ''beta'']))"
    by (cases rule: build_cases [of t "builder_of ''test'' [TestSubsystem ''alpha'' [''beta''], TestSubsystem ''beta'' [''alpha'']]"])
      (simp_all add: builder_of_subsystems)
  then show ?thesis
    by (simp add: test_dependency_cycle_is_detected_def Kernel_build_def)
qed

lemma topo_sort_passes: "test_topo_sort_orders_dependencies_first t t1 t2"
proof -
  let ?subs = "[TestSubsystem ''third'' [''second''], TestSubsystem ''second'' [''first''], TestSubsystem ''first'' []]"
  have "topo_sort (boxed_builtins @ ?subs) = Some (Inr [''lifecycle'', ''first'', ''events'', ''metrics'', ''second'', ''errors'',
      ''health'', ''shutdown'', ''third'', ''workers''])"
    by (simp add: sort_simps)
  moreover have "well_declared (boxed_builtins @ ?subs)"
    by (simp add: well_declared_def TestSubsystem_def builtin_defs)
  ultimately obtain k where k: "Kernel_build t (builder_of ''test'' ?subs) = Some (Inr k)"
    "names_of k = [''lifecycle'', ''first'', ''events'', ''metrics'', ''second'', ''errors'', ''health'', ''shutdown'', ''third'', ''workers'']"
    using builder_builds [of "''test''" ?subs _ t] by auto
  show ?thesis
    by (simp add: test_topo_sort_orders_dependencies_first_def k snapshot_names)
qed

lemma builtin_dep_passes: "test_consumer_subsystem_with_builtin_dep_orders_after_builtin t t1 t2"
proof -
  let ?subs = "[TestSubsystem ''myapp'' [''events'']]"
  have "topo_sort (boxed_builtins @ ?subs) = Some (Inr [''lifecycle'', ''events'', ''metrics'', ''errors'', ''health'', ''shutdown'',
      ''myapp'', ''workers''])"
    by (simp add: sort_simps)
  moreover have "well_declared (boxed_builtins @ ?subs)"
    by (simp add: well_declared_def TestSubsystem_def builtin_defs)
  ultimately obtain k where k: "Kernel_build t (builder_of ''test'' ?subs) = Some (Inr k)"
    "names_of k = [''lifecycle'', ''events'', ''metrics'', ''errors'', ''health'', ''shutdown'', ''myapp'', ''workers'']"
    using builder_builds [of "''test''" ?subs _ t] by auto
  show ?thesis
    by (simp add: test_consumer_subsystem_with_builtin_dep_orders_after_builtin_def k snapshot_names)
qed

section \<open>core.rs\<close>

definition snapshot_state :: "'e Kernel \<Rightarrow> KernelState" where
  "snapshot_state k = ls_state (ks_lifecycle (Kernel_snapshot 0 0 k))"

definition test_new_kernel_starts_in_created_state :: "instant \<Rightarrow> bool" where
  "test_new_kernel_starts_in_created_state t \<longleftrightarrow>
     (case Kernel_build t (builder_of ''test'' []) of Some (Inr k) \<Rightarrow> snapshot_state k = Created | _ \<Rightarrow> False)"

definition test_boot_drives_lifecycle_to_running :: "instant \<Rightarrow> unit environment \<Rightarrow> bool" where
  "test_boot_drives_lifecycle_to_running t env \<longleftrightarrow>
     (case Kernel_build t (builder_of ''test'' []) of
        Some (Inr k) \<Rightarrow> (let (r, k) = Kernel_boot env k in r = Inr () \<and> snapshot_state k = Running)
      | _ \<Rightarrow> False)"

definition test_shutdown_signal_idempotent_no_op_when_not_running :: "instant \<Rightarrow> bool" where
  "test_shutdown_signal_idempotent_no_op_when_not_running t \<longleftrightarrow>
     (case Kernel_build t (builder_of ''test'' []) of
        Some (Inr k) \<Rightarrow> (let k = Kernel_shutdown (Kernel_shutdown k) in ShutdownHandle_is_signalled (ki_shutdown (kn_inner k)))
      | _ \<Rightarrow> False)"

definition PanicSubsystem :: Subsystem where
  "PanicSubsystem = subsystem_defaults ''panicker'' [] (Unwound (PayloadStaticStr ''intentional''))"

definition test_panicking_boot_is_caught_and_reported :: "instant \<Rightarrow> unit environment \<Rightarrow> bool" where
  "test_panicking_boot_is_caught_and_reported t env \<longleftrightarrow>
     (case Kernel_build t (builder_of ''test'' [PanicSubsystem]) of
        Some (Inr k) \<Rightarrow>
          (case Kernel_boot env k of
             (Inl (KE_Subsystem _ name _), k) \<Rightarrow> name = ''panicker'' \<and> snapshot_state k = Failed
           | _ \<Rightarrow> False)
      | _ \<Rightarrow> False)"

definition CountedShutdown :: Subsystem where
  "CountedShutdown = subsystem_defaults ''counter'' [] (Returned (Inr ()))"

definition FailLoad :: Subsystem where
  "FailLoad = (subsystem_defaults ''fail_load'' [''counter''] (Returned (Inr ())))
     \<lparr>ss_load := Returned (Inl (KE_Internal Internal ''load failed''))\<rparr>"

text \<open>The counter of the test is the number of calls of \<open>shutdown\<close> on that subsystem.\<close>

definition test_failing_load_runs_shutdown_on_loaded_subsystems :: "instant \<Rightarrow> unit environment \<Rightarrow> bool" where
  "test_failing_load_runs_shutdown_on_loaded_subsystems t env \<longleftrightarrow>
     (case Kernel_build t (builder_of ''test'' [CountedShutdown, FailLoad]) of
        Some (Inr k) \<Rightarrow>
          (case Kernel_boot env k of
             (Inl (KE_Internal _ _), k) \<Rightarrow> count_list (kn_calls k) (ShutdownCall ''counter'') = 1 \<and> snapshot_state k = Failed
           | _ \<Rightarrow> False)
      | _ \<Rightarrow> False)"

definition test_snapshot_includes_subsystem_metadata :: "instant \<Rightarrow> unit environment \<Rightarrow> instant \<Rightarrow> instant \<Rightarrow> bool" where
  "test_snapshot_includes_subsystem_metadata t env t1 t2 \<longleftrightarrow>
     (case Kernel_build t (builder_of ''test'' [Plain]) of
        Some (Inr k) \<Rightarrow>
          (let (r, k) = Kernel_boot env k; snap = Kernel_snapshot t1 t2 k
           in r = Inr () \<and>
              (case find (\<lambda>s. ss_snap_name s = ''plain'') (ks_subsystems snap) of
                 None \<Rightarrow> False
               | Some plain \<Rightarrow> ss_booted_at plain \<noteq> None \<and> ss_loaded_at plain \<noteq> None))
      | _ \<Rightarrow> False)"

text \<open>Contexts read through to the one kernel: what \<open>ctx1\<close> signals, \<open>ctx2\<close> sees.\<close>

definition test_context_returns_fresh_handles :: "instant \<Rightarrow> bool" where
  "test_context_returns_fresh_handles t \<longleftrightarrow>
     (case Kernel_build t (builder_of ''test'' []) of
        Some (Inr k) \<Rightarrow>
          (let k = on_inner (\<lambda>i. i\<lparr>ki_shutdown := ShutdownHandle_signal (ki_shutdown i)\<rparr>) k
           in ShutdownHandle_is_signalled (ki_shutdown (kn_inner k)) \<and> Kernel_name k = ''test'')
      | _ \<Rightarrow> False)"

text \<open>The subsystems of a kernel from their names.\<close>

lemma subsystems_by_name:
  assumes "map ss_name xs = order" and "set xs \<subseteq> set subs" and "distinct (map ss_name subs)"
  shows "xs = map (\<lambda>n. the (find (\<lambda>s. ss_name s = n) subs)) order"
proof -
  have "the (find (\<lambda>s. ss_name s = ss_name x) subs) = x" if "x \<in> set subs" for x
  proof -
    obtain y where y: "find (\<lambda>s. ss_name s = ss_name x) subs = Some y"
      by (cases "find (\<lambda>s. ss_name s = ss_name x) subs") (use \<open>x \<in> set subs\<close> in \<open>auto simp: find_None_iff\<close>)
    then have "y \<in> set subs" "ss_name y = ss_name x"
      by (auto simp: find_Some_iff)
    then show ?thesis
      using assms(3) that y by (simp add: distinct_map inj_on_def)
  qed
  then have "map (\<lambda>x. the (find (\<lambda>s. ss_name s = ss_name x) subs)) xs = xs"
    using assms(2) by (intro map_idI) blast
  then show ?thesis
    by (simp add: o_def flip: assms(1))
qed

text \<open>The kernels of the tests: what \<open>boot\<close> does with the subsystems in their order.\<close>

lemma test_kernel:
  assumes "well_declared (boxed_builtins @ subs)" and "topo_sort (boxed_builtins @ subs) = Some (Inr order)"
  obtains k where "Kernel_build t (builder_of ''test'' subs) = Some (Inr k)" "fresh_kernel k"
    "kernel_subsystems k = map (\<lambda>n. the (find (\<lambda>s. ss_name s = n) (boxed_builtins @ subs))) order"
proof -
  obtain k where k: "Kernel_build t (builder_of ''test'' subs) = Some (Inr k)" "names_of k = order"
      "set (kernel_subsystems k) = set (boxed_builtins @ subs)"
    using builder_builds [OF _ assms, of "''test''" t] by blast
  moreover have "distinct (map ss_name (boxed_builtins @ subs))"
    using assms(1) unfolding well_declared_def by blast
  ultimately show ?thesis
    using subsystems_by_name [of "kernel_subsystems k"] built_fresh(1) [OF k(1)] by (intro that [of k]) simp_all
qed

lemma boots:
  assumes "fresh_kernel k" and "context_only env"
  obtains r k' where "Kernel_boot env k = (r, k')" "(r, snapshot_state k', kn_calls k') = boot_outcome (kernel_subsystems k)"
  by (rule boot_leaves [OF assms])
    (rule that, simp_all add: snapshot_state_def Kernel_snapshot_def LifecycleController_snapshot_def kernel_state_def)

lemmas boot_simps = boot_outcome_def boot_result_def load_result_def caught_def before_failure_def builtin_defs

lemma default_test_kernel:
  obtains k where "Kernel_build t (builder_of ''test'' []) = Some (Inr k)" "fresh_kernel k" "Kernel_name k = ''test''"
    "boot_outcome (kernel_subsystems k) = (Inr (), Running, snd (snd (boot_outcome (kernel_subsystems k))))"
proof -
  have "well_declared (boxed_builtins @ [])"
    by (simp add: well_declared_def builtin_defs)
  then obtain k where k: "Kernel_build t (builder_of ''test'' []) = Some (Inr k)" "fresh_kernel k"
      "set (kernel_subsystems k) \<subseteq> set boxed_builtins"
    using builder_builds [of "''test''" "[]" _ t] builtin_order built_fresh(1) by fastforce
  then have "\<And>s. s \<in> set (kernel_subsystems k) \<Longrightarrow> boot_result s = Inr () \<and> load_result s = Inr ()"
    by (auto simp: builtin_defs boot_result_def load_result_def caught_def)
  then have "first_error boot_result (kernel_subsystems k) = None" "first_error load_result (kernel_subsystems k) = None"
    by (simp_all add: no_first_error)
  moreover obtain i where "k = Kernel_from_inner i" "build t (builder_of ''test'' []) = Some (Inr i)"
    using k(1) by (rule built_inner)
  then have "Kernel_name k = ''test''"
    by (cases rule: build_cases [of t "builder_of ''test'' []"])
      (auto simp: Kernel_name_def Kernel_from_inner_def assemble_def builder_of_subsystems split: option.splits sum.splits)
  ultimately show ?thesis
    using k by (intro that [of k]) (simp_all add: boot_outcome_def)
qed

lemma core_tests_pass: "test_new_kernel_starts_in_created_state t" "context_only env \<Longrightarrow> test_boot_drives_lifecycle_to_running t env"
    "test_shutdown_signal_idempotent_no_op_when_not_running t" "test_context_returns_fresh_handles t"
proof -
  obtain k where k: "Kernel_build t (builder_of ''test'' []) = Some (Inr k)" "fresh_kernel k" "Kernel_name k = ''test''"
    "boot_outcome (kernel_subsystems k) = (Inr (), Running, snd (snd (boot_outcome (kernel_subsystems k))))"
    by (rule default_test_kernel)
  show "test_new_kernel_starts_in_created_state t"
    using k(2) by (simp add: test_new_kernel_starts_in_created_state_def k(1) fresh_kernel_def snapshot_state_def Kernel_snapshot_def
        LifecycleController_snapshot_def kernel_state_def)
  show "test_boot_drives_lifecycle_to_running t env" if "context_only env"
  proof (rule boots [OF k(2) that])
    fix r k'
    assume b: "Kernel_boot env k = (r, k')" "(r, snapshot_state k', kn_calls k') = boot_outcome (kernel_subsystems k)"
    then have "r = Inr ()" "snapshot_state k' = Running"
      using k(4) by (metis fst_conv snd_conv)+
    then show ?thesis
      by (simp add: test_boot_drives_lifecycle_to_running_def k(1) b(1))
  qed
  show "test_shutdown_signal_idempotent_no_op_when_not_running t"
    by (simp add: test_shutdown_signal_idempotent_no_op_when_not_running_def k(1) Kernel_shutdown_def on_inner_def
        ShutdownHandle_signal_def ShutdownHandle_is_signalled_def)
  show "test_context_returns_fresh_handles t"
    using k(3) by (simp add: test_context_returns_fresh_handles_def k(1) on_inner_def Kernel_name_def ShutdownHandle_signal_def
        ShutdownHandle_is_signalled_def)
qed

lemma panicking_boot_passes:
  assumes "context_only env"
  shows "test_panicking_boot_is_caught_and_reported t env"
proof -
  let ?subs = "[PanicSubsystem]"
  have sort: "topo_sort (boxed_builtins @ ?subs) = Some (Inr [''lifecycle'', ''panicker'', ''events'', ''metrics'', ''errors'', ''health'',
      ''shutdown'', ''workers''])"
    by (simp add: sort_simps PanicSubsystem_def)
  have wd: "well_declared (boxed_builtins @ ?subs)"
    by (simp add: well_declared_def PanicSubsystem_def builtin_defs)
  obtain k where k: "Kernel_build t (builder_of ''test'' ?subs) = Some (Inr k)" "fresh_kernel k"
      "kernel_subsystems k = map (\<lambda>n. the (find (\<lambda>s. ss_name s = n) (boxed_builtins @ ?subs)))
         [''lifecycle'', ''panicker'', ''events'', ''metrics'', ''errors'', ''health'', ''shutdown'', ''workers'']"
    using test_kernel [OF wd sort] by blast
  show ?thesis
  proof (rule boots [OF k(2) assms])
    fix r k'
    assume b: "Kernel_boot env k = (r, k')" "(r, snapshot_state k', kn_calls k') = boot_outcome (kernel_subsystems k)"
    then have "r = Inl (KE_Subsystem SubsystemBootFailed ''panicker'' (panic_message (PayloadStaticStr ''intentional'')))"
        "snapshot_state k' = Failed"
      unfolding k(3) by (simp_all add: boot_simps PanicSubsystem_def)
    then show ?thesis
      by (simp add: test_panicking_boot_is_caught_and_reported_def k(1) b(1))
  qed
qed

lemma failing_load_passes:
  assumes "context_only env"
  shows "test_failing_load_runs_shutdown_on_loaded_subsystems t env"
proof -
  let ?subs = "[CountedShutdown, FailLoad]"
  have sort: "topo_sort (boxed_builtins @ ?subs) = Some (Inr [''lifecycle'', ''counter'', ''events'', ''metrics'', ''fail_load'', ''errors'',
      ''health'', ''shutdown'', ''workers''])"
    by (simp add: sort_simps CountedShutdown_def FailLoad_def)
  have wd: "well_declared (boxed_builtins @ ?subs)"
    by (simp add: well_declared_def CountedShutdown_def FailLoad_def builtin_defs)
  obtain k where k: "Kernel_build t (builder_of ''test'' ?subs) = Some (Inr k)" "fresh_kernel k"
      "kernel_subsystems k = map (\<lambda>n. the (find (\<lambda>s. ss_name s = n) (boxed_builtins @ ?subs)))
         [''lifecycle'', ''counter'', ''events'', ''metrics'', ''fail_load'', ''errors'', ''health'', ''shutdown'', ''workers'']"
    using test_kernel [OF wd sort] by blast
  show ?thesis
  proof (rule boots [OF k(2) assms])
    fix r k'
    assume b: "Kernel_boot env k = (r, k')" "(r, snapshot_state k', kn_calls k') = boot_outcome (kernel_subsystems k)"
    then have "r = Inl (KE_Internal Internal ''load failed'')" "snapshot_state k' = Failed"
        "count_list (kn_calls k') (ShutdownCall ''counter'') = 1"
      unfolding k(3) by (simp_all add: boot_simps CountedShutdown_def FailLoad_def boot_calls_def load_calls_def shutdown_calls_def)
    then show ?thesis
      by (simp add: test_failing_load_runs_shutdown_on_loaded_subsystems_def k(1) b(1))
  qed
qed

lemma snapshot_metadata_passes:
  assumes "context_only env"
  shows "test_snapshot_includes_subsystem_metadata t env t1 t2"
proof -
  let ?subs = "[Plain]"
  let ?order = "[''lifecycle'', ''plain'', ''events'', ''metrics'', ''errors'', ''health'', ''shutdown'', ''workers'']"
  have sort: "topo_sort (boxed_builtins @ ?subs) = Some (Inr ?order)"
    by (simp add: sort_simps Plain_def)
  have wd: "well_declared (boxed_builtins @ ?subs)"
    by (simp add: well_declared_def Plain_def builtin_defs)
  obtain k where k: "Kernel_build t (builder_of ''test'' ?subs) = Some (Inr k)" "fresh_kernel k"
      "kernel_subsystems k = map (\<lambda>n. the (find (\<lambda>s. ss_name s = n) (boxed_builtins @ ?subs))) ?order"
    using test_kernel [OF wd sort] by blast
  have names: "names_of k = ?order"
    by (simp add: k(3) builtin_defs Plain_def)
  have "built_kernel env ?order k"
    using assms k(1) names unfolding built_kernel_def by metis
  then have "kernel_consistent ?order k"
    using kernel_calls.inv_reachable [of env ?order k k] by (simp add: kernel_reached_def)
  then have consistent: "kernel_consistent ?order (snd (Kernel_boot env k))"
    by (rule consistent_boot [OF assms _ prod.collapse [symmetric]])
  show ?thesis
  proof (rule boots [OF k(2) assms])
    fix r k'
    assume b: "Kernel_boot env k = (r, k')" "(r, snapshot_state k', kn_calls k') = boot_outcome (kernel_subsystems k)"
    then have r: "r = Inr ()" and "snapshot_state k' = Running"
      unfolding k(3) by (simp_all add: boot_simps Plain_def)
    then have stamps: "booted k' = set ?order" "loaded k' = set ?order" and names': "names_of k' = ?order"
      using consistent unfolding b(1) kernel_consistent_def
      by (simp_all add: snapshot_state_def Kernel_snapshot_def LifecycleController_snapshot_def kernel_state_def)
    obtain x where x: "find (\<lambda>s. ss_snap_name s = ''plain'') (ks_subsystems (Kernel_snapshot t1 t2 k')) = Some x"
    proof (cases "find (\<lambda>s. ss_snap_name s = ''plain'') (ks_subsystems (Kernel_snapshot t1 t2 k'))")
      case None
      have "''plain'' \<in> set (snapshot_names t1 t2 k')"
        unfolding snapshot_names names' by simp
      then show ?thesis
        using None by (auto simp: snapshot_names_def find_None_iff)
    qed (rule that)
    then have "x \<in> set (subsystem_snapshots k')" "ss_snap_name x = ''plain''"
      by (auto simp: find_Some_iff Kernel_snapshot_def)
    then have "ss_booted_at x = bk_booted_at (kn_book k') ''plain''" "ss_loaded_at x = bk_loaded_at (kn_book k') ''plain''"
      by (auto simp: subsystem_snapshots_def)
    moreover have "''plain'' \<in> booted k'" "''plain'' \<in> loaded k'"
      by (simp_all only: stamps) simp_all
    ultimately have "ss_booted_at x \<noteq> None \<and> ss_loaded_at x \<noteq> None"
      by auto
    then show ?thesis
      by (simp add: test_snapshot_includes_subsystem_metadata_def k(1) b(1) r x)
  qed
qed

section \<open>proc_daemon.rs\<close>

definition test_default_config_is_empty_named :: bool where
  "test_default_config_is_empty_named \<longleftrightarrow>
     (let cfg = DaemonConfig_default in dc_name cfg = '''' \<and> dc_pid_file cfg = None \<and> dc_working_dir cfg = None)"

definition test_builder_chain_sets_each_field :: bool where
  "test_builder_chain_sets_each_field \<longleftrightarrow>
     (let cfg = config_stderr ''/var/log/svc.err'' (config_stdout ''/var/log/svc.out'' (config_group ''svc'' (config_user ''svc''
            (config_working_dir ''/var/lib/svc'' (config_pid_file ''/tmp/svc.pid'' (DaemonConfig_new ''svc''))))))
      in dc_name cfg = ''svc'' \<and> dc_pid_file cfg = Some ''/tmp/svc.pid'' \<and> dc_working_dir cfg = Some ''/var/lib/svc'' \<and>
         dc_user cfg = Some ''svc'' \<and> dc_group cfg = Some ''svc'' \<and> dc_stdout cfg = Some ''/var/log/svc.out'' \<and>
         dc_stderr cfg = Some ''/var/log/svc.err'')"

definition test_new_rejects_empty_name :: bool where
  "test_new_rejects_empty_name \<longleftrightarrow>
     (case DaemonAdapter_new DaemonConfig_default of Inl (KE_Subsystem _ _ _) \<Rightarrow> True | _ \<Rightarrow> False)"

definition test_new_accepts_named_config :: bool where
  "test_new_accepts_named_config \<longleftrightarrow>
     (case DaemonAdapter_new (DaemonConfig_new ''svc'') of Inr adapter \<Rightarrow> dc_name (da_config adapter) = ''svc'' | _ \<Rightarrow> False)"

text \<open>\<open>str::trim\<close> on ASCII text and \<open>parse::<u32>\<close> of an unsigned decimal.\<close>

definition trim :: "string \<Rightarrow> string" where
  "trim s = (let space = (\<lambda>c. of_char c \<in> {9, 10, 11, 12, 13, 32 :: nat}) in rev (dropWhile space (rev (dropWhile space s))))"

definition digit :: "char \<Rightarrow> bool" where
  "digit c \<longleftrightarrow> of_char c \<in> {48 .. 57 :: nat}"

definition decimal_value :: "string \<Rightarrow> nat" where
  "decimal_value = foldl (\<lambda>n c. 10 * n + (of_char c - 48)) 0"

definition parses_u32 :: "string \<Rightarrow> bool" where
  "parses_u32 s \<longleftrightarrow> s \<noteq> [] \<and> list_all digit s \<and> decimal_value s < 2 ^ 32"

definition test_daemonize_writes_and_drops_pid_file :: "os \<Rightarrow> process \<Rightarrow> string \<Rightarrow> bool" where
  "test_daemonize_writes_and_drops_pid_file os p tmp \<longleftrightarrow>
     (let file = os_resolve os (pr_cwd p) tmp; p = fs_remove os tmp p
      in case DaemonAdapter_new (config_pid_file tmp (DaemonConfig_new ''svc'')) of
           Inl _ \<Rightarrow> False
         | Inr adapter \<Rightarrow>
             (case daemonize os adapter p of
                (Inr adapter, p) \<Rightarrow>
                  (case pr_files p file of
                     None \<Rightarrow> False
                   | Some contents \<Rightarrow> parses_u32 (trim contents) \<and> pr_files (drop_guard os (da_pid_file adapter) p) file = None)
              | _ \<Rightarrow> False))"

lemma config_tests_pass: test_default_config_is_empty_named test_builder_chain_sets_each_field test_new_rejects_empty_name
    test_new_accepts_named_config
  by (simp_all add: test_default_config_is_empty_named_def test_builder_chain_sets_each_field_def test_new_rejects_empty_name_def
      test_new_accepts_named_config_def DaemonConfig_default_def DaemonConfig_new_def DaemonAdapter_new_def config_pid_file_def
      config_working_dir_def config_user_def config_group_def config_stdout_def config_stderr_def)

lemma decimal_digits: "list_all digit (decimal n) \<and> decimal_value (decimal n) = n"
proof (induction n rule: decimal.induct)
  case (1 n)
  show ?case
    unfolding decimal.simps [of n] using "1.IH" by (auto simp: digit_def decimal_value_def)
qed

lemma trim_pid: "list_all digit s \<Longrightarrow> trim (s @ [char_of (10 :: nat)]) = s"
proof -
  assume s: "list_all digit s"
  let ?space = "\<lambda>c. of_char c \<in> {9, 10, 11, 12, 13, 32 :: nat}"
  have keep: "dropWhile ?space xs = xs" if "list_all digit xs" for xs
    using that by (cases xs) (auto simp: digit_def)
  have "dropWhile ?space (s @ [char_of (10 :: nat)]) = (if s = [] then [] else s @ [char_of (10 :: nat)])"
    using s by (cases s) (auto simp: digit_def)
  then show ?thesis
    using s keep [of "rev s"] by (auto simp: trim_def list_all_iff)
qed

lemma daemonize_passes:
  assumes "os_pid os < 2 ^ 32" and "\<And>file. os_write os file = None" and "\<And>file. os_remove os file = None"
  shows "test_daemonize_writes_and_drops_pid_file os p tmp"
proof -
  have "parses_u32 (trim (decimal (os_pid os) @ [char_of (10 :: nat)]))"
    using assms(1) decimal_digits [of "os_pid os"] trim_pid decimal_nonempty by (simp add: parses_u32_def)
  then show ?thesis
    by (simp add: test_daemonize_writes_and_drops_pid_file_def DaemonAdapter_new_def DaemonConfig_new_def config_pid_file_def fs_defs
        assms(2,3) Let_def)
qed

end
