(* ===== verification/Spec2Isabelle.thy ===== *)
theory Spec2Isabelle
  imports Lifecycle_Concurrent Dispatcher_Concurrent Health_Registry Metrics Errors Worker_Runtime Shutdown_Concurrent Shutdown_Latch
    Health_Concurrent Worker_Machine Supervisor_Timing Supervisor_Drain Supervisor_Health Shutdown_Timing Event_Delivery Shutdown_Sequence
    Kernel_Locks Boot_Concurrent Daemon Demos Tests_Primitives Tests_Lifecycle Tests_Events Tests_Health Tests_Policies
    Tests_Worker Tests_Shutdown Tests_Supervisor Tests_Kernel
begin

text \<open>
  \<^bold>\<open>service-kernel\<close>: a Rust library that boots, supervises and stops the parts of a service. A consumer
  declares subsystems and workers on a \<open>KernelBuilder\<close>; \<open>build\<close> sorts the subsystems by their
  dependencies; \<open>Kernel::run\<close> boots and loads them in that order, supervises the workers until the shutdown
  signal is raised, runs the shutdown hooks and shuts the subsystems down in reverse. Around
  that stand a lifecycle state machine, an event dispatcher, a health registry, an error registry, metric
  names and the policies (restart, backoff, circuit breaker, heartbeat watchdog) of the
  supervisor.

  \<^bold>\<open>Theories and the code they model\<close> (paths under src/src):

  \<^item> Kernel_Prelude: word and association-list lemmas and the interfaces the components share, as locales:
    codecs of enumerations in atomic bytes, systems with an invariant, one-way latches, failure windows that are
    measured from one failure to the next, and functional refinement. Every component that has such a contract interprets
    the locale on its own operations.
  \<^item> Primitives: primitives/time.rs, id.rs, global.rs. An instant is an \<open>int\<close> of nanoseconds with the range of the
    standard library, a duration a \<open>nat\<close> of nanoseconds; a reading of the clock is an argument of the operation
    that makes it. Identifiers are 64-bit words, their counter wraps around.
  \<^item> Lifecycle_States, Lifecycle_Controller, Lifecycle_Concurrent: lifecycle/*.rs. The transition table is the boolean
    matrix the code fills in; \<open>legal_edge\<close> is the documented state machine. Under concurrent calls the move is
    made under the lock and announced after it.
  \<^item> Errors, Health_Status, Worker_Types, Events, Metrics: the value types, their codes, keys, topics and texts. A boxed
    error is known by the text it displays, the translation crate is an argument of the texts.
  \<^item> Dispatcher, Dispatcher_Concurrent: events/dispatcher.rs, against an abstract list of subscriptions, and with
    each of its critical sections as a step of any number of calls in progress.
  \<^item> Event_Delivery: the controller and the dispatcher put together, seen by the subscribers of a lifecycle topic.
  \<^item> Health_Registry, Health_Concurrent: health/registry.rs and snapshot.rs, with the incremental aggregate and the race
    between the read before the lock and the locked section; under concurrent calls, the load, the locked section and each
    event of \<open>report\<close> are steps, and what has been announced follows from the history of locked sections.
  \<^item> Worker_Policies, Worker_Runtime: worker/policy/*.rs, spec.rs, handle.rs, context.rs, watchdog.rs, on the integer
    widths of the code.
  \<^item> Supervisor, Supervisor_Properties, Worker_Machine, Supervisor_Timing, Supervisor_Drain, Supervisor_Health: worker/supervisor.rs. The handlers are functions on the supervisor's
    record; \<open>sup_step\<close> interleaves registration, ended tasks, watchdog ticks, heartbeats, cancellations and
    the final drain. Tasks, timers and the join set of tokio are its inputs. Seen from one worker, every step is a move of
    a machine with a few states; in time, the loop ticks, backs off and cancels silent workers, and the final drain aborts what has not ended after
    the grace period and then waits for blocking workers; with the health registry, what a failed worker leaves there.
  \<^item> Shutdown_Latch, Shutdown, Shutdown_Concurrent, Shutdown_Timing: kernel/handles.rs (mutex and condition variable as a step relation
    over any number of threads) and shutdown/*.rs, with concurrent calls of the coordinator as a step relation and
    the time its hooks may take.
  \<^item> Kernel_Builder, Boot_Order: kernel/subsystem.rs, builtins.rs, builder.rs and what the topological sort
    computes.
  \<^item> Kernel_Core, Kernel_Phases, Kernel_Run, Kernel_Snapshots, Kernel_Locks, Boot_Concurrent: kernel/core.rs and context.rs; the phases are
    functions, the execution phase a relation that composes the latch, the supervisor and the shutdown coordinator; the
    public operations in any order keep the bookkeeping consistent; the two mutexes of the kernel are a step relation, first
    alone, then with the data they protect: a boot beside threads that take snapshots computes what the phases compute.
  \<^item> Kernel_Liveness: from a raised shutdown signal, in particular one raised by a critical worker that failed, through
    the end of the supervisor and the coordinator to a stopped kernel; the handler of the operating system's signals.
  \<^item> Shutdown_Sequence: the order of the events in the log of a run, from Booting over the Stopped events of the workers and
    the two shutdown events to Stopping and Stopped; what others emit may fall anywhere in between.
  \<^item> Daemon: worker/adapter/proc_daemon.rs.
  \<^item> Demos: examples/minimal.rs, workers.rs and full.rs (beside src/) as uses of the kernel: what they build, subscribe
    and print, and how their runs end.
  \<^item> Tests_Prelude and Tests_Primitives, Tests_Lifecycle, Tests_Events, Tests_Health, Tests_Policies, Tests_Worker,
    Tests_Shutdown, Tests_Supervisor, Tests_Kernel: the conformance suite. Each unit test of the crate (\<open>mod tests\<close> of the
    files above) whose outcome the model determines is a predicate of the same name that makes the calls of the test and states its
    assertions; each is proved to hold. What a test reads from the clock, the operating system or a library is a parameter, so a test holds for all its values, under
    hypotheses where the test relies on them (a clock that is not about to overflow, a worker whose failures follow one another
    within a minute). Test names that the crate uses in several files end in the file they are from. Left out are the tests of
    marker traits and of Debug output, those whose outcome is that sleeping or waiting threads wake up, and those that count the calls of a classifier.

  \<^bold>\<open>State and effects.\<close> A component is a record, an operation a function that returns the updated record; events
  and metric calls are a list of effects in the order in which the code makes them. Errors are sums, a panic is the
  constructor \<open>Unwound\<close> (or \<open>None\<close> where only the fact matters). Hash maps the code never iterates are partial
  functions; the supervisor's, which it does iterate, is an association list that a step may reorder.

  \<^bold>\<open>Termination.\<close> The only loop that is not structural is the queue loop of the topological sort, a
  \<open>partial_function\<close> on options: it is proved to end on everything \<open>build\<close> hands to it. There is no fuel
  anywhere.

  \<^bold>\<open>What the properties show.\<close> Each is a theorem after a text that starts with its number. In order: runs of the
  kernel (dependencies, reverse shutdown, first failure), the supervisor's tasks and outcomes, the lifecycle, dispatcher,
  health and breaker against their abstract specifications, building, the latch, shutdown, and the
  places where the code does not do what it says, each as a theorem on the model.

  \<^bold>\<open>Not modelled.\<close> Debug and plain getters; the build without the tokio feature; blocking of handlers inside \<open>emit\<close>; the
  printing metrics backend of examples/full.rs, which formats floating-point numbers; module declarations; the unit tests named
  above, and the integration tests beside src/.
\<close>

end
